(* ===== verification/Prelude.thy ===== *)
theory Prelude
  imports Main "HOL-Library.Word"
begin

text \<open>
  Shared vocabulary of the development: the types the C++ program computes with, the ways
  a run of it can go wrong, and the lemmas on results, lists and C strings that every
  component uses.

  A byte (\<open>char\<close>, \<open>unsigned char\<close>, \<open>uint8_t\<close>) is HOL's 8-bit \<open>char\<close>, so that
  \<open>std::string\<close>, \<open>std::vector<char>\<close> and the literals of the source are lists of it.
  Integers with a width are words; \<open>int\<close> variables that stay far from their bounds are
  \<open>int\<close>. A C++ operation with undefined behaviour (a read past the end of a vector, a
  use of an invalidated reference) is a \<open>fault\<close>, the left side of a sum.
\<close>

unbundle bit_operations_syntax

type_synonym bytes = "char list"
type_synonym u16 = "16 word"
type_synonym u32 = "32 word"
type_synonym u64 = "64 word"

datatype fault =
    OutOfBoundsRead
  | HeapOverflow
  | DanglingReference
  | NullWindow
  | ArithmeticOverflow
  | LengthError

text \<open>
  The collections the components feed: \<open>wire_simps\<close> evaluates byte-level code,
  \<open>width_simps\<close> gives the lengths of encodings, \<open>frame_simps\<close> states which fields an
  operation leaves alone.
\<close>

named_theorems wire_simps
named_theorems width_simps
named_theorems frame_simps

section \<open>Results that may be a fault\<close>

definition bindE :: "'e + 'a \<Rightarrow> ('a \<Rightarrow> 'e + 'b) \<Rightarrow> 'e + 'b" where
  "bindE r f = (case r of Inl e \<Rightarrow> Inl e | Inr a \<Rightarrow> f a)"

lemma bindE_simps [simp]:
  "bindE (Inl e) f = Inl e"
  "bindE (Inr a) f = f a"
  by (simp_all add: bindE_def)

lemma bindE_eq_Inr_iff: "bindE r f = Inr b \<longleftrightarrow> (\<exists>a. r = Inr a \<and> f a = Inr b)"
  by (cases r) simp_all

lemma bindE_eq_Inl_iff: "bindE r f = Inl e \<longleftrightarrow> r = Inl e \<or> (\<exists>a. r = Inr a \<and> f a = Inl e)"
  by (cases r) simp_all

lemma bindE_split [split]:
  "P (bindE r f) \<longleftrightarrow> (\<forall>e. r = Inl e \<longrightarrow> P (Inl e)) \<and> (\<forall>a. r = Inr a \<longrightarrow> P (f a))"
  by (cases r) simp_all

section \<open>Memory reads and C strings\<close>

text \<open>
  \<open>read_at buf off n\<close> is a read of \<open>n\<close> bytes at \<open>buf.data() + off\<close>; outside the vector
  it is undefined behaviour.
\<close>

definition read_at :: "bytes \<Rightarrow> nat \<Rightarrow> nat \<Rightarrow> fault + bytes" where
  "read_at buf off n =
     (if off + n \<le> length buf then Inr (take n (drop off buf)) else Inl OutOfBoundsRead)"

lemma read_at_eq_Inr_iff:
  "read_at buf off n = Inr bs \<longleftrightarrow> off + n \<le> length buf \<and> bs = take n (drop off buf)"
  by (auto simp: read_at_def)

lemma read_at_eq_Inl_iff:
  "read_at buf off n = Inl e \<longleftrightarrow> length buf < off + n \<and> e = OutOfBoundsRead"
  by (auto simp: read_at_def)

lemma length_read_at: "read_at buf off n = Inr bs \<Longrightarrow> length bs = n"
  by (auto simp: read_at_eq_Inr_iff)

lemma read_at_append [simp]:
  "length pre = off \<Longrightarrow> length bs = n \<Longrightarrow> read_at (pre @ bs @ post) off n = Inr bs"
  by (simp add: read_at_def)

text \<open>The bytes up to the first NUL: what \<open>std::string(const char*)\<close> copies.\<close>

definition c_str :: "bytes \<Rightarrow> string" where
  "c_str bs = takeWhile (\<lambda>c. c \<noteq> CHR 0x00) bs"

lemma c_str_simps [simp]:
  "c_str [] = []"
  "c_str (c # cs) = (if c = CHR 0x00 then [] else c # c_str cs)"
  by (simp_all add: c_str_def)

lemma c_str_append_NUL: "CHR 0x00 \<notin> set s \<Longrightarrow> c_str (s @ CHR 0x00 # r) = s"
  by (induction s) auto

lemma c_str_no_NUL: "CHR 0x00 \<notin> set s \<Longrightarrow> c_str s = s"
  by (induction s) auto

lemma NUL_notin_c_str [simp]: "CHR 0x00 \<notin> set (c_str s)"
  by (auto simp: c_str_def dest: set_takeWhileD)

lemma length_c_str_le: "length (c_str s) \<le> length s"
  by (simp add: c_str_def length_takeWhile_le)

definition read_c_str :: "bytes \<Rightarrow> nat \<Rightarrow> fault + string" where
  "read_c_str buf off =
     (if CHR 0x00 \<in> set (drop off buf) then Inr (c_str (drop off buf))
      else Inl OutOfBoundsRead)"

text \<open>\<open>pad_to n s\<close> is the content of a \<open>char[n]\<close> that holds the string \<open>s\<close>.\<close>

definition pad_to :: "nat \<Rightarrow> string \<Rightarrow> bytes" where
  "pad_to n s = take n (s @ replicate n (CHR 0x00))"

lemma length_pad_to [simp, width_simps]: "length (pad_to n s) = n"
  by (simp add: pad_to_def)

lemma c_str_pad_to: "CHR 0x00 \<notin> set s \<Longrightarrow> length s < n \<Longrightarrow> c_str (pad_to n s) = s"
proof -
  assume "CHR 0x00 \<notin> set s" "length s < n"
  then have "pad_to n s = s @ CHR 0x00 # replicate (n - length s - 1) (CHR 0x00)"
    by (cases "n - length s") (simp_all add: pad_to_def take_Cons')
  with \<open>CHR 0x00 \<notin> set s\<close> show ?thesis by (simp add: c_str_append_NUL)
qed

section \<open>Lists\<close>

lemma take_length_append [simp]: "length xs = n \<Longrightarrow> take n (xs @ ys) = xs"
  by simp

lemma drop_length_append [simp]: "length xs = n \<Longrightarrow> drop n (xs @ ys) = ys"
  by simp

lemma length_4_conv: "length xs = 4 \<longleftrightarrow> (\<exists>a b c d. xs = [a, b, c, d])"
  by (auto simp: numeral_eq_Suc length_Suc_conv)

lemma length_2_conv: "length xs = 2 \<longleftrightarrow> (\<exists>a b. xs = [a, b])"
  by (auto simp: numeral_eq_Suc length_Suc_conv)

lemma list_update_numeral [simp]: "(x # xs)[numeral v := y] = x # xs[pred_numeral v := y]"
  by (simp add: numeral_eq_Suc)

lemma takeWhile_neq_append: "d \<notin> set xs \<Longrightarrow> takeWhile (\<lambda>c. c \<noteq> d) (xs @ ys) = xs @ takeWhile (\<lambda>c. c \<noteq> d) ys"
  by (induction xs) auto

lemma length_takeWhile_less_iff: "length (takeWhile P xs) < length xs \<longleftrightarrow> (\<exists>x \<in> set xs. \<not> P x)"
  by (induction xs) auto

text \<open>The last \<open>n\<close> elements, the content of a bounded buffer that drops the oldest.\<close>

definition lastn :: "nat \<Rightarrow> 'a list \<Rightarrow> 'a list" where
  "lastn n xs = drop (length xs - n) xs"

lemma length_lastn [simp]: "length (lastn n xs) = min n (length xs)"
  by (simp add: lastn_def)

lemma nth_lastn: "i < min n (length xs) \<Longrightarrow> lastn n xs ! i = xs ! (i + (length xs - n))"
  by (simp add: lastn_def add.commute)

lemma lastn_all: "length xs \<le> n \<Longrightarrow> lastn n xs = xs"
  by (simp add: lastn_def)

lemma lastn_lastn_snoc: "lastn n (lastn n xs @ [x]) = lastn n (xs @ [x])"
  by (cases "n \<le> length xs") (auto simp: lastn_def Suc_diff_le)

end
