(* ===== verification/Byte_Order.thy ===== *)
theory Byte_Order
  imports Prelude
begin

text \<open>
  Byte order: \<open>common/platform.h\<close>'s \<open>byteSwap32\<close>, the loads the parsers do through
  \<open>reinterpret_cast\<close> on a little-endian host, and \<open>ntohl\<close>/\<open>ntohs\<close>, which on such a
  host swap the bytes. The lemmas say that load and swap together read big-endian
  network order, whatever the bytes.
\<close>

section \<open>Loads, stores and swaps\<close>

text \<open>\<open>*reinterpret_cast<const uintN_t*>(p)\<close> on a little-endian host, and its inverse.\<close>

definition load_le :: "bytes \<Rightarrow> 'a::len word" where
  "load_le bs = word_of_int (horner_sum of_char 256 bs)"

definition byte_of :: "nat \<Rightarrow> 'a::len word \<Rightarrow> char" where
  "byte_of i w = char_of (uint (drop_bit (8 * i) w))"

definition store_le :: "nat \<Rightarrow> 'a::len word \<Rightarrow> bytes" where
  "store_le n w = map (\<lambda>i. byte_of i w) [0..<n]"

text \<open>\<open>__builtin_bswap32\<close>, as \<open>byteSwap32\<close> uses it.\<close>

definition byteSwap32 :: "u32 \<Rightarrow> u32" where
  "byteSwap32 value =
     push_bit 24 (value AND 0xFF) OR push_bit 8 (value AND 0xFF00)
     OR drop_bit 8 (value AND 0xFF0000) OR drop_bit 24 value"

definition byteSwap16 :: "u16 \<Rightarrow> u16" where
  "byteSwap16 value = push_bit 8 value OR drop_bit 8 value"

abbreviation ntohl :: "u32 \<Rightarrow> u32" where "ntohl \<equiv> byteSwap32"
abbreviation ntohs :: "u16 \<Rightarrow> u16" where "ntohs \<equiv> byteSwap16"
abbreviation htons :: "u16 \<Rightarrow> u16" where "htons \<equiv> byteSwap16"

text \<open>Network order, as the peer writes it.\<close>

definition be32 :: "u32 \<Rightarrow> bytes" where
  "be32 w = rev (store_le 4 w)"

definition be16 :: "u16 \<Rightarrow> bytes" where
  "be16 w = rev (store_le 2 w)"

section \<open>Bits\<close>

lemma take_bit_8_of_char: "take_bit 8 (of_char c :: int) = of_char c"
  by (simp add: take_bit_eq_mod)

lemma mod_256_take_bit: "(x :: int) mod 256 = take_bit 8 x"
  by (simp add: take_bit_eq_mod)

lemma bit_of_char_ge_8: "8 \<le> n \<Longrightarrow> \<not> bit (of_char c :: int) n"
  by (metis take_bit_8_of_char bit_take_bit_iff not_less)

lemma bit_horner_sum_of_char:
  "bit (horner_sum of_char 256 bs :: int) n
     \<longleftrightarrow> n div 8 < length bs \<and> bit (of_char (bs ! (n div 8)) :: int) (n mod 8)"
proof (induction bs arbitrary: n)
  case (Cons c cs)
  have "horner_sum of_char 256 (c # cs)
      = concat_bit 8 (of_char c :: int) (horner_sum of_char 256 cs)"
    by (simp add: concat_bit_eq take_bit_8_of_char push_bit_eq_mult)
  then show ?case
    by (cases "n < 8") (auto simp: bit_concat_bit_iff Cons.IH le_div_geq le_mod_geq)
qed simp

lemma bit_load_le:
  "bit (load_le bs :: 'a::len word) n
     \<longleftrightarrow> n < LENGTH('a) \<and> n div 8 < length bs \<and> bit (of_char (bs ! (n div 8)) :: int) (n mod 8)"
  by (auto simp: load_le_def bit_word_of_int_iff bit_horner_sum_of_char)

lemma bit_of_char_byte_of:
  "bit (of_char (byte_of i w) :: int) n \<longleftrightarrow> n < 8 \<and> bit (w :: 'a::len word) (8 * i + n)"
  by (simp add: byte_of_def mod_256_take_bit bit_take_bit_iff bit_uint_iff bit_drop_bit_eq)
    (auto dest: bit_imp_le_length)

lemma length_store_le [simp, width_simps]: "length (store_le n w) = n"
  by (simp add: store_le_def)

lemma length_be32 [simp, width_simps]: "length (be32 w) = 4"
  by (simp add: be32_def)

lemma length_be16 [simp, width_simps]: "length (be16 w) = 2"
  by (simp add: be16_def)

text \<open>Storing a word of \<open>n\<close> bytes and loading it back.\<close>

lemma load_store_le:
  "LENGTH('a) = 8 * n \<Longrightarrow> load_le (store_le n w) = (w :: 'a::len word)"
  by (rule bit_eqI) (auto simp: bit_load_le store_le_def bit_of_char_byte_of dest: bit_imp_le_length)

lemma store_load_le:
  "length bs = n \<Longrightarrow> LENGTH('a) = 8 * n \<Longrightarrow> store_le n (load_le bs :: 'a::len word) = bs"
proof (rule nth_equalityI)
  fix i assume *: "length bs = n" "LENGTH('a) = 8 * n" "i < length (store_le n (load_le bs :: 'a word))"
  have "of_char (byte_of i (load_le bs :: 'a word)) = (of_char (bs ! i) :: int)"
  proof (rule bit_eqI)
    fix m show "bit (of_char (byte_of i (load_le bs :: 'a word)) :: int) m
        = bit (of_char (bs ! i) :: int) m"
      using * by (cases "m < 8") (auto simp: bit_of_char_byte_of bit_load_le bit_of_char_ge_8)
  qed
  with * show "store_le n (load_le bs :: 'a word) ! i = bs ! i"
    by (simp add: store_le_def)
qed simp

section \<open>Network order\<close>

lemma not_bit_word_ge: "LENGTH('a) \<le> n \<Longrightarrow> \<not> bit (w :: 'a::len word) n"
  by (auto dest: bit_imp_le_length)

lemmas upt_numeral_simps = upt_rec [of 0] upt_rec [of "Suc 0"] upt_rec_numeral
  numeral_2_eq_2 [symmetric]

lemma bit_byteSwap32:
  "bit (byteSwap32 w) n \<longleftrightarrow> n < 32 \<and> bit w (8 * (3 - n div 8) + n mod 8)"
proof (cases "n < 32")
  case True
  have "list_all (\<lambda>n. bit (byteSwap32 w) n \<longleftrightarrow> bit w (8 * (3 - n div 8) + n mod 8)) [0..<32]"
    by (simp add: upt_numeral_simps byteSwap32_def bit_simps not_bit_word_ge)
  with True show ?thesis by (auto simp: list_all_iff)
next
  case False
  then show ?thesis using bit_imp_le_length by fastforce
qed

lemma bit_byteSwap16:
  "bit (byteSwap16 w) n \<longleftrightarrow> n < 16 \<and> bit w (8 * (1 - n div 8) + n mod 8)"
proof (cases "n < 16")
  case True
  have "list_all (\<lambda>n. bit (byteSwap16 w) n \<longleftrightarrow> bit w (8 * (1 - n div 8) + n mod 8)) [0..<16]"
    by (simp add: upt_numeral_simps byteSwap16_def bit_simps not_bit_word_ge)
  with True show ?thesis by (auto simp: list_all_iff)
next
  case False
  then show ?thesis using bit_imp_le_length by fastforce
qed

lemma byteSwap32_involution [simp]: "byteSwap32 (byteSwap32 w) = w"
  by (rule bit_eqI) (auto simp: bit_byteSwap32 dest: bit_imp_le_length)

lemma byteSwap16_involution [simp]: "byteSwap16 (byteSwap16 w) = w"
  by (rule bit_eqI) (auto simp: bit_byteSwap16 dest: bit_imp_le_length)

text \<open>Load, then swap: the bytes are read most significant first.\<close>

lemma ntohl_load_le:
  "length bs = 4 \<Longrightarrow> ntohl (load_le bs) = load_le (rev bs)"
  by (rule bit_eqI) (auto simp: bit_byteSwap32 bit_load_le rev_nth)

lemma ntohs_load_le:
  "length bs = 2 \<Longrightarrow> ntohs (load_le bs) = load_le (rev bs)"
  by (rule bit_eqI) (auto simp: bit_byteSwap16 bit_load_le rev_nth)

lemma ntohl_load_be32 [wire_simps]: "ntohl (load_le (be32 w)) = w"
  by (simp add: ntohl_load_le) (simp add: be32_def load_store_le)

lemma ntohs_load_be16 [wire_simps]: "ntohs (load_le (be16 w)) = w"
  by (simp add: ntohs_load_le) (simp add: be16_def load_store_le)

lemma load_be16: "load_le (be16 w) = byteSwap16 w"
  by (metis ntohs_load_be16 byteSwap16_involution)

lemma load_be32: "load_le (be32 w) = byteSwap32 w"
  by (metis ntohl_load_be32 byteSwap32_involution)

lemma be32_inject [simp]: "be32 v = be32 w \<longleftrightarrow> v = w"
  by (metis ntohl_load_be32)

end
