(* ===== verification/Codec.thy ===== *)
theory Codec
  imports Byte_Order
begin

text \<open>
  Fixed-width binary formats: the layout of a C struct in memory, the interface of a
  decoder that reads a value of fixed width at an offset (locale \<open>fixed_codec\<close>), and
  the loop that reads an array of such values. The VConsole parsers are its clients.
\<close>

section \<open>The layout of a struct\<close>

text \<open>
  A field is its size and its alignment; the compiler places each at the next multiple of
  its alignment and rounds the size of the struct up to the largest one.
\<close>

definition align_up :: "nat \<Rightarrow> nat \<Rightarrow> nat" where
  "align_up off al = ((off + al - 1) div al) * al"

fun layout_end :: "nat \<Rightarrow> (nat \<times> nat) list \<Rightarrow> nat" where
  "layout_end off [] = off"
| "layout_end off ((sz, al) # fs) = layout_end (align_up off al + sz) fs"

definition struct_size :: "(nat \<times> nat) list \<Rightarrow> nat" where
  "struct_size fs = align_up (layout_end 0 fs) (foldr (\<lambda>f. max (snd f)) fs 1)"

section \<open>Decoders of fixed width\<close>

text \<open>The loop \<open>for (i = 0; i < n; ++i) { decode at data; data += width; push_back; }\<close>.\<close>

fun parse_array :: "(bytes \<Rightarrow> nat \<Rightarrow> fault + 'a) \<Rightarrow> nat \<Rightarrow> nat \<Rightarrow> bytes \<Rightarrow> nat \<Rightarrow> fault + 'a list" where
  "parse_array dec width 0 buf off = Inr []"
| "parse_array dec width (Suc n) buf off =
     bindE (dec buf off) (\<lambda>a.
     bindE (parse_array dec width n buf (off + width)) (\<lambda>as. Inr (a # as)))"

locale fixed_codec =
  fixes enc :: "'a \<Rightarrow> bytes"
    and dec :: "bytes \<Rightarrow> nat \<Rightarrow> fault + 'a"
    and width :: nat
    and wf :: "'a \<Rightarrow> bool"
  assumes length_enc: "wf a \<Longrightarrow> length (enc a) = width"
    and dec_enc: "wf a \<Longrightarrow> length pre = off \<Longrightarrow> dec (pre @ enc a @ post) off = Inr a"
    and dec_defined: "off + width \<le> length buf \<Longrightarrow> \<exists>a. dec buf off = Inr a"
    and dec_short: "length buf < off + width \<Longrightarrow> dec buf off = Inl OutOfBoundsRead"
begin

lemma dec_Inr_bound: "dec buf off = Inr a \<Longrightarrow> off + width \<le> length buf"
  by (rule ccontr) (simp add: dec_short not_le)

lemma length_concat_enc: "\<forall>a \<in> set xs. wf a \<Longrightarrow> length (concat (map enc xs)) = length xs * width"
  by (induction xs) (auto simp: length_enc)

lemma array_length: "parse_array dec width n buf off = Inr xs \<Longrightarrow> length xs = n"
  by (induction n arbitrary: off xs) (auto simp: bindE_eq_Inr_iff)

text \<open>The loop stays inside the buffer exactly when all its elements do.\<close>

lemma array_defined:
  "off + n * width \<le> length buf \<Longrightarrow> \<exists>xs. parse_array dec width n buf off = Inr xs"
proof (induction n arbitrary: off)
  case (Suc n)
  then obtain a where "dec buf off = Inr a" using dec_defined [of off buf] by auto
  with Suc.IH [of "off + width"] Suc.prems show ?case by (auto simp: algebra_simps)
qed simp

lemma array_fault:
  "length buf < off + n * width \<Longrightarrow> 0 < n \<Longrightarrow> parse_array dec width n buf off = Inl OutOfBoundsRead"
proof (induction n arbitrary: off)
  case (Suc n)
  show ?case
  proof (cases "off + width \<le> length buf")
    case True
    with Suc.prems have "0 < n" by (cases n) auto
    moreover obtain a where "dec buf off = Inr a" using dec_defined True by blast
    ultimately show ?thesis using Suc.IH [of "off + width"] Suc.prems by (auto simp: algebra_simps)
  next
    case False
    then show ?thesis using dec_short by simp
  qed
qed simp

lemma array_fault_iff:
  "parse_array dec width n buf off = Inl e
     \<longleftrightarrow> 0 < n \<and> length buf < off + n * width \<and> e = OutOfBoundsRead"
  using array_defined [of off n buf] array_fault [of buf off n]
  by (cases "off + n * width \<le> length buf"; cases n) (auto simp del: parse_array.simps(2))

lemma array_round_trip:
  "\<forall>a \<in> set xs. wf a \<Longrightarrow> length pre = off \<Longrightarrow>
     parse_array dec width (length xs) (pre @ concat (map enc xs) @ post) off = Inr xs"
proof (induction xs arbitrary: pre off)
  case (Cons a as)
  have "parse_array dec width (length as) ((pre @ enc a) @ concat (map enc as) @ post) (off + width) = Inr as"
    using Cons.prems by (intro Cons.IH) (auto simp: length_enc)
  with Cons.prems show ?case by (simp add: dec_enc)
qed simp

text \<open>A loop that runs fewer times than there are elements reads the first ones.\<close>

lemma array_prefix:
  assumes "\<forall>a \<in> set xs. wf a" "length pre = off" "n \<le> length xs"
  shows "parse_array dec width n (pre @ concat (map enc xs) @ post) off = Inr (take n xs)"
proof -
  have "concat (map enc xs) = concat (map enc (take n xs)) @ concat (map enc (drop n xs))"
    by (metis append_take_drop_id concat_append map_append)
  moreover have "\<forall>a \<in> set (take n xs). wf a" using assms(1) by (meson in_set_takeD)
  ultimately show ?thesis
    using array_round_trip [of "take n xs" pre off "concat (map enc (drop n xs)) @ post"] assms
    by simp
qed

end

section \<open>Integers\<close>

text \<open>\<open>ntohl(*(const uint32_t*)data)\<close>, \<open>ntohs\<close> likewise, and a load without a swap.\<close>

definition dec_be32 :: "bytes \<Rightarrow> nat \<Rightarrow> fault + u32" where
  "dec_be32 buf off = bindE (read_at buf off 4) (\<lambda>bs. Inr (ntohl (load_le bs)))"

definition dec_be16 :: "bytes \<Rightarrow> nat \<Rightarrow> fault + u16" where
  "dec_be16 buf off = bindE (read_at buf off 2) (\<lambda>bs. Inr (ntohs (load_le bs)))"

definition dec_host32 :: "bytes \<Rightarrow> nat \<Rightarrow> fault + u32" where
  "dec_host32 buf off = bindE (read_at buf off 4) (\<lambda>bs. Inr (load_le bs))"

interpretation be32_codec: fixed_codec be32 dec_be32 4 "\<lambda>_. True"
  by unfold_locales (auto simp: dec_be32_def read_at_def ntohl_load_be32)

interpretation be16_codec: fixed_codec be16 dec_be16 2 "\<lambda>_. True"
  by unfold_locales (auto simp: dec_be16_def read_at_def ntohs_load_be16)

interpretation host32_codec: fixed_codec "store_le 4" dec_host32 4 "\<lambda>_. True"
  by unfold_locales (auto simp: dec_host32_def read_at_def load_store_le)

lemma dec_be32_eq_Inr_iff:
  "dec_be32 buf off = Inr w \<longleftrightarrow> off + 4 \<le> length buf \<and> w = ntohl (load_le (take 4 (drop off buf)))"
  by (auto simp: dec_be32_def read_at_def)

lemma dec_be16_eq_Inr_iff:
  "dec_be16 buf off = Inr w \<longleftrightarrow> off + 2 \<le> length buf \<and> w = ntohs (load_le (take 2 (drop off buf)))"
  by (auto simp: dec_be16_def read_at_def)

end
