(* ===== verification/Messages.thy ===== *)
theory Messages
  imports Codec
begin

text \<open>
  The VConsole wire messages: the structs of \<open>libvconsole/src/messages.h\<close> and
  \<open>vconsole.h\<close>, their sizes as the compiler lays them out, the six parse functions and
  \<open>createCommandPayload\<close> of \<open>libvconsole/src/vconsole.cpp\<close>.

  \<open>int32_t\<close>, \<open>uint32_t\<close> and \<open>float\<close> fields are their 32 bits (the code moves floats as
  bytes only). The \<open>encode_\<dots>\<close> functions at the end of each group are the peer's side,
  the wire format that the parser's field offsets describe.
\<close>

section \<open>The structs\<close>

record VConChunk =
  chunk_type :: bytes
  chunk_version :: u32
  chunk_length :: u16
  chunk_handle :: u16

record Channel =
  channel_id :: u32
  channel_unknown1 :: u32
  channel_unknown2 :: u32
  verbosity_default :: u32
  verbosity_current :: u32
  text_RGBA_override :: u32
  channel_name :: bytes

record Cvar =
  cvar_name :: bytes
  cvar_unknown :: u32
  cvar_flags :: u32
  cvar_rangemin :: u32
  cvar_rangemax :: u32
  cvar_padding :: char

record AINF =
  ainf_unknowns :: "u32 list"
  ainf_padding :: char

record ADON =
  adon_unknown :: u16
  adon_nameLength :: u16
  adon_name :: string

record CHAN =
  numChannels :: u16
  channels :: "Channel list"

record PRNT =
  prnt_channelID :: u32
  prnt_unknown :: bytes
  prnt_color :: u32
  prnt_message :: string

record CFGV =
  cfgv_variable :: bytes
  cfgv_value :: bytes

definition sizeof_VConChunk :: nat where
  "sizeof_VConChunk = struct_size [(4, 1), (4, 4), (2, 2), (2, 2)]"

definition sizeof_Channel :: nat where
  "sizeof_Channel = struct_size (replicate 6 (4, 4) @ [(34, 1)])"

definition sizeof_Cvar :: nat where
  "sizeof_Cvar = struct_size [(64, 1), (4, 4), (4, 4), (4, 4), (4, 4), (1, 1)]"

definition sizeof_CFGV :: nat where
  "sizeof_CFGV = struct_size [(64, 1), (65, 1)]"

lemma sizeof_simps [simp]:
  "sizeof_VConChunk = 12"
  "sizeof_Channel = 60"
  "sizeof_Cvar = 84"
  "sizeof_CFGV = 129"
  by code_simp+

section \<open>stripNonAscii\<close>

definition stripNonAscii :: "string \<Rightarrow> string" where
  "stripNonAscii input = filter (\<lambda>c. (of_char c :: nat) \<le> 127) input"

lemma stripNonAscii_idem [simp]: "stripNonAscii (stripNonAscii s) = stripNonAscii s"
  by (simp add: stripNonAscii_def)

lemma stripNonAscii_id: "\<forall>c \<in> set s. (of_char c :: nat) \<le> 127 \<Longrightarrow> stripNonAscii s = s"
  by (simp add: stripNonAscii_def)

lemma set_stripNonAscii: "set (stripNonAscii s) = {c \<in> set s. (of_char c :: nat) \<le> 127}"
  by (auto simp: stripNonAscii_def)

section \<open>CMND: the command frame the client sends\<close>

definition createCommandPayload :: "string \<Rightarrow> bytes" where
  "createCommandPayload command =
     (let payload = ''CMND'' @ [CHR 0x00, CHR 0xD4, CHR 0x00, CHR 0x00,
                                CHR 0x00, CHR 0x18, CHR 0x00, CHR 0x00];
          maxCommandLength = 65535 - length payload - 1;
          truncatedCommand = take maxCommandLength command;
          payload = payload @ truncatedCommand;
          payload = payload @ [CHR 0x00];
          totalLength = (of_nat (length payload) :: u16);
          payload = payload[8 := byte_of 0 (drop_bit 8 totalLength AND 0xFF)];
          payload = payload[9 := byte_of 0 (totalLength AND 0xFF)]
      in payload)"

section \<open>The parse functions\<close>

text \<open>
  Each takes the whole chunk, header included, and reads behind the header. A read past
  the end of the vector is the fault that undefined behaviour stands for.
\<close>

definition parseAINF :: "bytes \<Rightarrow> fault + AINF" where
  "parseAINF chunkBuf =
     bindE (parse_array dec_host32 4 19 chunkBuf sizeof_VConChunk) (\<lambda>unknowns.
     bindE (read_at chunkBuf (sizeof_VConChunk + 19 * 4) 1) (\<lambda>padding.
     Inr \<lparr>ainf_unknowns = unknowns, ainf_padding = hd padding\<rparr>))"

definition parseADON :: "bytes \<Rightarrow> fault + ADON" where
  "parseADON chunkBuf =
     (let data = sizeof_VConChunk in
      bindE (dec_be16 chunkBuf data) (\<lambda>unknown.
      bindE (dec_be16 chunkBuf (data + 2)) (\<lambda>nameLength.
      bindE (read_at chunkBuf (data + 4) (unat nameLength)) (\<lambda>name.
      Inr \<lparr>adon_unknown = unknown, adon_nameLength = nameLength, adon_name = name\<rparr>))))"

definition parse_channel :: "bytes \<Rightarrow> nat \<Rightarrow> fault + Channel" where
  "parse_channel buf data =
     bindE (dec_be32 buf data) (\<lambda>id.
     bindE (dec_be32 buf (data + 4)) (\<lambda>unknown1.
     bindE (dec_be32 buf (data + 8)) (\<lambda>unknown2.
     bindE (dec_be32 buf (data + 12)) (\<lambda>vdefault.
     bindE (dec_be32 buf (data + 16)) (\<lambda>vcurrent.
     bindE (dec_be32 buf (data + 20)) (\<lambda>rgba.
     bindE (read_at buf (data + 24) 34) (\<lambda>name.
     Inr \<lparr>channel_id = id, channel_unknown1 = unknown1, channel_unknown2 = unknown2,
          verbosity_default = vdefault, verbosity_current = vcurrent,
          text_RGBA_override = rgba, channel_name = name[33 := CHR 0x00]\<rparr>)))))))"

text \<open>
  \<open>remainingSize\<close> is a \<open>size_t\<close>, so the subtraction wraps; the quotient is stored in a
  \<open>uint16_t\<close>. The divisor is \<open>sizeof(Channel)\<close>, the stride of the loop is the 58 bytes
  of the fields.
\<close>

definition chan_count :: "nat \<Rightarrow> u16" where
  "chan_count bufSize =
     (let remainingSize = (of_nat bufSize :: u64) - of_nat sizeof_VConChunk - 2
      in of_nat (unat (remainingSize div of_nat sizeof_Channel)))"

definition parseCHAN :: "bytes \<Rightarrow> fault + CHAN" where
  "parseCHAN chunkBuf =
     (let n = chan_count (length chunkBuf);
          data = sizeof_VConChunk + 2
      in bindE (parse_array parse_channel 58 (unat n) chunkBuf data) (\<lambda>cs.
         Inr \<lparr>numChannels = n, channels = cs\<rparr>))"

definition parsePRNT :: "bytes \<Rightarrow> fault + PRNT" where
  "parsePRNT chunkBuf =
     (let data = sizeof_VConChunk in
      bindE (dec_be32 chunkBuf data) (\<lambda>channelID.
      bindE (read_at chunkBuf (data + 4) 20) (\<lambda>unknown.
      bindE (dec_host32 chunkBuf (data + 12)) (\<lambda>color.
      bindE (read_c_str chunkBuf (data + 28)) (\<lambda>message.
      Inr \<lparr>prnt_channelID = channelID, prnt_unknown = unknown, prnt_color = color,
           prnt_message = stripNonAscii message\<rparr>)))))"

definition load_Cvar :: "bytes \<Rightarrow> Cvar" where
  "load_Cvar bs =
     \<lparr>cvar_name = take 64 bs,
      cvar_unknown = load_le (take 4 (drop 64 bs)),
      cvar_flags = load_le (take 4 (drop 68 bs)),
      cvar_rangemin = load_le (take 4 (drop 72 bs)),
      cvar_rangemax = load_le (take 4 (drop 76 bs)),
      cvar_padding = bs ! 80\<rparr>"

definition parseCVAR :: "bytes \<Rightarrow> fault + Cvar" where
  "parseCVAR chunkBuf =
     bindE (read_at chunkBuf sizeof_VConChunk sizeof_Cvar) (\<lambda>bs.
       let cvar = load_Cvar bs;
           cvar = cvar\<lparr>cvar_unknown := ntohl (cvar_unknown cvar)\<rparr>;
           cvar = cvar\<lparr>cvar_flags := ntohl (cvar_flags cvar)\<rparr>;
           cvar = cvar\<lparr>cvar_rangemin := ntohl (cvar_rangemin cvar)\<rparr>;
           cvar = cvar\<lparr>cvar_rangemax := ntohl (cvar_rangemax cvar)\<rparr>
       in Inr cvar)"

definition parseCFGV :: "bytes \<Rightarrow> fault + CFGV" where
  "parseCFGV chunkBuf =
     bindE (read_at chunkBuf sizeof_VConChunk sizeof_CFGV) (\<lambda>bs.
       Inr \<lparr>cfgv_variable = take 64 bs, cfgv_value = take 65 (drop 64 bs)\<rparr>)"

section \<open>Where the parsers read outside the chunk\<close>

text \<open>
  For every message type, the exact condition on the chunk under which its parser stays
  inside the vector. Nothing in the code checks it.
\<close>

lemma read_at_fault_iff: "(\<exists>e. read_at buf off n = Inl e) \<longleftrightarrow> length buf < off + n"
  by (auto simp: read_at_def)

lemma Inl_iff_not_Inr: "(\<exists>e. r = Inl e) \<longleftrightarrow> (\<forall>a. r \<noteq> Inr a)"
  by (cases r) auto

lemma parseAINF_ok_iff: "(\<exists>m. parseAINF buf = Inr m) \<longleftrightarrow> 89 \<le> length buf"
  using host32_codec.array_defined [of 12 19 buf] host32_codec.array_fault [of buf 12 19]
  by (cases "length buf < 88")
    (auto simp: parseAINF_def bindE_eq_Inr_iff read_at_eq_Inr_iff)

lemma parseADON_ok_iff:
  "(\<exists>m. parseADON buf = Inr m)
     \<longleftrightarrow> 16 \<le> length buf \<and> 16 + unat (ntohs (load_le (take 2 (drop 14 buf)))) \<le> length buf"
  by (auto simp: parseADON_def bindE_eq_Inr_iff read_at_eq_Inr_iff dec_be16_eq_Inr_iff)

lemma dec_host32_eq_Inr_iff:
  "dec_host32 buf off = Inr w \<longleftrightarrow> off + 4 \<le> length buf \<and> w = load_le (take 4 (drop off buf))"
  by (auto simp: dec_host32_def read_at_def)

lemma read_c_str_eq_Inr_iff:
  "read_c_str buf off = Inr s \<longleftrightarrow> CHR 0x00 \<in> set (drop off buf) \<and> s = c_str (drop off buf)"
  by (auto simp: read_c_str_def)

lemma parsePRNT_ok_iff: "(\<exists>m. parsePRNT buf = Inr m) \<longleftrightarrow> CHR 0x00 \<in> set (drop 40 buf)"
proof -
  have "CHR 0x00 \<in> set (drop 40 buf) \<Longrightarrow> 40 < length buf"
    by (metis drop_all empty_iff list.set(1) not_less)
  then show ?thesis
    by (auto simp: parsePRNT_def bindE_eq_Inr_iff read_at_eq_Inr_iff dec_be32_eq_Inr_iff
        dec_host32_eq_Inr_iff read_c_str_eq_Inr_iff)
qed

lemma parseCVAR_ok_iff: "(\<exists>m. parseCVAR buf = Inr m) \<longleftrightarrow> 96 \<le> length buf"
  by (auto simp: parseCVAR_def bindE_eq_Inr_iff read_at_eq_Inr_iff Let_def)

lemma parseCFGV_ok_iff: "(\<exists>m. parseCFGV buf = Inr m) \<longleftrightarrow> 141 \<le> length buf"
  by (auto simp: parseCFGV_def bindE_eq_Inr_iff read_at_eq_Inr_iff)

section \<open>The channel table\<close>

text \<open>The wire form of one channel: six big-endian integers and 34 bytes of name.\<close>

definition encode_channel :: "Channel \<Rightarrow> bytes" where
  "encode_channel c =
     be32 (channel_id c) @ be32 (channel_unknown1 c) @ be32 (channel_unknown2 c) @
     be32 (verbosity_default c) @ be32 (verbosity_current c) @ be32 (text_RGBA_override c) @
     channel_name c"

definition wf_channel :: "Channel \<Rightarrow> bool" where
  "wf_channel c \<longleftrightarrow> length (channel_name c) = 34 \<and> channel_name c ! 33 = CHR 0x00"

lemma parse_channel_encode:
  assumes "wf_channel c" "length pre = off"
  shows "parse_channel (pre @ encode_channel c @ post) off = Inr c"
proof -
  have dec: "dec_be32 (pre @ x @ be32 w @ y) k = Inr w" if "length pre + length x = k" for x w y k
    using be32_codec.dec_enc [of "pre @ x" k w y] that by simp
  have name: "(channel_name c)[33 := CHR 0x00] = channel_name c"
    using assms by (metis wf_channel_def list_update_id)
  let ?i = "be32 (channel_id c)" let ?a = "be32 (channel_unknown1 c)"
  let ?b = "be32 (channel_unknown2 c)" let ?d = "be32 (verbosity_default c)"
  let ?e = "be32 (verbosity_current c)" let ?f = "be32 (text_RGBA_override c)"
  note fields = dec [of "[]"] dec [of ?i] dec [of "?i @ ?a"] dec [of "?i @ ?a @ ?b"]
    dec [of "?i @ ?a @ ?b @ ?d"] dec [of "?i @ ?a @ ?b @ ?d @ ?e"]
  have nm: "read_at (pre @ encode_channel c @ post) (off + 24) 34 = Inr (channel_name c)"
    using read_at_append [of "pre @ ?i @ ?a @ ?b @ ?d @ ?e @ ?f" "off + 24" "channel_name c" 34 post]
      assms by (simp add: encode_channel_def wf_channel_def)
  then show ?thesis
    using fields assms(2) unfolding parse_channel_def
    by (simp add: encode_channel_def name)
qed

lemma parse_channel_defined: "off + 58 \<le> length buf \<Longrightarrow> \<exists>c. parse_channel buf off = Inr c"
  by (auto simp: parse_channel_def bindE_eq_Inr_iff read_at_eq_Inr_iff dec_be32_eq_Inr_iff)

lemma parse_channel_short:
  "length buf < off + 58 \<Longrightarrow> parse_channel buf off = Inl OutOfBoundsRead"
  by (auto simp: parse_channel_def dec_be32_def read_at_def)

interpretation channel_codec: fixed_codec encode_channel parse_channel 58 wf_channel
proof
  show "wf_channel c \<Longrightarrow> length (encode_channel c) = 58" for c
    by (simp add: encode_channel_def wf_channel_def)
qed (simp_all add: parse_channel_encode parse_channel_defined parse_channel_short)

lemma chan_count_eq:
  "14 \<le> n \<Longrightarrow> n < 65536 \<Longrightarrow> unat (chan_count n) = (n - 14) div 60"
proof -
  assume "14 \<le> n" "n < 65536"
  then have n: "n = (n - 14) + 14" and m: "n - 14 < 65522" by simp_all
  have "unat (chan_count (m + 14)) = m div 60" if "m < 65522" for m
    using that by (simp add: chan_count_def Let_def unat_div unat_of_nat)
  from this [OF m] n show ?thesis by simp
qed

lemma parseCHAN_safe_iff:
  assumes "12 \<le> length buf" "length buf < 65536"
  shows "(\<exists>m. parseCHAN buf = Inr m) \<longleftrightarrow> 14 \<le> length buf"
proof (cases "14 \<le> length buf")
  case True
  then have "14 + unat (chan_count (length buf)) * 58 \<le> length buf"
    using assms by (simp add: chan_count_eq)
  then have "\<exists>cs. parse_array parse_channel 58 (unat (chan_count (length buf))) buf 14 = Inr cs"
    by (rule channel_codec.array_defined)
  with True show ?thesis by (auto simp: parseCHAN_def Let_def)
next
  case False
  with assms have "length buf = 12 \<or> length buf = 13" by auto
  then have "0 < unat (chan_count (length buf))"
    by (auto simp: chan_count_def Let_def)
  with False have "parse_array parse_channel 58 (unat (chan_count (length buf))) buf 14 = Inl OutOfBoundsRead"
    by (intro channel_codec.array_fault) auto
  with False show ?thesis by (simp add: parseCHAN_def Let_def)
qed

lemma div_60_less: "0 < n \<Longrightarrow> 58 * n div 60 < (n::nat)"
  by simp

text \<open>
  C17: A CHAN message that carries a table of \<open>n\<close> well-formed channels is parsed without a
  fault, every channel that is delivered is delivered exactly and in order, but only the
  first \<open>58 n div 60\<close> of them are: the element count divides by \<open>sizeof(Channel)\<close>, which
  the compiler pads to 60, while an element takes 58 bytes on the wire. A non-empty table
  therefore always loses at least its last channel, and a table of one channel is empty.
\<close>

theorem parseCHAN_drops_channels:
  assumes "\<forall>c \<in> set cs. wf_channel c" and "length hdr = 12" and "length cnt = 2"
    and "length cs \<le> 1129"
  shows "parseCHAN (hdr @ cnt @ concat (map encode_channel cs))
           = Inr \<lparr>numChannels = of_nat (58 * length cs div 60),
                  channels = take (58 * length cs div 60) cs\<rparr>
         \<and> (cs \<noteq> [] \<longrightarrow> 58 * length cs div 60 < length cs)"
proof -
  let ?k = "58 * length cs div 60" let ?body = "concat (map encode_channel cs)"
  have "length ?body = length cs * 58"
    using assms(1) by (rule channel_codec.length_concat_enc)
  then have len: "length (hdr @ cnt @ ?body) = 14 + 58 * length cs" using assms by simp
  then have "unat (chan_count (length (hdr @ cnt @ ?body))) = ?k"
    using assms(4) by (simp add: chan_count_eq)
  moreover from this have "chan_count (length (hdr @ cnt @ ?body)) = of_nat ?k"
    by (metis of_nat_unat ucast_id)
  moreover have "parse_array parse_channel 58 ?k ((hdr @ cnt) @ ?body @ []) 14 = Inr (take ?k cs)"
    using assms by (intro channel_codec.array_prefix) auto
  moreover have "cs \<noteq> [] \<longrightarrow> ?k < length cs"
    using div_60_less [of "length cs"] by simp
  ultimately show ?thesis by (simp add: parseCHAN_def Let_def)
qed

definition sample_channel :: Channel where
  "sample_channel =
     \<lparr>channel_id = 1, channel_unknown1 = 0, channel_unknown2 = 0, verbosity_default = 0,
      verbosity_current = 0, text_RGBA_override = 0xFFFFFFFF,
      channel_name = pad_to 34 ''Console''\<rparr>"

theorem parseCHAN_drops_channels_witness:
  "parseCHAN (replicate 12 (CHR 0x00) @ [CHR 0x00, CHR 0x01] @ concat (map encode_channel [sample_channel]))
     = Inr \<lparr>numChannels = 0, channels = []\<rparr>"
proof -
  have "wf_channel sample_channel"
    by (simp add: wf_channel_def sample_channel_def pad_to_def numeral_eq_Suc)
  then show ?thesis
    using parseCHAN_drops_channels [of "[sample_channel]" "replicate 12 (CHR 0x00)" "[CHR 0x00, CHR 0x01]"]
    by simp
qed

section \<open>Frames of the other messages\<close>

text \<open>\<open>createCommandPayload\<close> in closed form: header in network order, command, NUL.\<close>

definition cmd_length :: "string \<Rightarrow> nat" where
  "cmd_length command = 13 + min (length command) 65522"

lemma byte_of_mask: "byte_of 0 (w AND 0xFF) = byte_of 0 (w :: 'a::len word)"
proof -
  have "w AND 0xFF = take_bit 8 w" by (simp add: take_bit_eq_mask mask_eq_exp_minus_1)
  then show ?thesis
    by (simp add: byte_of_def unsigned_take_bit_eq char_of_take_bit_eq)
qed

lemma byte_of_drop: "byte_of 0 (drop_bit 8 w) = byte_of 1 (w :: 'a::len word)"
  by (simp add: byte_of_def)

lemma be16_eq: "be16 w = [byte_of 1 w, byte_of 0 w]"
  by (simp add: be16_def store_le_def upt_rec numeral_2_eq_2)

lemma createCommandPayload_eq:
  "createCommandPayload command =
     ''CMND'' @ be32 0x00D40000 @ be16 (of_nat (cmd_length command)) @ be16 0 @
     take 65522 command @ [CHR 0x00]"
proof -
  have ver: "be32 0x00D40000 = [CHR 0x00, CHR 0xD4, CHR 0x00, CHR 0x00]"
    by code_simp
  have hdl: "be16 0 = [CHR 0x00, CHR 0x00]" by code_simp
  have "of_nat (length (''CMND'' @ [CHR 0x00, CHR 0xD4, CHR 0x00, CHR 0x00, CHR 0x00, CHR 0x18,
          CHR 0x00, CHR 0x00] @ take 65522 command @ [CHR 0x00])) = (of_nat (cmd_length command) :: u16)"
    by (simp add: cmd_length_def min_def)
  then show ?thesis
    unfolding createCommandPayload_def Let_def ver hdl unfolding be16_eq
    by (simp add: byte_of_mask byte_of_drop)
qed

lemma length_createCommandPayload [width_simps]:
  "length (createCommandPayload command) = cmd_length command"
  by (simp add: createCommandPayload_eq cmd_length_def)

lemma cmd_length_bounds: "13 \<le> cmd_length command" "cmd_length command \<le> 65535"
  by (simp_all add: cmd_length_def)

text \<open>
  The wire form of PRNT: channel, eight bytes, the colour, twelve bytes, the text and a
  NUL. ADON: two integers and the name. CVAR and CFGV are images of their structs.
\<close>

definition encode_prnt :: "u32 \<Rightarrow> bytes \<Rightarrow> u32 \<Rightarrow> bytes \<Rightarrow> string \<Rightarrow> bytes" where
  "encode_prnt channelID u1 color u2 text = be32 channelID @ u1 @ store_le 4 color @ u2 @ text @ [CHR 0x00]"

lemma parsePRNT_encode:
  assumes "length hdr = 12" "length u1 = 8" "length u2 = 12" "CHR 0x00 \<notin> set text"
  shows "parsePRNT (hdr @ encode_prnt cid u1 color u2 text @ post)
           = Inr \<lparr>prnt_channelID = cid, prnt_unknown = u1 @ store_le 4 color @ take 8 u2,
                  prnt_color = color, prnt_message = stripNonAscii text\<rparr>"
proof -
  let ?buf = "hdr @ encode_prnt cid u1 color u2 text @ post"
  have 1: "dec_be32 ?buf 12 = Inr cid"
    using be32_codec.dec_enc [of hdr 12 cid] assms(1) by (simp add: encode_prnt_def)
  have 2: "read_at ?buf 16 20 = Inr (u1 @ store_le 4 color @ take 8 u2)"
    using assms by (simp add: read_at_def encode_prnt_def)
  have 3: "dec_host32 ?buf 24 = Inr color"
    using host32_codec.dec_enc [of "hdr @ be32 cid @ u1" 24 color] assms by (simp add: encode_prnt_def)
  have "drop 40 ?buf = text @ CHR 0x00 # post"
    using assms by (simp add: encode_prnt_def)
  then have 4: "read_c_str ?buf 40 = Inr text"
    using assms(4) by (simp add: read_c_str_def c_str_append_NUL)
  show ?thesis using 1 2 3 4 by (simp add: parsePRNT_def)
qed

definition encode_adon :: "u16 \<Rightarrow> string \<Rightarrow> bytes" where
  "encode_adon u name = be16 u @ be16 (of_nat (length name)) @ name"

lemma parseADON_encode:
  assumes "length hdr = 12" "length name < 65536"
  shows "parseADON (hdr @ encode_adon u name @ post)
           = Inr \<lparr>adon_unknown = u, adon_nameLength = of_nat (length name), adon_name = name\<rparr>"
proof -
  let ?buf = "hdr @ encode_adon u name @ post" and ?n = "of_nat (length name) :: u16"
  have 1: "dec_be16 ?buf 12 = Inr u"
    using be16_codec.dec_enc [of hdr 12 u] assms(1) by (simp add: encode_adon_def)
  have 2: "dec_be16 ?buf 14 = Inr ?n"
    using be16_codec.dec_enc [of "hdr @ be16 u" 14 ?n] assms(1) by (simp add: encode_adon_def)
  have "unat ?n = length name" using assms(2) by (simp add: unat_of_nat)
  then have 3: "read_at ?buf 16 (unat ?n) = Inr name"
    using assms by (simp add: read_at_def encode_adon_def)
  show ?thesis using 1 2 3 by (simp add: parseADON_def)
qed

definition encode_cvar :: "Cvar \<Rightarrow> bytes" where
  "encode_cvar v =
     cvar_name v @ be32 (cvar_unknown v) @ be32 (cvar_flags v) @ be32 (cvar_rangemin v) @
     be32 (cvar_rangemax v) @ [cvar_padding v]"

lemma parseCVAR_encode:
  assumes "length hdr = 12" "length (cvar_name v) = 64" "3 \<le> length post"
  shows "parseCVAR (hdr @ encode_cvar v @ post) = Inr v"
proof -
  let ?bs = "encode_cvar v @ take 3 post"
  have "read_at (hdr @ encode_cvar v @ post) 12 84 = Inr ?bs"
    using assms by (simp add: read_at_def encode_cvar_def)
  moreover have "load_Cvar ?bs = v\<lparr>cvar_unknown := byteSwap32 (cvar_unknown v),
      cvar_flags := byteSwap32 (cvar_flags v), cvar_rangemin := byteSwap32 (cvar_rangemin v),
      cvar_rangemax := byteSwap32 (cvar_rangemax v)\<rparr>"
    using assms by (simp add: load_Cvar_def encode_cvar_def nth_append load_be32)
  ultimately show ?thesis by (simp add: parseCVAR_def Let_def)
qed

text \<open>
  \<open>parseCVAR\<close> copies \<open>sizeof(Cvar)\<close> = 84 bytes although the fields of a CVAR take 81:
  a chunk that ends with its last field is read three bytes past the vector, a chunk with
  at least three more bytes is decoded exactly, all five integers in host order.
\<close>

theorem parseCVAR_exact_body_overreads:
  assumes "length hdr = 12" and "length (cvar_name v) = 64"
  shows "parseCVAR (hdr @ encode_cvar v) = Inl OutOfBoundsRead
         \<and> parseCVAR (hdr @ encode_cvar v @ [a, b, c]) = Inr v"
  using assms parseCVAR_encode [of hdr v "[a, b, c]"]
  by (simp add: parseCVAR_def read_at_def encode_cvar_def)

definition sample_cvar :: Cvar where
  "sample_cvar =
     \<lparr>cvar_name = pad_to 64 ''sv_cheats'', cvar_unknown = 7, cvar_flags = 0x2000,
      cvar_rangemin = 0, cvar_rangemax = 0x3F800000, cvar_padding = CHR 0x00\<rparr>"

theorem parseCVAR_exact_body_overreads_witness:
  "parseCVAR (replicate 12 (CHR 0x00) @ encode_cvar sample_cvar) = Inl OutOfBoundsRead
   \<and> parseCVAR (replicate 12 (CHR 0x00) @ encode_cvar sample_cvar @ ''xyz'') = Inr sample_cvar"
  by (rule parseCVAR_exact_body_overreads) (simp_all add: sample_cvar_def)

end
