(* ===== verification/Os_Api.thy ===== *)
theory Os_Api
  imports Byte_Order
begin

text \<open>
  The POSIX socket calls the program makes. The kernel is not code of the repository: it
  is a parameter, a record of functions over an arbitrary world \<open>'w\<close> that every modelled
  operation takes as its first argument. What the code relies on is stated as predicates
  on such a record (\<open>recv_within\<close>, \<open>queued_socket\<close>), which theorems take as hypotheses.

  \<open>sim_os\<close> is one concrete instance, a simulated kernel whose receive queues are lists of
  segments; the witnesses run the model on it.
\<close>

section \<open>The calls\<close>

record 'w os =
  os_errno :: "'w \<Rightarrow> int"
  os_socket :: "'w \<Rightarrow> int \<times> 'w"
  os_inet_pton :: "string \<Rightarrow> u32 option"
  os_inet_ntop :: "u32 \<Rightarrow> string"
  os_connect :: "int \<Rightarrow> u32 \<Rightarrow> u16 \<Rightarrow> 'w \<Rightarrow> int \<times> 'w"
  os_setsockopt :: "int \<Rightarrow> 'w \<Rightarrow> int \<times> 'w"
  os_bind :: "int \<Rightarrow> u16 \<Rightarrow> 'w \<Rightarrow> int \<times> 'w"
  os_listen :: "int \<Rightarrow> 'w \<Rightarrow> int \<times> 'w"
  os_accept :: "int \<Rightarrow> 'w \<Rightarrow> (int \<times> u32 \<times> u16) \<times> 'w"
  os_send :: "int \<Rightarrow> bytes \<Rightarrow> 'w \<Rightarrow> int \<times> 'w"
  os_recv :: "int \<Rightarrow> u64 \<Rightarrow> bool \<Rightarrow> 'w \<Rightarrow> bytes option \<times> 'w"
  os_fcntl_getfl :: "int \<Rightarrow> 'w \<Rightarrow> int \<times> 'w"
  os_fcntl_setfl :: "int \<Rightarrow> int \<Rightarrow> 'w \<Rightarrow> int \<times> 'w"
  os_shutdown :: "int \<Rightarrow> 'w \<Rightarrow> 'w"
  os_close :: "int \<Rightarrow> 'w \<Rightarrow> 'w"

text \<open>
  \<open>os_recv\<close> takes the descriptor, the length and whether \<open>MSG_PEEK\<close> is set; \<open>None\<close> is
  the result -1, \<open>Some bs\<close> the result \<open>length bs\<close> with \<open>bs\<close> in the caller's buffer.
\<close>

definition INVALID_SOCKET :: int where "INVALID_SOCKET = -1"
definition SOCKET_ERROR :: int where "SOCKET_ERROR = -1"
definition EWOULDBLOCK :: int where "EWOULDBLOCK = 11"
definition EAGAIN :: int where "EAGAIN = 11"
definition O_NONBLOCK :: int where "O_NONBLOCK = 2048"

definition recv_count :: "bytes option \<Rightarrow> int" where
  "recv_count r = (case r of None \<Rightarrow> SOCKET_ERROR | Some bs \<Rightarrow> int (length bs))"

definition recv_bytes :: "bytes option \<Rightarrow> bytes" where
  "recv_bytes r = (case r of None \<Rightarrow> [] | Some bs \<Rightarrow> bs)"

lemma recv_simps [simp]:
  "recv_count None = -1" "recv_count (Some bs) = int (length bs)"
  "recv_bytes None = []" "recv_bytes (Some bs) = bs"
  by (simp_all add: recv_count_def recv_bytes_def SOCKET_ERROR_def)

text \<open>\<open>inet_pton\<close> leaves the zero-initialised address alone when it fails.\<close>

definition sin_addr :: "'w os \<Rightarrow> string \<Rightarrow> u32" where
  "sin_addr os ip = (case os_inet_pton os ip of None \<Rightarrow> 0 | Some a \<Rightarrow> a)"

text \<open>\<open>setSocketNonBlocking\<close> of \<open>common/platform.h\<close>, POSIX branch.\<close>

definition setSocketNonBlocking :: "'w os \<Rightarrow> int \<Rightarrow> 'w \<Rightarrow> 'w" where
  "setSocketNonBlocking os sock w =
     (case os_fcntl_getfl os sock w of (flags, w1) \<Rightarrow>
        snd (os_fcntl_setfl os sock (flags OR O_NONBLOCK) w1))"

text \<open>\<open>platformSocketInit\<close> and \<open>platformSocketCleanup\<close> have nothing to do on POSIX.\<close>

definition platformSocketInit :: bool where "platformSocketInit = True"

definition platformSocketCleanup :: "'w \<Rightarrow> 'w" where "platformSocketCleanup w = w"

section \<open>What the kernel promises\<close>

text \<open>\<open>recv\<close> never writes more than it was asked for.\<close>

definition recv_within :: "'w os \<Rightarrow> bool" where
  "recv_within os \<longleftrightarrow>
     (\<forall>fd n peek w bs. fst (os_recv os fd n peek w) = Some bs \<longrightarrow> length bs \<le> unat n)"

text \<open>
  \<open>q w\<close> is what the kernel has queued for \<open>sock\<close>: a \<open>recv\<close> of at most that much returns
  exactly as many bytes as it asks for, from the front, and removes them.
\<close>

definition queued_socket :: "'w os \<Rightarrow> int \<Rightarrow> ('w \<Rightarrow> bytes) \<Rightarrow> bool" where
  "queued_socket os sock q \<longleftrightarrow>
     (\<forall>w n. unat n \<le> length (q w) \<longrightarrow>
        fst (os_recv os sock n False w) = Some (take (unat n) (q w)) \<and>
        q (snd (os_recv os sock n False w)) = drop (unat n) (q w))"

lemma recv_withinD:
  "recv_within os \<Longrightarrow> os_recv os fd n peek w = (Some bs, w') \<Longrightarrow> length bs \<le> unat n"
  by (simp add: recv_within_def) (metis fst_conv)

lemma queued_socketE:
  assumes "queued_socket os sock q" "unat n \<le> length (q w)"
  obtains w' where "os_recv os sock n False w = (Some (take (unat n) (q w)), w')"
    "q w' = drop (unat n) (q w)"
  using assms unfolding queued_socket_def by (metis prod.collapse)

section \<open>A simulated kernel\<close>

text \<open>
  Each descriptor has a queue of segments. A \<open>recv\<close> returns at most one segment, as TCP
  may deliver; with nothing queued it is the end of the stream after \<open>sim_eof\<close> and
  \<open>EWOULDBLOCK\<close> otherwise. A closed descriptor answers \<open>EBADF\<close>.
\<close>

record sim =
  sim_errno :: int
  sim_next :: int
  sim_open :: "int list"
  sim_in :: "int \<Rightarrow> bytes list"
  sim_eof :: "int list"
  sim_sent :: "(int \<times> bytes) list"
  sim_pending :: "(u32 \<times> u16 \<times> bytes list) list"
  sim_refuse :: bool
  sim_busy :: "u16 list"

definition sim_init :: sim where
  "sim_init = \<lparr>sim_errno = 0, sim_next = 3, sim_open = [], sim_in = (\<lambda>_. []), sim_eof = [],
     sim_sent = [], sim_pending = [], sim_refuse = False, sim_busy = []\<rparr>"

definition sim_recv :: "int \<Rightarrow> u64 \<Rightarrow> bool \<Rightarrow> sim \<Rightarrow> bytes option \<times> sim" where
  "sim_recv fd n peek w =
     (if fd \<notin> set (sim_open w) then (None, w\<lparr>sim_errno := 9\<rparr>)
      else case sim_in w fd of
        [] \<Rightarrow> if fd \<in> set (sim_eof w) then (Some [], w) else (None, w\<lparr>sim_errno := EWOULDBLOCK\<rparr>)
      | seg # segs \<Rightarrow>
          (Some (take (unat n) seg),
           if peek then w
           else if unat n < length seg then w\<lparr>sim_in := (sim_in w)(fd := drop (unat n) seg # segs)\<rparr>
           else w\<lparr>sim_in := (sim_in w)(fd := segs)\<rparr>))"

definition sim_os :: "sim os" where
  "sim_os =
     \<lparr>os_errno = sim_errno,
      os_socket = (\<lambda>w. (sim_next w, w\<lparr>sim_next := sim_next w + 1, sim_open := sim_next w # sim_open w\<rparr>)),
      os_inet_pton = (\<lambda>ip. if ip = ''127.0.0.1'' then Some 0x0100007F else None),
      os_inet_ntop = (\<lambda>a. ''127.0.0.1''),
      os_connect = (\<lambda>fd a p w. if sim_refuse w then (-1, w\<lparr>sim_errno := 111\<rparr>) else (0, w)),
      os_setsockopt = (\<lambda>fd w. (0, w)),
      os_bind = (\<lambda>fd p w. if p \<in> set (sim_busy w) then (-1, w\<lparr>sim_errno := 98\<rparr>) else (0, w)),
      os_listen = (\<lambda>fd w. (0, w)),
      os_accept = (\<lambda>fd w. case sim_pending w of
          [] \<Rightarrow> ((-1, 0, 0), w\<lparr>sim_errno := EAGAIN\<rparr>)
        | (a, p, segs) # ps \<Rightarrow>
            ((sim_next w, a, p),
             w\<lparr>sim_next := sim_next w + 1, sim_open := sim_next w # sim_open w,
               sim_in := (sim_in w)(sim_next w := segs), sim_pending := ps\<rparr>)),
      os_send = (\<lambda>fd bs w. if fd \<in> set (sim_open w) then (int (length bs), w\<lparr>sim_sent := sim_sent w @ [(fd, bs)]\<rparr>)
                           else (-1, w\<lparr>sim_errno := 9\<rparr>)),
      os_recv = sim_recv,
      os_fcntl_getfl = (\<lambda>fd w. (2, w)),
      os_fcntl_setfl = (\<lambda>fd fl w. (0, w)),
      os_shutdown = (\<lambda>fd w. w),
      os_close = (\<lambda>fd w. w\<lparr>sim_open := removeAll fd (sim_open w)\<rparr>)\<rparr>"

lemma recv_within_sim: "recv_within sim_os"
  by (auto simp: recv_within_def sim_os_def sim_recv_def split: list.splits if_splits)

text \<open>
  A kernel with one descriptor whose stream has arrived completely: the world is the
  queue. It meets \<open>queued_socket\<close> and \<open>recv_within\<close>.
\<close>

definition queue_os :: "bytes os" where
  "queue_os =
     \<lparr>os_errno = (\<lambda>_. EWOULDBLOCK), os_socket = (\<lambda>w. (3, w)), os_inet_pton = (\<lambda>_. Some 0x0100007F),
      os_inet_ntop = (\<lambda>_. ''127.0.0.1''), os_connect = (\<lambda>_ _ _ w. (0, w)),
      os_setsockopt = (\<lambda>_ w. (0, w)), os_bind = (\<lambda>_ _ w. (0, w)), os_listen = (\<lambda>_ w. (0, w)),
      os_accept = (\<lambda>_ w. ((-1, 0, 0), w)), os_send = (\<lambda>_ bs w. (int (length bs), w)),
      os_recv = (\<lambda>_ n peek w. (Some (take (unat n) w), if peek then w else drop (unat n) w)),
      os_fcntl_getfl = (\<lambda>_ w. (2, w)), os_fcntl_setfl = (\<lambda>_ _ w. (0, w)),
      os_shutdown = (\<lambda>_ w. w), os_close = (\<lambda>_ w. w)\<rparr>"

lemma queued_socket_queue_os: "queued_socket queue_os sock (\<lambda>w. w)"
  by (simp add: queued_socket_def queue_os_def)

lemma recv_within_queue_os: "recv_within queue_os"
  by (simp add: recv_within_def queue_os_def)

end
