(* ===== verification/VConsole.thy ===== *)
theory VConsole
  imports Messages Os_Api
begin

text \<open>
  The VConsole client of \<open>libvconsole\<close>: the class's state, its callbacks, and every
  operation of \<open>libvconsole/src/vconsole.cpp\<close>.

  A callback is a function on the environment \<open>'e\<close> of the object (the kernel's world and
  the rest of the program), \<open>None\<close> when the \<open>std::function\<close> is empty.
\<close>

section \<open>State\<close>

record 'e vconsole =
  clientSocket :: int
  onPRNTReceived :: "(PRNT \<Rightarrow> 'e \<Rightarrow> 'e) option"
  onCVARsLoaded :: "(Cvar list \<Rightarrow> 'e \<Rightarrow> 'e) option"
  onADONReceived :: "(string \<Rightarrow> 'e \<Rightarrow> 'e) option"
  onDisconnected :: "('e \<Rightarrow> 'e) option"
  onCHANReceived :: "(CHAN \<Rightarrow> 'e \<Rightarrow> 'e) option"
  vc_channels :: "Channel list"
  cvars :: "Cvar list"
  adonName :: string

definition VConsole_new :: "'e vconsole" where
  "VConsole_new =
     \<lparr>clientSocket = INVALID_SOCKET, onPRNTReceived = None, onCVARsLoaded = None,
      onADONReceived = None, onDisconnected = None, onCHANReceived = None,
      vc_channels = [], cvars = [], adonName = ''''\<rparr>"

text \<open>\<open>if (cb) cb(x);\<close>\<close>

definition call_cb :: "('a \<Rightarrow> 'e \<Rightarrow> 'e) option \<Rightarrow> 'a \<Rightarrow> 'e \<Rightarrow> 'e" where
  "call_cb cb x e = (case cb of None \<Rightarrow> e | Some f \<Rightarrow> f x e)"

lemma call_cb_simps [simp]: "call_cb None x e = e" "call_cb (Some f) x e = f x e"
  by (simp_all add: call_cb_def)

definition setOnPRNTReceived :: "(PRNT \<Rightarrow> 'e \<Rightarrow> 'e) \<Rightarrow> 'e vconsole \<Rightarrow> 'e vconsole" where
  "setOnPRNTReceived callback vc = vc\<lparr>onPRNTReceived := Some callback\<rparr>"

definition setOnCVARsLoaded :: "(Cvar list \<Rightarrow> 'e \<Rightarrow> 'e) \<Rightarrow> 'e vconsole \<Rightarrow> 'e vconsole" where
  "setOnCVARsLoaded callback vc = vc\<lparr>onCVARsLoaded := Some callback\<rparr>"

definition setOnADONReceived :: "(string \<Rightarrow> 'e \<Rightarrow> 'e) \<Rightarrow> 'e vconsole \<Rightarrow> 'e vconsole" where
  "setOnADONReceived callback vc = vc\<lparr>onADONReceived := Some callback\<rparr>"

definition setOnDisconnected :: "('e \<Rightarrow> 'e) \<Rightarrow> 'e vconsole \<Rightarrow> 'e vconsole" where
  "setOnDisconnected callback vc = vc\<lparr>onDisconnected := Some callback\<rparr>"

definition setOnCHANReceived :: "(CHAN \<Rightarrow> 'e \<Rightarrow> 'e) \<Rightarrow> 'e vconsole \<Rightarrow> 'e vconsole" where
  "setOnCHANReceived callback vc = vc\<lparr>onCHANReceived := Some callback\<rparr>"

section \<open>Connecting and disconnecting\<close>

definition VConsole_connect ::
  "'w os \<Rightarrow> string \<Rightarrow> int \<Rightarrow> 'e vconsole \<Rightarrow> 'w \<Rightarrow> bool \<times> 'e vconsole \<times> 'w" where
  "VConsole_connect os ip port vc w =
     (case os_socket os w of (fd, w1) \<Rightarrow>
        let vc1 = vc\<lparr>clientSocket := fd\<rparr> in
        if fd = INVALID_SOCKET then (False, vc1, w1)
        else case os_connect os fd (sin_addr os ip) (htons (of_int port)) w1 of (r, w2) \<Rightarrow>
          if r = SOCKET_ERROR
          then (False, vc1\<lparr>clientSocket := INVALID_SOCKET\<rparr>, os_close os fd w2)
          else (True, vc1, w2))"

definition VConsole_disconnect :: "'w os \<Rightarrow> ('w \<times> 's) vconsole \<Rightarrow> 'w \<times> 's \<Rightarrow> ('w \<times> 's) vconsole \<times> ('w \<times> 's)" where
  "VConsole_disconnect os vc e =
     (let (vc1, e1) =
        (if clientSocket vc \<noteq> INVALID_SOCKET
         then (vc\<lparr>clientSocket := INVALID_SOCKET\<rparr>,
               apfst (\<lambda>w. os_close os (clientSocket vc) (os_shutdown os (clientSocket vc) w)) e)
         else (vc, e))
      in (vc1, case onDisconnected vc1 of None \<Rightarrow> e1 | Some f \<Rightarrow> f e1))"

definition isConnected :: "'w os \<Rightarrow> 'e vconsole \<Rightarrow> 'w \<Rightarrow> bool \<times> 'w" where
  "isConnected os vc w =
     (if clientSocket vc = INVALID_SOCKET then (False, w)
      else case os_recv os (clientSocket vc) 1 True w of (r, w1) \<Rightarrow>
        if recv_count r = 0 \<or> (recv_count r = SOCKET_ERROR \<and> os_errno os w1 \<noteq> EWOULDBLOCK)
        then (False, w1) else (True, w1))"

section \<open>Sending and receiving\<close>

definition sendCmd :: "'w os \<Rightarrow> string \<Rightarrow> 'e vconsole \<Rightarrow> 'w \<Rightarrow> bool \<times> 'w" where
  "sendCmd os cmd vc w =
     (case os_send os (clientSocket vc) (createCommandPayload cmd) w of (result, w1) \<Rightarrow>
        (result \<noteq> SOCKET_ERROR, w1))"

text \<open>The header as \<open>recv\<close> filled it in, and the memory image of a header.\<close>

definition load_VConChunk :: "bytes \<Rightarrow> VConChunk" where
  "load_VConChunk bs =
     \<lparr>chunk_type = take 4 bs,
      chunk_version = load_le (take 4 (drop 4 bs)),
      chunk_length = load_le (take 2 (drop 8 bs)),
      chunk_handle = load_le (take 2 (drop 10 bs))\<rparr>"

definition store_VConChunk :: "VConChunk \<Rightarrow> bytes" where
  "store_VConChunk h =
     chunk_type h @ store_le 4 (chunk_version h) @ store_le 2 (chunk_length h) @
     store_le 2 (chunk_handle h)"

text \<open>The out-parameter after \<open>recv\<close> wrote \<open>bs\<close> behind the header.\<close>

definition overwrite_at :: "nat \<Rightarrow> bytes \<Rightarrow> bytes \<Rightarrow> bytes" where
  "overwrite_at off bs buf = take off buf @ bs @ drop (off + length bs) buf"

definition read_error :: "'w os \<Rightarrow> 'w \<Rightarrow> int" where
  "read_error os w = (if os_errno os w = EWOULDBLOCK then 0 else -1)"

definition readChunk :: "'w os \<Rightarrow> 'e vconsole \<Rightarrow> 'w \<Rightarrow> fault + (int \<times> bytes \<times> 'w)" where
  "readChunk os vc w =
     (case os_recv os (clientSocket vc) (of_nat sizeof_VConChunk) False w of (n, w1) \<Rightarrow>
        if recv_count n < int sizeof_VConChunk then Inr (read_error os w1, [], w1)
        else
          let header = load_VConChunk (recv_bytes n);
              header = header\<lparr>chunk_version := ntohl (chunk_version header)\<rparr>;
              header = header\<lparr>chunk_length := ntohs (chunk_length header)\<rparr>;
              header = header\<lparr>chunk_handle := ntohs (chunk_handle header)\<rparr>;
              len = unat (chunk_length header);
              outputBuf = replicate len (CHR 0x00)
          in if len < sizeof_VConChunk then Inl HeapOverflow
             else
               let outputBuf = overwrite_at 0 (store_VConChunk header) outputBuf;
                   bodySize = len - sizeof_VConChunk
               in case os_recv os (clientSocket vc) (of_nat bodySize) False w1 of (p, w2) \<Rightarrow>
                 let outputBuf = overwrite_at sizeof_VConChunk (recv_bytes p) outputBuf
                 in if recv_count p < int bodySize then Inr (read_error os w2, outputBuf, w2)
                    else Inr (1, outputBuf, w2))"

section \<open>Dispatch\<close>

definition processPacket :: "string \<Rightarrow> bytes \<Rightarrow> 'e vconsole \<Rightarrow> 'e \<Rightarrow> fault + ('e vconsole \<times> 'e)" where
  "processPacket msgType chunkBuf vc e =
     (if msgType = ''AINF'' then bindE (parseAINF chunkBuf) (\<lambda>ainf. Inr (vc, e))
      else if msgType = ''ADON'' then
        bindE (parseADON chunkBuf) (\<lambda>adon.
          let vc1 = vc\<lparr>adonName := adon_name adon\<rparr>
          in Inr (vc1, call_cb (onADONReceived vc1) (adonName vc1) e))
      else if msgType = ''CHAN'' then
        bindE (parseCHAN chunkBuf) (\<lambda>chan. Inr (vc, call_cb (onCHANReceived vc) chan e))
      else if msgType = ''PRNT'' then
        bindE (parsePRNT chunkBuf) (\<lambda>prnt.
          let prnt = prnt\<lparr>prnt_message := stripNonAscii (prnt_message prnt)\<rparr>
          in Inr (vc, call_cb (onPRNTReceived vc) prnt e))
      else if msgType = ''CVAR'' then
        bindE (parseCVAR chunkBuf) (\<lambda>cvar.
          let vc1 = vc\<lparr>cvars := cvars vc @ [cvar]\<rparr>
          in Inr (vc1, call_cb (onCVARsLoaded vc1) (cvars vc1) e))
      else if msgType = ''CFGV'' then bindE (parseCFGV chunkBuf) (\<lambda>cfgv. Inr (vc, e))
      else Inr (vc, e))"

definition processIncomingData ::
  "'w os \<Rightarrow> ('w \<times> 's) vconsole \<Rightarrow> 'w \<times> 's \<Rightarrow> fault + (bool \<times> ('w \<times> 's) vconsole \<times> ('w \<times> 's))" where
  "processIncomingData os vc e =
     bindE (readChunk os vc (fst e)) (\<lambda>(result, chunkBuf, w).
       let e1 = (w, snd e) in
       if result \<le> 0 then Inr (False, vc, e1)
       else
         let msgType = take 4 chunkBuf in
         bindE (processPacket msgType chunkBuf vc e1) (\<lambda>(vc1, e2). Inr (True, vc1, e2)))"

section \<open>Frames on the wire\<close>

text \<open>
  A frame as the game sends it, and the same frame as \<open>processPacket\<close> sees it: the header
  has been converted to host order in the buffer, the body is untouched.
\<close>

record frame =
  frame_type :: bytes
  frame_version :: u32
  frame_handle :: u16
  frame_body :: bytes

definition wf_frame :: "frame \<Rightarrow> bool" where
  "wf_frame f \<longleftrightarrow> length (frame_type f) = 4 \<and> length (frame_body f) < 65524"

definition encode_frame :: "frame \<Rightarrow> bytes" where
  "encode_frame f =
     frame_type f @ be32 (frame_version f) @ be16 (of_nat (12 + length (frame_body f))) @
     be16 (frame_handle f) @ frame_body f"

definition frame_image :: "frame \<Rightarrow> bytes" where
  "frame_image f =
     store_VConChunk \<lparr>chunk_type = frame_type f, chunk_version = frame_version f,
       chunk_length = of_nat (12 + length (frame_body f)), chunk_handle = frame_handle f\<rparr> @
     frame_body f"

lemma frame_image_type: "wf_frame f \<Longrightarrow> take 4 (frame_image f) = frame_type f"
  by (simp add: frame_image_def store_VConChunk_def wf_frame_def)

lemma length_store_VConChunk: "length (chunk_type h) = 4 \<Longrightarrow> length (store_VConChunk h) = 12"
  by (simp add: store_VConChunk_def)

lemma unat_of_nat_u16: "n < 65536 \<Longrightarrow> unat (of_nat n :: u16) = n"
  by (simp add: unat_of_nat)

lemma unat_u16_less: "unat (w :: u16) < 65536"
  using unsigned_less [of w] by simp

lemma unat_of_nat_u64: "n < 65536 \<Longrightarrow> unat (of_nat n :: u64) = n"
  by (simp add: unat_of_nat)

lemma load_VConChunk_encode:
  "length ty = 4 \<Longrightarrow>
   load_VConChunk (ty @ be32 v @ be16 l @ be16 h)
     = \<lparr>chunk_type = ty, chunk_version = byteSwap32 v, chunk_length = byteSwap16 l,
        chunk_handle = byteSwap16 h\<rparr>"
  by (simp add: load_VConChunk_def load_be32 load_be16)

lemma overwrite_at_exact:
  "length bs = length buf - off \<Longrightarrow> off \<le> length buf \<Longrightarrow> overwrite_at off bs buf = take off buf @ bs"
  by (simp add: overwrite_at_def)

text \<open>
  A header whose length field is at least 12, with the rest of the chunk queued behind it,
  is read as one chunk and nothing else is consumed.
\<close>

lemma readChunk_frame:
  assumes "queued_socket os (clientSocket vc) q" and "wf_frame f"
    and "q w = encode_frame f @ rest"
  obtains w' where "readChunk os vc w = Inr (1, frame_image f, w')" and "q w' = rest"
proof -
  let ?n = "length (frame_body f)" and ?ty = "frame_type f"
  let ?hdr = "?ty @ be32 (frame_version f) @ be16 (of_nat (12 + ?n)) @ be16 (frame_handle f)"
  have ty: "length ?ty = 4" and n: "?n < 65524" using assms(2) by (simp_all add: wf_frame_def)
  have qw: "q w = ?hdr @ frame_body f @ rest" using assms(3) by (simp add: encode_frame_def)
  obtain w1 where r1: "os_recv os (clientSocket vc) 12 False w = (Some ?hdr, w1)"
      and q1: "q w1 = frame_body f @ rest"
    using queued_socketE [OF assms(1), of 12 w] qw ty by auto
  have un: "unat (of_nat ?n :: u64) = ?n" using n by (intro unat_of_nat_u64) simp
  obtain w2 where r2: "os_recv os (clientSocket vc) (of_nat ?n) False w1 = (Some (frame_body f), w2)"
      and q2: "q w2 = rest"
    using queued_socketE [OF assms(1), of "of_nat ?n" w1] q1 un by auto
  have len: "unat (of_nat (12 + ?n) :: u16) = 12 + ?n" using n by (intro unat_of_nat_u16) simp
  let ?h = "\<lparr>chunk_type = ?ty, chunk_version = frame_version f,
      chunk_length = of_nat (12 + ?n), chunk_handle = frame_handle f\<rparr>"
  have store: "length (store_VConChunk ?h) = 12" using ty by (simp add: length_store_VConChunk)
  have buf: "overwrite_at 12 (frame_body f) (overwrite_at 0 (store_VConChunk ?h) (replicate (12 + ?n) (CHR 0x00)))
      = frame_image f"
    using store by (simp add: overwrite_at_def frame_image_def)
  have "readChunk os vc w = Inr (1, frame_image f, w2)"
    using r1 r2 len buf ty
    by (simp add: readChunk_def Let_def load_VConChunk_encode del: of_nat_add)
  with q2 show ?thesis using that by blast
qed

fun readChunks :: "nat \<Rightarrow> 'w os \<Rightarrow> 'e vconsole \<Rightarrow> 'w \<Rightarrow> fault + (bytes list \<times> 'w)" where
  "readChunks 0 os vc w = Inr ([], w)"
| "readChunks (Suc n) os vc w =
     bindE (readChunk os vc w) (\<lambda>(result, chunkBuf, w1).
       if result \<le> 0 then Inr ([], w1)
       else bindE (readChunks n os vc w1) (\<lambda>(bufs, w2). Inr (chunkBuf # bufs, w2)))"

text \<open>
  C1: Framing. If the kernel has a sequence of well-formed frames queued, the client's
  reads cut the byte stream at exactly the frame boundaries: reading as many chunks as
  there are frames yields each frame in order, and what follows them is untouched.
\<close>

theorem readChunks_frames:
  assumes "queued_socket os (clientSocket vc) q" and "\<forall>f \<in> set fs. wf_frame f"
    and "q w = concat (map encode_frame fs) @ rest"
  shows "\<exists>w'. readChunks (length fs) os vc w = Inr (map frame_image fs, w') \<and> q w' = rest"
  using assms(2,3)
proof (induction fs arbitrary: w)
  case (Cons f fs)
  then obtain w1 where "readChunk os vc w = Inr (1, frame_image f, w1)"
      and "q w1 = concat (map encode_frame fs) @ rest"
    using readChunk_frame [OF assms(1), of f w "concat (map encode_frame fs) @ rest"] by auto
  with Cons.IH [of w1] Cons.prems show ?case by auto
qed simp

definition sample_frames :: "frame list" where
  "sample_frames =
     [\<lparr>frame_type = ''CFGV'', frame_version = 1, frame_handle = 0, frame_body = ''ab''\<rparr>,
      \<lparr>frame_type = ''PRNT'', frame_version = 1, frame_handle = 2, frame_body = []\<rparr>]"

theorem readChunks_frames_witness:
  "\<exists>w'. readChunks (length sample_frames) queue_os (VConsole_new :: unit vconsole)
          (concat (map encode_frame sample_frames) @ ''tail'')
        = Inr (map frame_image sample_frames, w') \<and> w' = ''tail''"
proof -
  have "\<forall>f \<in> set sample_frames. wf_frame f"
    by (simp add: sample_frames_def wf_frame_def)
  from readChunks_frames [OF queued_socket_queue_os this refl, of "VConsole_new :: unit vconsole" "''tail''"]
  show ?thesis by blast
qed

definition command_frame :: "string \<Rightarrow> frame" where
  "command_frame command =
     \<lparr>frame_type = ''CMND'', frame_version = 0x00D40000, frame_handle = 0,
      frame_body = take 65522 command @ [CHR 0x00]\<rparr>"

text \<open>
  C2: The command frame the client sends is a well-formed frame of type CMND whose length
  field is its true length, for every command: longer ones are cut at 65522 bytes, so the
  16-bit field never wraps, and the body is the (cut) command with one NUL behind it.
\<close>

theorem createCommandPayload_frame:
  "createCommandPayload command = encode_frame (command_frame command)
   \<and> wf_frame (command_frame command)
   \<and> unat (of_nat (length (createCommandPayload command)) :: u16) = 13 + min (length command) 65522"
proof -
  have "unat (of_nat (cmd_length command) :: u16) = cmd_length command"
    using cmd_length_bounds [of command] by (intro unat_of_nat_u16) simp
  then show ?thesis
    by (simp add: length_createCommandPayload del: of_nat_add)
      (simp add: createCommandPayload_eq command_frame_def encode_frame_def wf_frame_def cmd_length_def
        del: of_nat_add)
qed

section \<open>What can go wrong in a read\<close>

lemma readChunk_cases:
  assumes "os_recv os (clientSocket vc) 12 False w = (r, w1)"
  shows "readChunk os vc w =
    (if recv_count r < 12 then Inr (read_error os w1, [], w1)
     else let header = load_VConChunk (recv_bytes r); len = unat (ntohs (chunk_length header)) in
       if len < 12 then Inl HeapOverflow
       else case os_recv os (clientSocket vc) (of_nat (len - 12)) False w1 of (p, w2) \<Rightarrow>
         let buf = overwrite_at 12 (recv_bytes p) (overwrite_at 0 (store_VConChunk
               (header\<lparr>chunk_version := ntohl (chunk_version header),
                       chunk_length := ntohs (chunk_length header),
                       chunk_handle := ntohs (chunk_handle header)\<rparr>)) (replicate len (CHR 0x00)))
         in if recv_count p < int (len - 12) then Inr (read_error os w2, buf, w2) else Inr (1, buf, w2))"
  using assms by (simp add: readChunk_def Let_def split: prod.split)

text \<open>The world after a read is the one its last \<open>recv\<close> left.\<close>

lemma readChunk_world:
  assumes "readChunk os vc w = Inr (n, buf, w')"
  shows "\<exists>r w1. os_recv os (clientSocket vc) 12 False w = (r, w1)
    \<and> (w' = w1 \<or> (\<exists>m p. os_recv os (clientSocket vc) m False w1 = (p, w')))"
proof -
  obtain r w1 where r1: "os_recv os (clientSocket vc) 12 False w = (r, w1)" by fastforce
  let ?len = "unat (ntohs (chunk_length (load_VConChunk (recv_bytes r))))"
  obtain p w2 where r2: "os_recv os (clientSocket vc) (of_nat (?len - 12)) False w1 = (p, w2)" by fastforce
  have "w' = w1 \<or> w' = w2"
    using assms unfolding readChunk_cases [OF r1] Let_def r2 prod.case
    by (simp only: prod.inject sum.inject sum.distinct split: if_split_asm; blast)
  then show ?thesis using r1 r2 by blast
qed


text \<open>
  A chunk that is delivered has the size its header announces: with a kernel that
  never returns more than it is asked for, a successful read leaves a buffer of between
  12 and 65535 bytes, exactly as long as the length field in it says.
\<close>

theorem readChunk_size:
  assumes "recv_within os" and "readChunk os vc w = Inr (1, buf, w')"
  shows "12 \<le> length buf \<and> length buf < 65536
         \<and> unat (load_le (take 2 (drop 8 buf)) :: u16) = length buf"
proof -
  obtain r w1 where r: "os_recv os (clientSocket vc) 12 False w = (r, w1)" by fastforce
  obtain hdr where [simp]: "r = Some hdr" and hdr: "length hdr = 12"
    using assms r recv_withinD [OF assms(1), of "clientSocket vc" 12 False w]
    by (cases r) (auto simp: readChunk_cases [OF r] read_error_def split: if_splits)
  let ?h = "load_VConChunk hdr" let ?len = "unat (ntohs (chunk_length ?h))"
  let ?h' = "?h\<lparr>chunk_version := ntohl (chunk_version ?h), chunk_length := ntohs (chunk_length ?h),
      chunk_handle := ntohs (chunk_handle ?h)\<rparr>"
  have len: "12 \<le> ?len" using assms(2) hdr by (auto simp: readChunk_cases [OF r] Let_def split: if_splits)
  obtain p w2 where p: "os_recv os (clientSocket vc) (of_nat (?len - 12)) False w1 = (p, w2)" by fastforce
  have lt: "?len < 65536" by (rule unat_u16_less)
  have full: "int (?len - 12) \<le> recv_count p"
      and buf: "buf = overwrite_at 12 (recv_bytes p) (overwrite_at 0 (store_VConChunk ?h') (replicate ?len (CHR 0x00)))"
    using assms(2) p len hdr by (auto simp: readChunk_cases [OF r] Let_def read_error_def split: if_splits)
  from full have "0 \<le> recv_count p" by (meson of_nat_0_le_iff order_trans)
  then obtain body where [simp]: "p = Some body"
    by (cases p) auto
  have "length body \<le> unat (of_nat (?len - 12) :: u64)"
    using assms(1) p recv_withinD by fastforce
  then have body: "length body = ?len - 12"
    using full lt unat_of_nat_u64 [of "?len - 12"] by (simp del: of_nat_diff)
  have sl: "length (store_VConChunk ?h') = 12"
    using hdr by (simp add: length_store_VConChunk load_VConChunk_def)
  then have "buf = store_VConChunk ?h' @ body"
    using buf len body by (simp add: overwrite_at_def)
  moreover have "take 2 (drop 8 (store_VConChunk ?h' @ body)) = store_le 2 (ntohs (chunk_length ?h))"
    using hdr by (simp add: store_VConChunk_def load_VConChunk_def)
  ultimately show ?thesis using len lt body sl by (simp add: load_store_le)
qed

theorem readChunk_size_witness:
  "12 \<le> length (frame_image (hd sample_frames)) \<and> length (frame_image (hd sample_frames)) < 65536
   \<and> unat (load_le (take 2 (drop 8 (frame_image (hd sample_frames)))) :: u16)
       = length (frame_image (hd sample_frames))"
proof -
  let ?f = "hd sample_frames"
  have "wf_frame ?f" by (simp add: sample_frames_def wf_frame_def)
  from readChunk_frame [OF queued_socket_queue_os this, where w = "encode_frame ?f" and rest = "[]"
      and vc = "VConsole_new :: unit vconsole"]
  obtain w' where "readChunk queue_os (VConsole_new :: unit vconsole) (encode_frame ?f)
      = Inr (1, frame_image ?f, w')" by auto
  from readChunk_size [OF recv_within_queue_os this] show ?thesis .
qed

text \<open>
  A header that arrives in pieces is lost. When \<open>recv\<close> returns fewer than the 12
  bytes asked for, \<open>processIncomingData\<close> reports no message, keeps none of the bytes
  (object and environment are unchanged but for the kernel's world, from which they have
  been taken), so the next read starts in the middle of the frame.
\<close>

theorem short_header_dropped:
  assumes "os_recv os (clientSocket vc) 12 False w = (Some bs, w1)" and "length bs < 12"
  shows "processIncomingData os vc (w, s) = Inr (False, vc, (w1, s))"
  using assms by (simp add: processIncomingData_def readChunk_cases read_error_def)

theorem short_header_dropped_witness:
  "processIncomingData queue_os VConsole_new (''PRNT'', ()) = Inr (False, VConsole_new, ([], ()))"
  by (rule short_header_dropped [where bs = "''PRNT''"]) (simp_all add: queue_os_def)

section \<open>Dispatch\<close>

text \<open>
  C19: Parsing is unchecked. For a chunk of any legal size, dispatch reads outside the
  chunk exactly when the body is shorter than the fixed layout of its type, when an ADON
  name length points past the end, or when a PRNT text has no NUL; every other chunk,
  whatever its type field, is handled without a fault.
\<close>

theorem processPacket_fault_iff:
  assumes "12 \<le> length buf" and "length buf < 65536"
  shows "(\<exists>f. processPacket ty buf vc e = Inl f) \<longleftrightarrow>
     ty = ''AINF'' \<and> length buf < 89
     \<or> ty = ''ADON'' \<and> \<not> (16 \<le> length buf \<and> 16 + unat (ntohs (load_le (take 2 (drop 14 buf)))) \<le> length buf)
     \<or> ty = ''CHAN'' \<and> length buf < 14
     \<or> ty = ''PRNT'' \<and> CHR 0x00 \<notin> set (drop 40 buf)
     \<or> ty = ''CVAR'' \<and> length buf < 96
     \<or> ty = ''CFGV'' \<and> length buf < 141"
proof -
  have Inl: "(\<exists>f. bindE r g = Inl f) \<longleftrightarrow> \<not> (\<exists>m. r = Inr m)" if "\<And>m. \<exists>x. g m = Inr x" for r and g :: "'c \<Rightarrow> fault + 'd"
    using that by (cases r) (auto, metis sum.distinct(1))
  show ?thesis
    unfolding processPacket_def
    by (simp add: Inl Let_def parseAINF_ok_iff parseADON_ok_iff parseCHAN_safe_iff [OF assms]
        parsePRNT_ok_iff parseCVAR_ok_iff parseCFGV_ok_iff not_le)
qed

theorem processPacket_fault_iff_witness:
  "\<exists>f. processPacket ''CHAN'' (replicate 13 (CHR 0x00)) (VConsole_new :: unit vconsole) () = Inl f"
  using processPacket_fault_iff [of "replicate 13 (CHR 0x00)" "''CHAN''" "VConsole_new :: unit vconsole" "()"]
  by simp

text \<open>What each message type does to the object and which callback it reaches.\<close>

lemma processPacket_dispatch:
  "processPacket ''AINF'' buf vc e = bindE (parseAINF buf) (\<lambda>_. Inr (vc, e))"
  "processPacket ''ADON'' buf vc e = bindE (parseADON buf) (\<lambda>m.
     Inr (vc\<lparr>adonName := adon_name m\<rparr>, call_cb (onADONReceived vc) (adon_name m) e))"
  "processPacket ''CHAN'' buf vc e = bindE (parseCHAN buf) (\<lambda>m. Inr (vc, call_cb (onCHANReceived vc) m e))"
  "processPacket ''PRNT'' buf vc e = bindE (parsePRNT buf) (\<lambda>m.
     Inr (vc, call_cb (onPRNTReceived vc) (m\<lparr>prnt_message := stripNonAscii (prnt_message m)\<rparr>) e))"
  "processPacket ''CVAR'' buf vc e = bindE (parseCVAR buf) (\<lambda>m.
     Inr (vc\<lparr>cvars := cvars vc @ [m]\<rparr>, call_cb (onCVARsLoaded vc) (cvars vc @ [m]) e))"
  "processPacket ''CFGV'' buf vc e = bindE (parseCFGV buf) (\<lambda>_. Inr (vc, e))"
  by (simp_all add: processPacket_def Let_def)

lemma processPacket_unknown:
  "ty \<notin> {''AINF'', ''ADON'', ''CHAN'', ''PRNT'', ''CVAR'', ''CFGV''} \<Longrightarrow>
     processPacket ty buf vc e = Inr (vc, e)"
  by (simp add: processPacket_def)

lemma processPacket_keeps [frame_simps]:
  "processPacket ty buf vc e = Inr (vc', e') \<Longrightarrow>
     clientSocket vc' = clientSocket vc \<and> vc_channels vc' = vc_channels vc \<and>
     onPRNTReceived vc' = onPRNTReceived vc \<and> onDisconnected vc' = onDisconnected vc \<and>
     onCHANReceived vc' = onCHANReceived vc \<and> onADONReceived vc' = onADONReceived vc \<and>
     onCVARsLoaded vc' = onCVARsLoaded vc"
  by (auto simp: processPacket_def Let_def bindE_eq_Inr_iff split: if_splits)

lemma parsePRNT_ascii:
  "parsePRNT buf = Inr m \<Longrightarrow> \<forall>c \<in> set (prnt_message m). c \<noteq> CHR 0x00 \<and> (of_char c :: nat) \<le> 127"
  by (auto simp: parsePRNT_def bindE_eq_Inr_iff read_c_str_eq_Inr_iff set_stripNonAscii
      dest: NUL_notin_c_str [THEN notE, rotated])

text \<open>
  C20: Console text is sanitised before anyone sees it: whatever the chunk holds, a PRNT
  that is handled reaches the callback exactly once, with the parsed channel and colour
  and a text of non-NUL 7-bit characters; the second \<open>stripNonAscii\<close> changes nothing, and
  the object itself is unchanged.
\<close>

theorem prnt_callback_ascii:
  assumes "processPacket ''PRNT'' buf vc e = Inr (vc', e')"
  shows "\<exists>m. parsePRNT buf = Inr m \<and> vc' = vc \<and> e' = call_cb (onPRNTReceived vc) m e
             \<and> (\<forall>c \<in> set (prnt_message m). c \<noteq> CHR 0x00 \<and> (of_char c :: nat) \<le> 127)"
proof -
  obtain m where m: "parsePRNT buf = Inr m" and vc': "vc' = vc"
      and e': "e' = call_cb (onPRNTReceived vc) (m\<lparr>prnt_message := stripNonAscii (prnt_message m)\<rparr>) e"
    using assms by (auto simp: processPacket_dispatch bindE_eq_Inr_iff)
  have ascii: "\<forall>c \<in> set (prnt_message m). c \<noteq> CHR 0x00 \<and> (of_char c :: nat) \<le> 127"
    using m by (rule parsePRNT_ascii)
  then have "m\<lparr>prnt_message := stripNonAscii (prnt_message m)\<rparr> = m"
    by (simp add: stripNonAscii_id)
  with m vc' e' ascii show ?thesis by metis
qed

definition sample_prnt :: bytes where
  "sample_prnt = replicate 12 (CHR 0x00) @
     encode_prnt 5 (replicate 8 (CHR 0x00)) 0x01020304 (replicate 12 (CHR 0x00)) [CHR ''h'', CHR 0xC3, CHR ''i'']"

theorem prnt_callback_ascii_witness:
  "\<exists>m. parsePRNT sample_prnt = Inr m
       \<and> prnt_message m = ''hi'' \<and> prnt_channelID m = 5 \<and> prnt_color m = 0x01020304
       \<and> (\<forall>c \<in> set (prnt_message m). c \<noteq> CHR 0x00 \<and> (of_char c :: nat) \<le> 127)"
proof -
  let ?vc = "VConsole_new\<lparr>onPRNTReceived := Some (\<lambda>m e. m # e)\<rparr>"
  have parse: "parsePRNT sample_prnt = Inr \<lparr>prnt_channelID = 5,
      prnt_unknown = replicate 8 (CHR 0x00) @ store_le 4 (0x01020304 :: u32) @ take 8 (replicate 12 (CHR 0x00)),
      prnt_color = 0x01020304, prnt_message = stripNonAscii [CHR ''h'', CHR 0xC3, CHR ''i'']\<rparr>"
    using parsePRNT_encode [of "replicate 12 (CHR 0x00)" "replicate 8 (CHR 0x00)" "replicate 12 (CHR 0x00)"
        "[CHR ''h'', CHR 0xC3, CHR ''i'']" "5" "0x01020304" "[]"]
    by (simp add: sample_prnt_def)
  then obtain e' where "processPacket ''PRNT'' sample_prnt ?vc [] = Inr (?vc, e')"
    by (simp add: processPacket_dispatch)
  from prnt_callback_ascii [OF this] parse show ?thesis by (auto simp: stripNonAscii_def)
qed

end
