(* ===== verification/VConsole_Session.thy ===== *)
theory VConsole_Session
  imports VConsole
begin

text \<open>
  The life of a VConsole connection: what \<open>connect\<close>, \<open>disconnect\<close> and \<open>isConnected\<close> do
  to the socket field. Theory \<open>Descriptors\<close> accounts for the kernel's side.
\<close>

section \<open>The socket field\<close>

text \<open>
  \<open>connect\<close> answers true exactly when it leaves a valid socket behind, and touches no
  other field of the object.
\<close>

theorem connect_true_iff_socket:
  "case VConsole_connect os ip port vc w of (ok, vc', w') \<Rightarrow>
     (ok \<longleftrightarrow> clientSocket vc' \<noteq> INVALID_SOCKET) \<and> vc' = vc\<lparr>clientSocket := clientSocket vc'\<rparr>"
  by (simp add: VConsole_connect_def Let_def split: prod.split)

lemma connect_callbacks:
  "VConsole_connect os ip port vc w = (ok, vc', w') \<Longrightarrow> onDisconnected vc' = onDisconnected vc"
  by (auto simp: VConsole_connect_def Let_def split: prod.splits if_splits)

lemma disconnect_socket [simp]:
  "clientSocket (fst (VConsole_disconnect os vc e)) = INVALID_SOCKET"
  by (simp add: VConsole_disconnect_def Let_def)

lemma disconnect_callbacks [simp]:
  "onDisconnected (fst (VConsole_disconnect os vc e)) = onDisconnected vc"
  by (simp add: VConsole_disconnect_def Let_def)

lemma disconnect_env:
  "onDisconnected vc = None \<Longrightarrow> snd (snd (VConsole_disconnect os vc e)) = snd e"
  by (simp add: VConsole_disconnect_def Let_def)

lemma disconnect_invalid:
  "clientSocket vc = INVALID_SOCKET \<Longrightarrow>
     VConsole_disconnect os vc e = (vc, case onDisconnected vc of None \<Rightarrow> e | Some f \<Rightarrow> f e)"
  by (simp add: VConsole_disconnect_def)

text \<open>
  \<open>disconnect\<close> closes a socket once: a second call makes no system call (the world
  is what the callbacks make of it), but it runs the \<open>onDisconnected\<close> callback again.
\<close>

theorem disconnect_twice:
  "VConsole_disconnect os (fst (VConsole_disconnect os vc e)) (snd (VConsole_disconnect os vc e))
     = (fst (VConsole_disconnect os vc e),
        case onDisconnected vc of None \<Rightarrow> snd (VConsole_disconnect os vc e)
        | Some f \<Rightarrow> f (snd (VConsole_disconnect os vc e)))"
proof -
  have "onDisconnected (fst (VConsole_disconnect os vc e)) = onDisconnected vc"
    by (simp add: VConsole_disconnect_def Let_def)
  then show ?thesis by (simp add: disconnect_invalid)
qed

end
