(* ===== verification/Bounded_Fifo.thy ===== *)
theory Bounded_Fifo
  imports Prelude
begin

text \<open>
  Bounded buffers that drop their oldest element. The interface is the locale
  \<open>bounded_fifo\<close>: a push keeps the last \<open>cap\<close> elements of what was pushed so far.
  spdlog's \<open>details/circular_q.h\<close>, an array with wrapping head and tail indices, is
  modelled here and shown to implement it; the console history of the TUI is the other
  implementation (theory \<open>Tui\<close>).
\<close>

section \<open>The interface\<close>

locale bounded_fifo =
  fixes content :: "'q \<Rightarrow> 'a list"
    and push :: "'a \<Rightarrow> 'q \<Rightarrow> 'q"
    and cap :: "'q \<Rightarrow> nat"
    and inv :: "'q \<Rightarrow> bool"
  assumes content_push: "inv q \<Longrightarrow> content (push x q) = lastn (cap q) (content q @ [x])"
    and cap_push: "inv q \<Longrightarrow> cap (push x q) = cap q"
    and inv_push: "inv q \<Longrightarrow> inv (push x q)"
    and content_cap: "inv q \<Longrightarrow> length (content q) \<le> cap q"
begin

lemma inv_pushes: "inv q \<Longrightarrow> inv (fold push xs q)"
  by (induction xs arbitrary: q) (auto simp: inv_push)

lemma cap_pushes: "inv q \<Longrightarrow> cap (fold push xs q) = cap q"
  by (induction xs arbitrary: q) (auto simp: inv_push cap_push)

text \<open>After any number of pushes the buffer holds the last \<open>cap\<close> elements of the history.\<close>

lemma content_pushes: "inv q \<Longrightarrow> content (fold push xs q) = lastn (cap q) (content q @ xs)"
proof (induction xs rule: rev_induct)
  case Nil
  then show ?case by (simp add: lastn_all content_cap)
next
  case (snoc x xs)
  then show ?case
    by (simp add: content_push inv_pushes cap_pushes lastn_lastn_snoc flip: append_assoc)
qed

lemma content_pushes_small:
  "inv q \<Longrightarrow> length (content q) + length xs \<le> cap q \<Longrightarrow> content (fold push xs q) = content q @ xs"
  by (simp add: content_pushes lastn_all)

lemma length_pushes_le: "inv q \<Longrightarrow> length (content (fold push xs q)) \<le> cap q"
  by (simp add: content_pushes)

end

section \<open>circular_q\<close>

record 'a circular_q =
  cq_max_items :: nat
  cq_head :: nat
  cq_tail :: nat
  cq_overrun_counter :: nat
  cq_v :: "'a list"

text \<open>The disabled queue, and the queue of a capacity; \<open>d\<close> is the element \<open>T()\<close>.\<close>

definition cq_disabled :: "'a circular_q" where
  "cq_disabled = \<lparr>cq_max_items = 0, cq_head = 0, cq_tail = 0, cq_overrun_counter = 0, cq_v = []\<rparr>"

definition cq_new :: "'a \<Rightarrow> nat \<Rightarrow> 'a circular_q" where
  "cq_new d max_items =
     \<lparr>cq_max_items = max_items + 1, cq_head = 0, cq_tail = 0, cq_overrun_counter = 0,
      cq_v = replicate (max_items + 1) d\<rparr>"

definition cq_push_back :: "'a \<Rightarrow> 'a circular_q \<Rightarrow> 'a circular_q" where
  "cq_push_back item q =
     (if cq_max_items q > 0 then
        let q1 = q\<lparr>cq_v := (cq_v q)[cq_tail q := item], cq_tail := (cq_tail q + 1) mod cq_max_items q\<rparr> in
        if cq_tail q1 = cq_head q1
        then q1\<lparr>cq_head := (cq_head q1 + 1) mod cq_max_items q1,
                cq_overrun_counter := cq_overrun_counter q1 + 1\<rparr>
        else q1
      else q)"

definition cq_front :: "'a circular_q \<Rightarrow> 'a" where
  "cq_front q = cq_v q ! cq_head q"

definition cq_size :: "'a circular_q \<Rightarrow> nat" where
  "cq_size q = (if cq_tail q \<ge> cq_head q then cq_tail q - cq_head q
                else cq_max_items q - (cq_head q - cq_tail q))"

definition cq_at :: "'a circular_q \<Rightarrow> nat \<Rightarrow> 'a" where
  "cq_at q i = cq_v q ! ((cq_head q + i) mod cq_max_items q)"

definition cq_pop_front :: "'a circular_q \<Rightarrow> 'a circular_q" where
  "cq_pop_front q = q\<lparr>cq_head := (cq_head q + 1) mod cq_max_items q\<rparr>"

definition cq_empty :: "'a circular_q \<Rightarrow> bool" where
  "cq_empty q \<longleftrightarrow> cq_tail q = cq_head q"

definition cq_full :: "'a circular_q \<Rightarrow> bool" where
  "cq_full q \<longleftrightarrow> (if cq_max_items q > 0 then (cq_tail q + 1) mod cq_max_items q = cq_head q else False)"

text \<open>\<open>copy_moveable\<close>: the new queue and the disabled \<open>other\<close>.\<close>

definition cq_copy_moveable :: "'a circular_q \<Rightarrow> 'a circular_q \<times> 'a circular_q" where
  "cq_copy_moveable other =
     (other, \<lparr>cq_max_items = 0, cq_head = 0, cq_tail = 0, cq_overrun_counter = 0, cq_v = []\<rparr>)"

section \<open>The queue as a list\<close>

definition cq_list :: "'a circular_q \<Rightarrow> 'a list" where
  "cq_list q = map (cq_at q) [0..<cq_size q]"

definition cq_inv :: "'a circular_q \<Rightarrow> bool" where
  "cq_inv q \<longleftrightarrow> length (cq_v q) = cq_max_items q \<and>
     (if cq_max_items q = 0 then cq_head q = 0 \<and> cq_tail q = 0
      else cq_head q < cq_max_items q \<and> cq_tail q < cq_max_items q)"

definition cq_capacity :: "'a circular_q \<Rightarrow> nat" where
  "cq_capacity q = cq_max_items q - 1"

lemma cq_inv_new [simp]: "cq_inv (cq_new d n)" "cq_inv cq_disabled"
  by (simp_all add: cq_inv_def cq_new_def cq_disabled_def)

lemma cq_list_new [simp]: "cq_list (cq_new d n) = []" "cq_list cq_disabled = []"
  by (simp_all add: cq_list_def cq_size_def cq_new_def cq_disabled_def)

lemma cq_capacity_new [simp]: "cq_capacity (cq_new d n) = n"
  by (simp add: cq_capacity_def cq_new_def)

lemma length_cq_list [simp]: "length (cq_list q) = cq_size q"
  by (simp add: cq_list_def)

lemma cq_size_bound: "cq_inv q \<Longrightarrow> cq_size q \<le> cq_capacity q"
  by (auto simp: cq_inv_def cq_size_def cq_capacity_def split: if_splits)

lemma cq_size_0_iff: "cq_inv q \<Longrightarrow> cq_size q = 0 \<longleftrightarrow> cq_empty q"
  by (auto simp: cq_inv_def cq_size_def cq_empty_def split: if_splits)

lemma mod_Suc_wrap: "n < m \<Longrightarrow> Suc n mod m = (if Suc n = m then 0 else Suc n)"
  by simp

lemma wrap_add: "h < m \<Longrightarrow> i < m \<Longrightarrow> (h + i) mod m = (if h + i < m then h + i else h + i - (m::nat))"
  by (simp add: mod_if)

lemma tail_eq_wrap:
  "cq_inv q \<Longrightarrow> 0 < cq_max_items q \<Longrightarrow> cq_tail q = (cq_head q + cq_size q) mod cq_max_items q"
  by (auto simp: cq_inv_def cq_size_def wrap_add)

lemma cq_inv_push: "cq_inv q \<Longrightarrow> cq_inv (cq_push_back x q)"
  by (auto simp: cq_inv_def cq_push_back_def Let_def)

lemma cq_capacity_push: "cq_capacity (cq_push_back x q) = cq_capacity q"
  by (simp add: cq_capacity_def cq_push_back_def Let_def)

lemma cq_at_unwritten:
  assumes "cq_inv q" "0 < cq_max_items q" "i < cq_size q"
  shows "(cq_v q)[cq_tail q := x] ! ((cq_head q + i) mod cq_max_items q) = cq_at q i"
proof -
  have "(cq_head q + i) mod cq_max_items q \<noteq> cq_tail q"
    using assms by (auto simp: cq_inv_def cq_size_def wrap_add split: if_splits)
  then show ?thesis by (simp add: cq_at_def)
qed

lemma cq_size_push:
  assumes "cq_inv q" "0 < cq_max_items q"
  shows "cq_size (cq_push_back x q) = min (cq_size q + 1) (cq_capacity q)"
  using assms
  by (auto simp: cq_inv_def cq_size_def cq_capacity_def cq_push_back_def Let_def mod_Suc_wrap)

lemma cq_full_iff:
  "cq_inv q \<Longrightarrow> 0 < cq_max_items q \<Longrightarrow>
     Suc (cq_tail q) mod cq_max_items q = cq_head q \<longleftrightarrow> Suc (cq_size q) = cq_max_items q"
  by (auto simp: cq_inv_def cq_size_def mod_Suc_wrap split: if_splits)

lemma cq_at_push:
  assumes "cq_inv q" "0 < cq_max_items q"
  shows "cq_at (cq_push_back x q) i = (cq_v q)[cq_tail q := x] !
    ((cq_head q + (i + (cq_size q + 1 - cq_size (cq_push_back x q)))) mod cq_max_items q)"
proof (cases "Suc (cq_size q) = cq_max_items q")
  case True
  then have "cq_size q + 1 - cq_size (cq_push_back x q) = 1"
    using assms by (simp add: cq_size_push cq_capacity_def)
  moreover have "cq_at (cq_push_back x q) i
      = (cq_v q)[cq_tail q := x] ! ((Suc (cq_head q) mod cq_max_items q + i) mod cq_max_items q)"
    using True cq_full_iff [OF assms] assms(2) by (simp add: cq_at_def cq_push_back_def Let_def)
  ultimately show ?thesis by (simp add: mod_simps)
next
  case False
  then have "cq_size q + 1 - cq_size (cq_push_back x q) = 0"
    using assms cq_size_bound [OF assms(1)] by (simp add: cq_size_push cq_capacity_def min_def)
  moreover have "cq_at (cq_push_back x q) i
      = (cq_v q)[cq_tail q := x] ! ((cq_head q + i) mod cq_max_items q)"
    using False cq_full_iff [OF assms] assms(2) by (simp add: cq_at_def cq_push_back_def Let_def)
  ultimately show ?thesis by simp
qed

lemma cq_list_push:
  assumes inv: "cq_inv q"
  shows "cq_list (cq_push_back x q) = lastn (cq_capacity q) (cq_list q @ [x])"
proof (cases "cq_max_items q = 0")
  case True
  with inv show ?thesis
    by (simp add: cq_push_back_def cq_list_def cq_size_def cq_inv_def cq_capacity_def lastn_def)
next
  case False
  then have pos: "0 < cq_max_items q" by simp
  let ?q = "cq_push_back x q"
  let ?k = "\<lambda>i. i + (cq_size q + 1 - cq_size ?q)"
  have size: "cq_size ?q = min (cq_size q + 1) (cq_capacity q)"
    by (rule cq_size_push [OF inv pos])
  have cell: "cq_at ?q i = (cq_list q @ [x]) ! ?k i" if "i < cq_size ?q" for i
  proof (cases "?k i < cq_size q")
    case True
    then show ?thesis
      by (simp add: cq_at_push [OF inv pos] cq_at_unwritten [OF inv pos] nth_append cq_list_def)
  next
    case False
    have "cq_size q \<le> cq_capacity q" by (rule cq_size_bound [OF inv])
    with False that size have "?k i = cq_size q" by (simp add: min_def split: if_splits)
    then have "cq_at ?q i = (cq_v q)[cq_tail q := x] ! cq_tail q"
      by (simp only: cq_at_push [OF inv pos] tail_eq_wrap [OF inv pos, symmetric])
    with \<open>?k i = cq_size q\<close> show ?thesis using inv pos by (simp add: nth_append cq_inv_def)
  qed
  have "cq_list ?q ! i = lastn (cq_capacity q) (cq_list q @ [x]) ! i" if "i < cq_size ?q" for i
  proof -
    have "cq_size q + 1 - cq_capacity q = cq_size q + 1 - cq_size ?q"
      using size cq_size_bound [OF inv] by (simp add: min_def)
    moreover have "lastn (cq_capacity q) (cq_list q @ [x]) ! i
        = (cq_list q @ [x]) ! (i + (cq_size q + 1 - cq_capacity q))"
      using that size by (subst nth_lastn) auto
    moreover have "cq_list ?q ! i = cq_at ?q i" using that by (simp add: cq_list_def)
    ultimately show ?thesis using cell [OF that] by (simp only:)
  qed
  then show ?thesis by (intro nth_equalityI) (auto simp: size)
qed

interpretation cq: bounded_fifo cq_list cq_push_back cq_capacity cq_inv
  by unfold_locales (auto simp: cq_list_push cq_capacity_push cq_inv_push cq_size_bound)

lemma cq_pop_list: "cq_inv q \<Longrightarrow> \<not> cq_empty q \<Longrightarrow> cq_list (cq_pop_front q) = tl (cq_list q)"
proof -
  assume inv: "cq_inv q" and ne: "\<not> cq_empty q"
  have size: "cq_size (cq_pop_front q) = cq_size q - 1"
    using inv ne by (auto simp: cq_inv_def cq_empty_def cq_size_def cq_pop_front_def mod_Suc_wrap split: if_splits)
  have "cq_at (cq_pop_front q) i = cq_at q (Suc i)" for i
    by (simp add: cq_at_def cq_pop_front_def mod_simps)
  then show ?thesis
    by (intro nth_equalityI) (auto simp: size cq_list_def nth_tl)
qed

lemma cq_inv_pop: "cq_inv q \<Longrightarrow> \<not> cq_empty q \<Longrightarrow> cq_inv (cq_pop_front q)"
  by (auto simp: cq_inv_def cq_pop_front_def cq_empty_def split: if_splits)

lemma cq_front_hd: "cq_inv q \<Longrightarrow> \<not> cq_empty q \<Longrightarrow> cq_front q = hd (cq_list q)"
proof -
  assume "cq_inv q" "\<not> cq_empty q"
  then have "cq_size q \<noteq> 0" "cq_head q < cq_max_items q"
    by (auto simp: cq_size_0_iff cq_inv_def cq_empty_def split: if_splits)
  then show ?thesis by (simp add: cq_front_def cq_list_def hd_map cq_at_def)
qed

end
