(* ===== verification/Tui_State.thy ===== *)
theory Tui_State
  imports Byte_Order Bounded_Fifo
begin

text \<open>
  The state of the text interface (\<open>CS2RemoteConsole-client/src/tui/tui.h\<close>): its structs,
  the fields of class \<open>TUI\<close>, the constructor, and the curses library as a parameter.

  Curses is not code of the repository: what it answers (sizes, colour counts, windows) is
  the record \<open>curses\<close>, which operations take as an argument, and what the code tells it
  to do is appended to the trace \<open>tui_out\<close>. The record is extensible, so that the log file
  can sit next to it. \<open>m_running\<close> is the flag \<open>applicationRunning\<close> it refers to.
\<close>

type_synonym short = "16 word"

definition APPLICATION_SPECIAL_CHANNEL_ID :: int where
  "APPLICATION_SPECIAL_CHANNEL_ID = -1337"

definition MAX_CONSOLE_MESSAGES :: nat where "MAX_CONSOLE_MESSAGES = 10000"
definition MOUSE_SCROLL_SPEED :: int where "MOUSE_SCROLL_SPEED = 3"
definition EXTENDED_COLOR_BASE :: int where "EXTENDED_COLOR_BASE = 256"

record ConsoleChannel =
  cc_name :: string
  cc_color :: u32
  cc_colorPairId :: short

record ConsoleMessage =
  cm_channelId :: int
  cm_color :: u32
  cm_message :: string
  cm_timestamp :: int

record window =
  win_rows :: int
  win_cols :: int
  win_y :: int
  win_x :: int

text \<open>The calls that draw, in the order the code makes them.\<close>

datatype pane = Console | Input

datatype curses_call =
    Initscr
  | Init_color int int int int
  | Color_content int
  | Init_pair short int int
  | Werase pane
  | Wattron short
  | Wattroff short
  | Mvwprintw pane int int string
  | Box pane
  | Wmove pane int int
  | Wnoutrefresh pane
  | Doupdate
  | Mvwin pane int int
  | Delwin window
  | Endwin
  | Refresh
  | Clear
  | Mousemask bool

record curses =
  curses_COLORS :: int
  curses_COLOR_PAIRS :: int
  curses_can_change_color :: bool
  curses_stdscr :: "int \<times> int"
  curses_newwin :: "int \<Rightarrow> int \<Rightarrow> int \<Rightarrow> int \<Rightarrow> window option"
  curses_wresize :: "window \<Rightarrow> int \<Rightarrow> int \<Rightarrow> window"

record tui =
  m_colorCache :: "u64 \<rightharpoonup> short"
  m_nextColorPairId :: short
  m_nextColorId :: int
  m_useExtendedColors :: bool
  m_consoleWindow :: "window option"
  m_inputWindow :: "window option"
  m_consoleMessages :: "ConsoleMessage list"
  m_channels :: "int \<rightharpoonup> ConsoleChannel"
  m_inputBuffer :: string
  m_running :: bool
  m_needsResize :: bool
  m_lastWidth :: int
  m_lastHeight :: int
  m_scrollPosition :: nat
  m_consoleDirty :: bool
  m_lastUpdate :: int
  tui_out :: "curses_call list"

text \<open>
  The constructor. \<open>m_useExtendedColors\<close> is not initialised by it; \<open>init\<close> sets the field
  before anything reads it.
\<close>

definition TUI_new :: "bool \<Rightarrow> bool \<Rightarrow> tui" where
  "TUI_new runningFlag uninit =
     \<lparr>m_colorCache = Map.empty, m_nextColorPairId = 1, m_nextColorId = 1,
      m_useExtendedColors = uninit, m_consoleWindow = None, m_inputWindow = None,
      m_consoleMessages = [], m_channels = Map.empty, m_inputBuffer = '''',
      m_running = runningFlag, m_needsResize = False, m_lastWidth = 0, m_lastHeight = 0,
      m_scrollPosition = 0, m_consoleDirty = False, m_lastUpdate = 0, tui_out = []\<rparr>"

definition emit :: "curses_call list \<Rightarrow> 'a tui_scheme \<Rightarrow> 'a tui_scheme" where
  "emit cs t = t\<lparr>tui_out := tui_out t @ cs\<rparr>"

text \<open>\<open>getmaxy\<close> of a window, \<open>ERR\<close> for a null pointer.\<close>

definition getmaxy :: "window option \<Rightarrow> int" where
  "getmaxy w = (case w of None \<Rightarrow> -1 | Some win \<Rightarrow> win_rows win)"

end
