(* ===== verification/Tui_Color.thy ===== *)
theory Tui_Color
  imports Complex_Main Tui_State
begin

text \<open>
  Colours of the text interface: \<open>mapTo256Color\<close>, \<open>initializeColor\<close> and
  \<open>registerChannel\<close> of \<open>CS2RemoteConsole-client/src/tui/tui.cpp\<close>.

  The rounding of \<open>mapTo256Color\<close> is done over the rationals; no argument of its \<open>round\<close>
  is near a tie, so the \<open>double\<close> computation of the source gives the same integers.
\<close>

section \<open>The operations\<close>

definition color_byte :: "nat \<Rightarrow> u32 \<Rightarrow> int" where
  "color_byte n color = uint (drop_bit n color AND 0xFF)"

definition cround :: "rat \<Rightarrow> int" where
  "cround x = (if x \<ge> 0 then \<lfloor>x + 1 / 2\<rfloor> else - \<lfloor>- x + 1 / 2\<rfloor>)"

definition mapTo256Color :: "u32 \<Rightarrow> short" where
  "mapTo256Color color =
     (let r = color_byte 16 color; g = color_byte 8 color; b = color_byte 0 color in
      if r = g \<and> g = b then
        if r < 8 then 16
        else if r > 248 then 231
        else of_int (cround ((of_int (r - 8) / 247) * 24) + 232)
      else of_int (16 + 36 * cround (of_int r / 255 * 5)
                      + 6 * cround (of_int g / 255 * 5)
                      + cround (of_int b / 255 * 5)))"

definition combinedColor :: "u32 \<Rightarrow> u32 \<Rightarrow> u64" where
  "combinedColor color backgroundColor =
     push_bit 32 (ucast color) OR (ucast backgroundColor AND 0xFFFFFFFF)"

definition initializeColor :: "u32 \<Rightarrow> u32 \<Rightarrow> 'a tui_scheme \<Rightarrow> short \<times> 'a tui_scheme" where
  "initializeColor color backgroundColor t =
     (let key = combinedColor color backgroundColor;
          r = color_byte 24 color; g = color_byte 16 color; b = color_byte 8 color;
          br = color_byte 24 backgroundColor; bg = color_byte 16 backgroundColor;
          bb = color_byte 8 backgroundColor
      in case m_colorCache t key of
           None \<Rightarrow>
             let colorPairId = m_nextColorPairId t;
                 t = t\<lparr>m_nextColorPairId := m_nextColorPairId t + 1\<rparr>;
                 t = (if m_useExtendedColors t then
                        let colorNumber = EXTENDED_COLOR_BASE + m_nextColorId t;
                            t = t\<lparr>m_nextColorId := m_nextColorId t + 1\<rparr>;
                            (bColorNumber, t) =
                              (if backgroundColor \<noteq> 0
                               then (EXTENDED_COLOR_BASE + m_nextColorId t,
                                     t\<lparr>m_nextColorId := m_nextColorId t + 1\<rparr>)
                               else (-1, t))
                        in emit [Init_color colorNumber (r * 1000 div 255) (g * 1000 div 255) (b * 1000 div 255),
                                 Init_color bColorNumber (br * 1000 div 255) (bg * 1000 div 255) (bb * 1000 div 255),
                                 Color_content colorNumber,
                                 Init_pair colorPairId colorNumber bColorNumber] t
                      else
                        let nearestColor = sint (mapTo256Color color);
                            bNearestColor = (if backgroundColor \<noteq> 0
                                             then sint (mapTo256Color backgroundColor) else -1)
                        in emit [Init_pair colorPairId nearestColor bNearestColor] t);
                 t = t\<lparr>m_colorCache := (m_colorCache t)(key \<mapsto> colorPairId)\<rparr>
             in (colorPairId, t)
         | Some colorPairId \<Rightarrow> (colorPairId, t))"

text \<open>
  \<open>registerChannel\<close> looks the bare colour up in the cache before it allocates. \<open>warn\<close> is
  the effect of \<open>spdlog::warn\<close>, which comes back to the interface through its log sink.
\<close>

definition registerChannel ::
  "curses \<Rightarrow> (string \<Rightarrow> 'a tui_scheme \<Rightarrow> 'a tui_scheme) \<Rightarrow> int \<Rightarrow> string \<Rightarrow> u32 \<Rightarrow> u32
     \<Rightarrow> 'a tui_scheme \<Rightarrow> 'a tui_scheme" where
  "registerChannel env warn chanId name color backgroundColor t =
     (let (colorPairId, t) =
        (if color \<noteq> 0 then
           case m_colorCache t (ucast color) of
             None \<Rightarrow>
               if sint (m_nextColorPairId t) < curses_COLOR_PAIRS env
               then initializeColor color backgroundColor t
               else (0, warn (''[TUI] Ran out of color pairs. Using default color for channel: '' @ name) t)
           | Some pair \<Rightarrow> (pair, t)
         else (0, t))
      in t\<lparr>m_channels := (m_channels t)(chanId \<mapsto>
             \<lparr>cc_name = name, cc_color = color, cc_colorPairId = colorPairId\<rparr>)\<rparr>)"

section \<open>The 256-colour palette\<close>

lemma color_byte_range: "0 \<le> color_byte n c \<and> color_byte n c \<le> 255"
proof -
  have "drop_bit n c AND 0xFF = take_bit 8 (drop_bit n c)"
    by (simp add: take_bit_eq_mask mask_eq_exp_minus_1)
  moreover have "uint (take_bit 8 (drop_bit n c)) < 2 ^ 8"
    using take_bit_int_less_exp [of 8 "uint (drop_bit n c)"] by (simp add: unsigned_take_bit_eq)
  ultimately show ?thesis by (simp add: color_byte_def)
qed

lemma cround_bounds: "0 \<le> x \<Longrightarrow> x \<le> of_int n \<Longrightarrow> 0 \<le> cround x \<and> cround x \<le> n"
proof -
  assume x: "0 \<le> x" "x \<le> of_int n"
  have "\<lfloor>x + 1 / 2\<rfloor> \<le> \<lfloor>of_int n + 1 / 2 :: rat\<rfloor>" using x by (intro floor_mono) simp
  also have "\<dots> = n" by (simp add: floor_eq_iff)
  finally show ?thesis using x by (simp add: cround_def)
qed

lemma cround_channel: "0 \<le> c \<Longrightarrow> c \<le> 255 \<Longrightarrow> 0 \<le> cround (of_int c / 255 * 5) \<and> cround (of_int c / 255 * 5) \<le> 5"
  by (rule cround_bounds) simp_all

text \<open>
  \<open>mapTo256Color\<close> always answers a palette index between 16 and 255, for every 32-bit
  colour: a grey is sent to 16, to 231 or to the grey ramp 232 to 255, any other colour
  to the 6x6x6 cube 16 to 231; so the narrowing to \<open>short\<close> never changes the value.
\<close>

theorem mapTo256Color_palette:
  "16 \<le> sint (mapTo256Color c)
   \<and> sint (mapTo256Color c)
       \<le> (if color_byte 16 c = color_byte 8 c \<and> color_byte 8 c = color_byte 0 c then 255 else 231)"
proof -
  let ?r = "color_byte 16 c" let ?g = "color_byte 8 c" let ?b = "color_byte 0 c"
  have si: "sint (of_int k :: short) = k" if "0 \<le> k" "k \<le> 255" for k
    using that by (simp add: signed_of_int signed_take_bit_int_eq_self)
  have grey: "0 \<le> cround ((of_int (?r - 8) / 247) * 24) \<and> cround ((of_int (?r - 8) / 247) * 24) \<le> 23"
    if "8 \<le> ?r" "?r \<le> 248"
  proof -
    have "(of_int (?r - 8) :: rat) \<le> of_int 240" using that by (simp only: of_int_le_iff)
    then have "(of_int (?r - 8) / 247 * 24 :: rat) + 1 / 2 < 24" by (simp add: field_simps)
    then have "\<lfloor>(of_int (?r - 8) / 247 * 24 :: rat) + 1 / 2\<rfloor> < 24" by (simp add: floor_less_iff)
    then show ?thesis using that by (simp add: cround_def)
  qed
  have cube: "0 \<le> cround (of_int k / 255 * 5) \<and> cround (of_int k / 255 * 5) \<le> 5"
    if "k \<in> {?r, ?g, ?b}" for k
    using that color_byte_range cround_channel by blast
  let ?cr = "\<lambda>k. cround (of_int k / 255 * 5)"
  define index where "index =
    (if ?r = ?g \<and> ?g = ?b then
       if ?r < 8 then 16 else if ?r > 248 then 231
       else cround ((of_int (?r - 8) / 247) * 24) + 232
     else 16 + 36 * ?cr ?r + 6 * ?cr ?g + ?cr ?b)"
  have "16 \<le> index \<and> index \<le> 255 \<and> (\<not> (?r = ?g \<and> ?g = ?b) \<longrightarrow> index \<le> 231)"
    using grey cube [of ?r] cube [of ?g] cube [of ?b]
    unfolding index_def by (simp only: if_split_asm split: if_split) (linarith | auto)+
  moreover have "mapTo256Color c = of_int index"
    unfolding mapTo256Color_def Let_def index_def by (simp only: if_distrib [of "of_int :: int \<Rightarrow> short"] of_int_numeral)
  ultimately show ?thesis by (simp add: si)
qed

section \<open>The colour cache\<close>

text \<open>The cache key packs the two colours side by side, so it determines both.\<close>

lemma drop_bit_combinedColor: "drop_bit 32 (combinedColor c b) = ucast c"
  by (rule bit_word_eqI) (auto simp: combinedColor_def bit_simps dest: bit_imp_le_length)

lemma take_bit_combinedColor: "take_bit 32 (combinedColor c b) = ucast b"
proof -
  have "(0xFFFFFFFF :: u64) = mask 32" by (simp add: mask_eq_exp_minus_1)
  then have "combinedColor c b = push_bit 32 (ucast c) OR (ucast b AND mask 32)"
    by (simp add: combinedColor_def)
  moreover have "n < 32" if "bit b n" for n using bit_imp_le_length [OF that] by simp
  ultimately show ?thesis by (auto intro!: bit_word_eqI simp: bit_simps)
qed

lemma ucast_u32_u64_eq [simp]: "(ucast (a :: u32) :: u64) = ucast b \<longleftrightarrow> a = b"
proof -
  have "uint (ucast w :: u64) = uint w" for w :: u32 by (simp add: uint_up_ucast is_up)
  then show ?thesis by (metis word_uint_eqI)
qed

lemma combinedColor_inject [simp]: "combinedColor c b = combinedColor c' b' \<longleftrightarrow> c = c' \<and> b = b'"
  by (metis drop_bit_combinedColor take_bit_combinedColor ucast_u32_u64_eq)

text \<open>
  The invariant of the cache: every key comes from a nonzero foreground colour, and the pair
  numbers handed out so far are 1, 2, ... without repetition.
\<close>

definition color_inv :: "'a tui_scheme \<Rightarrow> bool" where
  "color_inv t \<longleftrightarrow>
     (\<forall>k \<in> dom (m_colorCache t). drop_bit 32 k \<noteq> 0)
     \<and> inj_on (m_colorCache t) (dom (m_colorCache t))
     \<and> (\<forall>p \<in> ran (m_colorCache t). 0 < sint p \<and> sint p < sint (m_nextColorPairId t))
     \<and> 0 < sint (m_nextColorPairId t)"

lemma color_inv_new [simp]: "color_inv (TUI_new b u)"
  by (simp add: color_inv_def TUI_new_def)

lemma initializeColor_hit:
  "m_colorCache t (combinedColor c b) = Some p \<Longrightarrow> initializeColor c b t = (p, t)"
  by (simp add: initializeColor_def)

lemma initializeColor_miss:
  assumes "m_colorCache t (combinedColor c b) = None"
  shows "fst (initializeColor c b t) = m_nextColorPairId t"
    and "m_nextColorPairId (snd (initializeColor c b t)) = m_nextColorPairId t + 1"
    and "m_colorCache (snd (initializeColor c b t))
           = (m_colorCache t)(combinedColor c b \<mapsto> m_nextColorPairId t)"
  using assms by (simp_all add: initializeColor_def emit_def Let_def)

text \<open>Allocating a colour touches nothing but the cache, its counters and the screen.\<close>

lemma initializeColor_frame [frame_simps, simp]:
  "m_consoleMessages (snd (initializeColor c b t)) = m_consoleMessages t"
  "m_channels (snd (initializeColor c b t)) = m_channels t"
  "m_scrollPosition (snd (initializeColor c b t)) = m_scrollPosition t"
  "m_inputBuffer (snd (initializeColor c b t)) = m_inputBuffer t"
  "m_consoleWindow (snd (initializeColor c b t)) = m_consoleWindow t"
  "m_inputWindow (snd (initializeColor c b t)) = m_inputWindow t"
  "m_running (snd (initializeColor c b t)) = m_running t"
  "m_consoleDirty (snd (initializeColor c b t)) = m_consoleDirty t"
  "tui.more (snd (initializeColor c b t)) = tui.more t"
  by (simp_all add: initializeColor_def emit_def Let_def split: option.split)

lemma sint_plus_one: "sint (p :: short) < 32767 \<Longrightarrow> sint (p + 1) = sint p + 1"
proof -
  assume p: "sint p < 32767"
  have "-32768 \<le> sint p" using sint_ge [of p] by simp
  then have "signed_take_bit 15 (sint p + 1) = sint p + 1"
    using p by (intro signed_take_bit_int_eq_self) auto
  then show ?thesis by (simp add: sint_word_ariths(1))
qed

lemma color_inv_initializeColor:
  assumes inv: "color_inv t" and c: "c \<noteq> 0" and room: "sint (m_nextColorPairId t) < 32767"
  shows "color_inv (snd (initializeColor c b t))"
proof (cases "m_colorCache t (combinedColor c b)")
  case None
  let ?m = "m_colorCache t" let ?n = "m_nextColorPairId t" let ?k = "combinedColor c b"
  have "?n \<notin> ran ?m" using inv by (auto simp: color_inv_def)
  then have fresh: "?m k \<noteq> Some ?n" for k by (auto simp: ran_def)
  have key: "drop_bit 32 ?k \<noteq> 0" using c ucast_u32_u64_eq [of c 0] by (simp add: drop_bit_combinedColor del: ucast_u32_u64_eq)
  have inj: "inj_on (?m(?k \<mapsto> ?n)) (dom (?m(?k \<mapsto> ?n)))"
    using inv fresh None unfolding color_inv_def inj_on_def by (auto simp: dom_def)
  have "ran (?m(?k \<mapsto> ?n)) = insert ?n (ran ?m)" using None by simp
  then show ?thesis
    using inv inj key unfolding color_inv_def
    by (auto simp: initializeColor_miss [OF None] sint_plus_one [OF room] simp del: fun_upd_apply)
next
  case (Some p)
  with inv show ?thesis by (simp add: initializeColor_hit)
qed

section \<open>Properties of the colours\<close>

lemma color_inv_key_nonzero:
  "color_inv t \<Longrightarrow> m_colorCache t (combinedColor c b) = Some p \<Longrightarrow> c \<noteq> 0"
proof
  assume a: "color_inv t" "m_colorCache t (combinedColor c b) = Some p" "c = 0"
  then have "drop_bit 32 (combinedColor c b) \<noteq> 0" unfolding color_inv_def by blast
  then show False using a(3) by (simp add: drop_bit_combinedColor)
qed

lemma drop_bit_32_ucast: "drop_bit 32 (ucast (c :: u32) :: u64) = 0"
proof -
  have "\<not> bit c (32 + n)" for n using bit_imp_le_length [of c "32 + n"] by auto
  then show ?thesis by (auto intro!: bit_word_eqI simp: bit_simps)
qed

text \<open>The lookup by bare colour in \<open>registerChannel\<close> can never hit.\<close>

lemma bare_color_not_cached: "color_inv t \<Longrightarrow> m_colorCache t (ucast (c :: u32)) = None"
proof (rule ccontr)
  assume inv: "color_inv t" and "m_colorCache t (ucast c) \<noteq> None"
  then have "(ucast c :: u64) \<in> dom (m_colorCache t)" by blast
  with inv have "drop_bit 32 (ucast c :: u64) \<noteq> 0" unfolding color_inv_def by blast
  then show False by (simp add: drop_bit_32_ucast)
qed

text \<open>
  One pair per colour. While the pair counter has not run through the positive
  \<open>short\<close>s, the pair that a nonzero colour on a background gets is positive, asking for it
  again gives the same pair and changes nothing, every other combination of colour and
  background gets a different pair, and the cache invariant is kept.
\<close>

theorem initializeColor_one_pair_per_color:
  assumes "color_inv t" and "c \<noteq> 0" and "sint (m_nextColorPairId t) < 32767"
    and "initializeColor c b t = (p, t')"
  shows "0 < sint p \<and> initializeColor c b t' = (p, t') \<and> color_inv t'
    \<and> (\<forall>c' b'. (c', b') = (c, b) \<or> fst (initializeColor c' b' t') \<noteq> p)"
proof -
  have inv': "color_inv t'" using color_inv_initializeColor [OF assms(1-3), of b] assms(4) by simp
  have cached: "m_colorCache t' (combinedColor c b) = Some p"
    using assms(4) initializeColor_hit [of t c b] initializeColor_miss [of t c b]
    by (cases "m_colorCache t (combinedColor c b)") auto
  then have "p \<in> ran (m_colorCache t')" by (auto simp: ran_def)
  with inv' have p: "0 < sint p" "sint p < sint (m_nextColorPairId t')"
    unfolding color_inv_def by blast+
  have other: "fst (initializeColor c' b' t') \<noteq> p" if "(c', b') \<noteq> (c, b)" for c' b'
  proof (cases "m_colorCache t' (combinedColor c' b')")
    case None
    then show ?thesis using p by (auto simp: initializeColor_miss)
  next
    case (Some q)
    have "q \<noteq> p"
    proof
      assume "q = p"
      with Some cached inv' have "combinedColor c' b' = combinedColor c b"
        unfolding color_inv_def inj_on_def by (metis domI)
      then show False using that by simp
    qed
    with Some show ?thesis by (simp add: initializeColor_hit)
  qed
  show ?thesis using p inv' other initializeColor_hit [OF cached] by blast
qed

theorem initializeColor_one_pair_per_color_witness:
  "0 < sint (fst (initializeColor 0xFF0000FF 0 (TUI_new True False)))
   \<and> fst (initializeColor 0x00FF00FF 0 (snd (initializeColor 0xFF0000FF 0 (TUI_new True False))))
       \<noteq> fst (initializeColor 0xFF0000FF 0 (TUI_new True False))"
proof -
  have "sint (m_nextColorPairId (TUI_new True False)) < 32767" by (simp add: TUI_new_def)
  from initializeColor_one_pair_per_color
    [OF color_inv_new _ this surjective_pairing, of "0xFF0000FF" 0, THEN conjunct2, THEN conjunct2, THEN conjunct2,
     THEN spec, of "0x00FF00FF", THEN spec, of 0]
    initializeColor_one_pair_per_color
      [OF color_inv_new _ this surjective_pairing, of "0xFF0000FF" 0, THEN conjunct1]
  show ?thesis by simp
qed

text \<open>
  A full colour table hides colours that are there. Once the pair counter has reached
  the terminal's \<open>COLOR_PAIRS\<close>, \<open>registerChannel\<close> gives every new channel the default pair 0,
  also when the channel's colour and background already have a pair in the cache, since it
  looks up the bare colour and the keys of the cache carry the colour in their high half.
\<close>

theorem registerChannel_full_table_ignores_cache:
  assumes "color_inv t" and "m_colorCache t (combinedColor color backgroundColor) = Some p"
    and "curses_COLOR_PAIRS env \<le> sint (m_nextColorPairId t)"
  shows "m_channels (registerChannel env warn chanId name color backgroundColor t) chanId
           = Some \<lparr>cc_name = name, cc_color = color, cc_colorPairId = 0\<rparr>
         \<and> fst (initializeColor color backgroundColor t) = p \<and> p \<noteq> 0"
proof -
  have "0 < sint p" using assms(1,2) unfolding color_inv_def ran_def by blast
  then have "p \<noteq> 0" by auto
  moreover have "color \<noteq> 0" by (rule color_inv_key_nonzero [OF assms(1,2)])
  ultimately show ?thesis
    using assms bare_color_not_cached [OF assms(1)]
    by (simp add: registerChannel_def initializeColor_hit)
qed

definition small_terminal :: curses where
  "small_terminal =
     \<lparr>curses_COLORS = 8, curses_COLOR_PAIRS = 2, curses_can_change_color = False,
      curses_stdscr = (24, 80), curses_newwin = (\<lambda>h w y x. Some \<lparr>win_rows = h, win_cols = w, win_y = y, win_x = x\<rparr>),
      curses_wresize = (\<lambda>w h c. w\<lparr>win_rows := h, win_cols := c\<rparr>)\<rparr>"

theorem registerChannel_full_table_ignores_cache_witness:
  "m_channels (registerChannel small_terminal (\<lambda>_ t. t) 2 ''b'' 0xFF0000FF 0
      (registerChannel small_terminal (\<lambda>_ t. t) 1 ''a'' 0xFF0000FF 0 (TUI_new True False))) 2
    = Some \<lparr>cc_name = ''b'', cc_color = 0xFF0000FF, cc_colorPairId = 0\<rparr>"
proof -
  let ?t = "registerChannel small_terminal (\<lambda>_ t. t) 1 ''a'' 0xFF0000FF 0 (TUI_new True False)"
  let ?u = "snd (initializeColor 0xFF0000FF 0 (TUI_new True False))"
  have room: "sint (m_nextColorPairId (TUI_new True False)) < 32767" by (simp add: TUI_new_def)
  have none: "m_colorCache (TUI_new True False) = Map.empty" by (simp add: TUI_new_def)
  have t: "?t = ?u\<lparr>m_channels := (m_channels ?u)(1 \<mapsto> \<lparr>cc_name = ''a'', cc_color = 0xFF0000FF,
      cc_colorPairId = 1\<rparr>)\<rparr>"
    by (simp add: registerChannel_def none small_terminal_def initializeColor_miss split: prod.split)
      (simp add: TUI_new_def initializeColor_def emit_def Let_def)
  have "color_inv ?u" by (rule color_inv_initializeColor) (simp_all add: room)
  then have "color_inv ?t" by (simp add: t color_inv_def)
  moreover have "m_colorCache ?t (combinedColor 0xFF0000FF 0) = Some 1"
    by (simp add: t initializeColor_miss none) (simp add: TUI_new_def)
  moreover have "curses_COLOR_PAIRS small_terminal \<le> sint (m_nextColorPairId ?t)"
    unfolding t by (simp add: initializeColor_miss none) (simp add: TUI_new_def small_terminal_def)
  ultimately show ?thesis using registerChannel_full_table_ignores_cache by blast
qed

text \<open>
  Without extended colours the red byte of an RGBA colour is lost. \<open>initializeColor\<close>
  reads red from the top byte, but the palette index of \<open>mapTo256Color\<close> does not depend on
  it: it takes green, blue and alpha for red, green and blue. Opaque pure red is shown as
  palette colour 21, pure blue.
\<close>

theorem mapTo256Color_ignores_red_byte:
  "mapTo256Color (take_bit 24 color OR push_bit 24 red) = mapTo256Color color
   \<and> mapTo256Color 0xFF0000FF = 21"
proof -
  have "color_byte n (take_bit 24 color OR push_bit 24 red) = color_byte n color" if "n \<le> 16" for n
  proof -
    have m: "(0xFF :: u32) = mask 8" by (simp add: mask_eq_exp_minus_1)
    have "drop_bit n (take_bit 24 color OR push_bit 24 red) AND mask 8 = drop_bit n color AND mask 8"
      using that by (auto intro!: bit_word_eqI simp: bit_simps)
    then show ?thesis by (simp add: color_byte_def m del: mask_numeral)
  qed
  then have low: "mapTo256Color (take_bit 24 color OR push_bit 24 red) = mapTo256Color color"
    by (simp add: mapTo256Color_def)
  have "color_byte 16 0xFF0000FF = 0" "color_byte 8 0xFF0000FF = 0" "color_byte 0 0xFF0000FF = 255"
    by (simp_all add: color_byte_def)
  moreover have "\<lfloor>1 / 2 :: rat\<rfloor> = 0" "\<lfloor>11 / 2 :: rat\<rfloor> = 5" by (simp_all add: floor_eq_iff)
  ultimately have "mapTo256Color 0xFF0000FF = 21" by (simp add: mapTo256Color_def cround_def Let_def)
  with low show ?thesis by blast
qed

end
