(* ===== verification/Spdlog.thy ===== *)
theory Spdlog
  imports Bounded_Fifo
begin

text \<open>
  The part of spdlog (\<open>CS2RemoteConsole-client/include/spdlog\<close>) the client runs on every
  log call: levels (\<open>common.h\<close>, \<open>common-inl.h\<close>), sinks (\<open>sinks/sink-inl.h\<close>,
  \<open>sinks/base_sink-inl.h\<close>, \<open>sinks/callback_sink.h\<close>), the backtrace buffer
  (\<open>details/backtracer-inl.h\<close>) and the logger (\<open>logger.h\<close>, \<open>logger-inl.h\<close>).

  A sink is its level and what it does to the state \<open>'s\<close> of the program; payloads are
  already formatted strings, sinks that throw are not modelled.
\<close>

section \<open>Levels\<close>

datatype level = Trace | Debug | Info | Warn | Err | Critical | Off

fun level_num :: "level \<Rightarrow> nat" where
  "level_num Trace = 0"
| "level_num Debug = 1"
| "level_num Info = 2"
| "level_num Warn = 3"
| "level_num Err = 4"
| "level_num Critical = 5"
| "level_num Off = 6"

lemma level_num_inject: "level_num a = level_num b \<Longrightarrow> a = b"
  by (cases a; cases b) simp_all

text \<open>The comparisons \<open>msg_level >= level_\<close> are comparisons of the enum's integers.\<close>

instantiation level :: linorder
begin

definition less_eq_level :: "level \<Rightarrow> level \<Rightarrow> bool" where
  "less_eq_level a b \<longleftrightarrow> level_num a \<le> level_num b"

definition less_level :: "level \<Rightarrow> level \<Rightarrow> bool" where
  "less_level a b \<longleftrightarrow> level_num a < level_num b"

instance
  by standard (auto simp: less_eq_level_def less_level_def intro: level_num_inject)

end

definition level_string_views :: "string list" where
  "level_string_views =
     [''trace'', ''debug'', ''info'', ''warning'', ''error'', ''critical'', ''off'']"

definition to_string_view :: "level \<Rightarrow> string" where
  "to_string_view l = level_string_views ! level_num l"

definition level_of_num :: "nat \<Rightarrow> level" where
  "level_of_num n = [Trace, Debug, Info, Warn, Err, Critical, Off] ! n"

fun find_index :: "string \<Rightarrow> string list \<Rightarrow> nat" where
  "find_index x [] = 0"
| "find_index x (y # ys) = (if y = x then 0 else Suc (find_index x ys))"

definition level_from_str :: "string \<Rightarrow> level" where
  "level_from_str name =
     (let it = find_index name level_string_views in
      if it \<noteq> length level_string_views then level_of_num it
      else if name = ''warn'' then Warn
      else if name = ''err'' then Err
      else Off)"

text \<open>Every level is recovered from its name, and an unknown name switches logging off.\<close>

lemma level_from_to_string: "level_from_str (to_string_view l) = l"
  by (cases l) (simp_all add: level_from_str_def to_string_view_def level_string_views_def level_of_num_def)

section \<open>Messages and sinks\<close>

record log_msg =
  msg_logger_name :: string
  msg_level :: level
  msg_payload :: string

record 's sink =
  sink_level :: level
  sink_it :: "log_msg \<Rightarrow> 's \<Rightarrow> 's"
  sink_flush :: "'s \<Rightarrow> 's"

definition sink_should_log :: "'s sink \<Rightarrow> level \<Rightarrow> bool" where
  "sink_should_log sk lvl \<longleftrightarrow> lvl \<ge> sink_level sk"

definition sink_set_level :: "level \<Rightarrow> 's sink \<Rightarrow> 's sink" where
  "sink_set_level lvl sk = sk\<lparr>sink_level := lvl\<rparr>"

text \<open>\<open>base_sink::log\<close> and \<open>flush\<close> run the sink's own code under its mutex.\<close>

definition base_sink_log :: "'s sink \<Rightarrow> log_msg \<Rightarrow> 's \<Rightarrow> 's" where
  "base_sink_log sk msg s = sink_it sk msg s"

definition callback_sink :: "(log_msg \<Rightarrow> 's \<Rightarrow> 's) \<Rightarrow> 's sink" where
  "callback_sink callback = \<lparr>sink_level = Trace, sink_it = callback, sink_flush = (\<lambda>s. s)\<rparr>"

section \<open>The backtrace buffer\<close>

record backtracer =
  bt_enabled :: bool
  bt_messages :: "log_msg circular_q"

definition backtracer_new :: backtracer where
  "backtracer_new = \<lparr>bt_enabled = False, bt_messages = cq_disabled\<rparr>"

definition empty_msg :: log_msg where
  "empty_msg = \<lparr>msg_logger_name = '''', msg_level = Off, msg_payload = ''''\<rparr>"

definition bt_enable :: "nat \<Rightarrow> backtracer \<Rightarrow> backtracer" where
  "bt_enable n bt = bt\<lparr>bt_enabled := True, bt_messages := cq_new empty_msg n\<rparr>"

definition bt_disable :: "backtracer \<Rightarrow> backtracer" where
  "bt_disable bt = bt\<lparr>bt_enabled := False\<rparr>"

definition bt_push_back :: "log_msg \<Rightarrow> backtracer \<Rightarrow> backtracer" where
  "bt_push_back msg bt = bt\<lparr>bt_messages := cq_push_back msg (bt_messages bt)\<rparr>"

definition bt_empty :: "backtracer \<Rightarrow> bool" where
  "bt_empty bt = cq_empty (bt_messages bt)"

text \<open>\<open>while (!messages_.empty()) { fun(front()); pop_front(); }\<close>; \<open>None\<close> would be no return.\<close>

partial_function (option) bt_foreach_pop ::
  "(log_msg \<Rightarrow> 's \<Rightarrow> 's) \<Rightarrow> log_msg circular_q \<Rightarrow> 's \<Rightarrow> (log_msg circular_q \<times> 's) option" where
  "bt_foreach_pop f q s =
     (if cq_empty q then Some (q, s)
      else bt_foreach_pop f (cq_pop_front q) (f (cq_front q) s))"

lemma bt_foreach_pop_returns:
  "cq_inv q \<Longrightarrow>
     \<exists>q'. bt_foreach_pop f q s = Some (q', fold f (cq_list q) s) \<and> cq_inv q' \<and> cq_list q' = []"
proof (induction "cq_size q" arbitrary: q s)
  case 0
  then have "cq_empty q" "cq_list q = []"
    by (simp_all add: cq_size_0_iff [symmetric] flip: length_cq_list length_0_conv)
  with 0 show ?case by (simp add: bt_foreach_pop.simps)
next
  case (Suc n)
  then have ne: "\<not> cq_empty q" by (metis cq_size_0_iff nat.distinct(1))
  have list: "cq_list q = cq_front q # cq_list (cq_pop_front q)"
    using Suc ne by (simp add: cq_front_hd cq_pop_list) (metis Suc.hyps(2) hd_Cons_tl length_cq_list list.size(3) nat.distinct(1))
  then have "n = cq_size (cq_pop_front q)" using Suc.hyps(2) by (simp flip: length_cq_list)
  from Suc.hyps(1) [OF this cq_inv_pop [OF Suc.prems ne], of "f (cq_front q) s"]
  show ?case using ne list by (subst bt_foreach_pop.simps) simp
qed

section \<open>The logger\<close>

record 's logger =
  logger_name :: string
  logger_sinks :: "'s sink list"
  logger_level :: level
  logger_flush_level :: level
  logger_tracer :: backtracer

text \<open>A logger made directly by its constructor: level \<open>info\<close>, no flush, no backtrace.\<close>

definition logger_new :: "string \<Rightarrow> 's sink list \<Rightarrow> 's logger" where
  "logger_new name sinks =
     \<lparr>logger_name = name, logger_sinks = sinks, logger_level = Info, logger_flush_level = Off,
      logger_tracer = backtracer_new\<rparr>"

definition should_log :: "'s logger \<Rightarrow> level \<Rightarrow> bool" where
  "should_log lg lvl \<longleftrightarrow> lvl \<ge> logger_level lg"

definition logger_set_level :: "level \<Rightarrow> 's logger \<Rightarrow> 's logger" where
  "logger_set_level lvl lg = lg\<lparr>logger_level := lvl\<rparr>"

definition logger_flush_on :: "level \<Rightarrow> 's logger \<Rightarrow> 's logger" where
  "logger_flush_on lvl lg = lg\<lparr>logger_flush_level := lvl\<rparr>"

definition logger_enable_backtrace :: "nat \<Rightarrow> 's logger \<Rightarrow> 's logger" where
  "logger_enable_backtrace n lg = lg\<lparr>logger_tracer := bt_enable n (logger_tracer lg)\<rparr>"

definition logger_disable_backtrace :: "'s logger \<Rightarrow> 's logger" where
  "logger_disable_backtrace lg = lg\<lparr>logger_tracer := bt_disable (logger_tracer lg)\<rparr>"

definition logger_clone :: "string \<Rightarrow> 's logger \<Rightarrow> 's logger" where
  "logger_clone name lg = lg\<lparr>logger_name := name\<rparr>"

definition logger_push_sink :: "'s sink \<Rightarrow> 's logger \<Rightarrow> 's logger" where
  "logger_push_sink sk lg = lg\<lparr>logger_sinks := logger_sinks lg @ [sk]\<rparr>"

definition should_flush :: "'s logger \<Rightarrow> log_msg \<Rightarrow> bool" where
  "should_flush lg msg \<longleftrightarrow> msg_level msg \<ge> logger_flush_level lg \<and> msg_level msg \<noteq> Off"

definition logger_flush :: "'s logger \<Rightarrow> 's \<Rightarrow> 's" where
  "logger_flush lg s = fold (\<lambda>sk. sink_flush sk) (logger_sinks lg) s"

definition logger_sink_it :: "'s logger \<Rightarrow> log_msg \<Rightarrow> 's \<Rightarrow> 's" where
  "logger_sink_it lg msg s =
     (let s1 = fold (\<lambda>sk. if sink_should_log sk (msg_level msg) then base_sink_log sk msg else (\<lambda>s. s))
                 (logger_sinks lg) s
      in if should_flush lg msg then logger_flush lg s1 else s1)"

definition logger_log_it :: "log_msg \<Rightarrow> bool \<Rightarrow> bool \<Rightarrow> 's logger \<Rightarrow> 's \<Rightarrow> 's logger \<times> 's" where
  "logger_log_it msg log_enabled traceback_enabled lg s =
     (let s1 = (if log_enabled then logger_sink_it lg msg s else s);
          lg1 = (if traceback_enabled then lg\<lparr>logger_tracer := bt_push_back msg (logger_tracer lg)\<rparr> else lg)
      in (lg1, s1))"

definition logger_log :: "level \<Rightarrow> string \<Rightarrow> 's logger \<Rightarrow> 's \<Rightarrow> 's logger \<times> 's" where
  "logger_log lvl payload lg s =
     (let log_enabled = should_log lg lvl;
          traceback_enabled = bt_enabled (logger_tracer lg)
      in if \<not> log_enabled \<and> \<not> traceback_enabled then (lg, s)
         else logger_log_it \<lparr>msg_logger_name = logger_name lg, msg_level = lvl, msg_payload = payload\<rparr>
                log_enabled traceback_enabled lg s)"

definition bt_msg :: "'s logger \<Rightarrow> string \<Rightarrow> log_msg" where
  "bt_msg lg text = \<lparr>msg_logger_name = logger_name lg, msg_level = Info, msg_payload = text\<rparr>"

definition bt_start :: string where
  "bt_start = ''****************** Backtrace Start ******************''"

definition bt_end :: string where
  "bt_end = ''****************** Backtrace End ********************''"

definition logger_dump_backtrace :: "'s logger \<Rightarrow> 's \<Rightarrow> ('s logger \<times> 's) option" where
  "logger_dump_backtrace lg s =
     (if bt_enabled (logger_tracer lg) \<and> \<not> bt_empty (logger_tracer lg) then
        let s1 = logger_sink_it lg (bt_msg lg bt_start) s in
        case bt_foreach_pop (logger_sink_it lg) (bt_messages (logger_tracer lg)) s1 of
          None \<Rightarrow> None
        | Some (q, s2) \<Rightarrow>
            let lg1 = lg\<lparr>logger_tracer := (logger_tracer lg)\<lparr>bt_messages := q\<rparr>\<rparr>
            in Some (lg1, logger_sink_it lg1 (bt_msg lg1 bt_end) s2)
      else Some (lg, s))"

section \<open>Properties of logging\<close>

lemma logger_log_sinks [simp]:
  "logger_sinks (fst (logger_log lvl p lg s)) = logger_sinks lg"
  "logger_level (fst (logger_log lvl p lg s)) = logger_level lg"
  "logger_name (fst (logger_log lvl p lg s)) = logger_name lg"
  "logger_flush_level (fst (logger_log lvl p lg s)) = logger_flush_level lg"
  "bt_enabled (logger_tracer (fst (logger_log lvl p lg s))) = bt_enabled (logger_tracer lg)"
  by (simp_all add: logger_log_def logger_log_it_def Let_def bt_push_back_def)

lemma logger_sink_it_tracer [simp]:
  "logger_sink_it (lg\<lparr>logger_tracer := t\<rparr>) = logger_sink_it lg"
  by (intro ext) (simp add: logger_sink_it_def logger_flush_def should_flush_def Let_def)

lemma logger_log_no_backtrace:
  "\<not> bt_enabled (logger_tracer lg) \<Longrightarrow>
     logger_log lvl p lg s =
       (lg, if should_log lg lvl
            then logger_sink_it lg \<lparr>msg_logger_name = logger_name lg, msg_level = lvl, msg_payload = p\<rparr> s
            else s)"
  by (simp add: logger_log_def logger_log_it_def Let_def)

fun log_all :: "(level \<times> string) list \<Rightarrow> 's logger \<Rightarrow> 's \<Rightarrow> 's logger \<times> 's" where
  "log_all [] lg s = (lg, s)"
| "log_all ((lvl, p) # ms) lg s = (case logger_log lvl p lg s of (lg1, s1) \<Rightarrow> log_all ms lg1 s1)"

definition to_msg :: "'s logger \<Rightarrow> level \<times> string \<Rightarrow> log_msg" where
  "to_msg lg m = \<lparr>msg_logger_name = logger_name lg, msg_level = fst m, msg_payload = snd m\<rparr>"

lemma log_all_suppressed:
  assumes "bt_enabled (logger_tracer lg)" "\<forall>m \<in> set ms. fst m < logger_level lg"
  shows "log_all ms lg s =
    (lg\<lparr>logger_tracer := (logger_tracer lg)\<lparr>bt_messages :=
        fold cq_push_back (map (to_msg lg) ms) (bt_messages (logger_tracer lg))\<rparr>\<rparr>, s)"
  using assms
proof (induction ms arbitrary: lg)
  case (Cons m ms)
  obtain lvl p where [simp]: "m = (lvl, p)" by fastforce
  have "logger_log lvl p lg s = (lg\<lparr>logger_tracer := bt_push_back (to_msg lg m) (logger_tracer lg)\<rparr>, s)"
    using Cons.prems by (auto simp: logger_log_def logger_log_it_def should_log_def to_msg_def Let_def)
  with Cons show ?case by (simp add: bt_push_back_def to_msg_def [abs_def])
qed simp

text \<open>
  The backtrace keeps the newest messages. After backtracing with room for \<open>n\<close> is
  switched on, messages below the logger's level reach no sink; a later dump returns (the
  loop over the circular buffer ends), sends the sinks exactly the last \<open>n\<close> of them in
  order between the two marker lines, and leaves the buffer empty.
\<close>

theorem backtrace_dump:
  assumes "\<forall>m \<in> set ms. fst m < logger_level lg" and "0 < n" and "ms \<noteq> []"
    and "log_all ms (logger_enable_backtrace n lg) s = (lg1, s1)"
  shows "s1 = s \<and>
    (\<exists>lg2. logger_dump_backtrace lg1 s1 =
       Some (lg2, fold (logger_sink_it lg)
         (bt_msg lg bt_start # lastn n (map (to_msg lg) ms) @ [bt_msg lg bt_end]) s)
       \<and> bt_empty (logger_tracer lg2))"
proof -
  let ?lg = "logger_enable_backtrace n lg"
  let ?q = "fold cq_push_back (map (to_msg lg) ms) (cq_new empty_msg n)"
  have to: "to_msg ?lg = to_msg lg" by (simp add: to_msg_def [abs_def] logger_enable_backtrace_def)
  have en: "bt_enabled (logger_tracer ?lg)" "bt_messages (logger_tracer ?lg) = cq_new empty_msg n"
    by (simp_all add: logger_enable_backtrace_def bt_enable_def)
  have "\<forall>m \<in> set ms. fst m < logger_level ?lg" using assms(1) by (simp add: logger_enable_backtrace_def)
  from log_all_suppressed [OF en(1) this, of s]
  have lg1: "lg1 = ?lg\<lparr>logger_tracer := (logger_tracer ?lg)\<lparr>bt_messages := ?q\<rparr>\<rparr>" and s1: "s1 = s"
    using assms(4) by (simp_all add: to en)
  have inv: "cq_inv ?q" by (rule cq.inv_pushes) simp
  have list: "cq_list ?q = lastn n (map (to_msg lg) ms)"
    using cq.content_pushes [of "cq_new empty_msg n" "map (to_msg lg) ms"] by simp
  then have "cq_size ?q \<noteq> 0" using assms(2,3) by (simp flip: length_cq_list)
  then have ne: "\<not> cq_empty ?q" using inv by (simp add: cq_size_0_iff)
  obtain q' where pop: "bt_foreach_pop (logger_sink_it lg1) ?q s' =
      Some (q' s', fold (logger_sink_it lg1) (cq_list ?q) s')" and q': "cq_inv (q' s')" "cq_list (q' s') = []" for s'
    using bt_foreach_pop_returns [OF inv] by metis
  have "cq_empty (q' s')" for s'
    using q' cq_size_0_iff [of "q' s'"] by (simp flip: length_cq_list)
  then show ?thesis
    using pop ne en(1) list s1
    by (auto simp: logger_dump_backtrace_def lg1 bt_empty_def Let_def bt_msg_def logger_enable_backtrace_def)
qed

definition sample_logger :: "log_msg list logger" where
  "sample_logger = logger_new ''app'' [callback_sink (\<lambda>m s. s @ [m])]"

theorem backtrace_dump_witness:
  "\<exists>lg1 lg2. log_all [(Debug, ''a''), (Trace, ''b''), (Debug, ''c'')] (logger_enable_backtrace 2 sample_logger) []
       = (lg1, [])
     \<and> logger_dump_backtrace lg1 [] = Some (lg2,
         [bt_msg sample_logger bt_start, to_msg sample_logger (Trace, ''b''),
          to_msg sample_logger (Debug, ''c''), bt_msg sample_logger bt_end])"
proof -
  let ?ms = "[(Debug, ''a''), (Trace, ''b''), (Debug, ''c'')]"
  obtain lg1 s1 where run: "log_all ?ms (logger_enable_backtrace 2 sample_logger) [] = (lg1, s1)"
    by fastforce
  have low: "\<forall>m \<in> set ?ms. fst m < logger_level sample_logger"
    by (simp add: sample_logger_def logger_new_def less_level_def)
  have "lastn 2 (map (to_msg sample_logger) ?ms) =
      [to_msg sample_logger (Trace, ''b''), to_msg sample_logger (Debug, ''c'')]"
    by (simp add: lastn_def)
  moreover have "logger_sink_it sample_logger m s = s @ [m]" if "msg_level m \<noteq> Off" for m s
    using that by (cases "msg_level m")
      (simp_all add: logger_sink_it_def sample_logger_def logger_new_def callback_sink_def
        sink_should_log_def base_sink_log_def should_flush_def less_eq_level_def Let_def)
  ultimately show ?thesis
    using backtrace_dump [OF low _ _ run] run by (auto simp: bt_msg_def to_msg_def)
qed

end
