(* ===== verification/Tui.thy ===== *)
theory Tui
  imports Tui_Color Spdlog
begin

text \<open>
  The text interface (\<open>CS2RemoteConsole-client/src/tui/tui.cpp\<close>): message history, scrolling,
  drawing, key handling, resizing and the event loop.

  Time is in nanoseconds and is an argument, the answer of \<open>wgetch\<close> is an optional \<open>key\<close>
  (\<open>None\<close> is \<open>ERR\<close>), and the command callback is an argument of the operations that may
  call it. Drawing on a null window makes curses answer \<open>ERR\<close>; no case of the code is
  undefined there.
\<close>

section \<open>Operations\<close>

definition clamp :: "int \<Rightarrow> int \<Rightarrow> int \<Rightarrow> int" where
  "clamp val low high = max low (min val high)"

definition addConsoleMessage :: "int \<Rightarrow> int \<Rightarrow> string \<Rightarrow> u32 \<Rightarrow> 'a tui_scheme \<Rightarrow> 'a tui_scheme" where
  "addConsoleMessage now channelId message msgColor t =
     (let cMessage = \<lparr>cm_channelId = channelId, cm_color = byteSwap32 msgColor,
                      cm_message = message, cm_timestamp = now\<rparr>;
          ms = m_consoleMessages t @ [cMessage];
          ms = (if length ms > MAX_CONSOLE_MESSAGES then tl ms else ms)
      in t\<lparr>m_consoleMessages := ms, m_consoleDirty := True\<rparr>)"

definition setConsoleDirty :: "bool \<Rightarrow> 'a tui_scheme \<Rightarrow> 'a tui_scheme" where
  "setConsoleDirty dirty t = t\<lparr>m_consoleDirty := dirty\<rparr>"

definition createWindows :: "curses \<Rightarrow> 'a tui_scheme \<Rightarrow> 'a tui_scheme" where
  "createWindows env t =
     (let (height, width) = curses_stdscr env in
      t\<lparr>m_consoleWindow := curses_newwin env (height - 3) width 0 0,
        m_inputWindow := curses_newwin env 3 width (height - 3) 0\<rparr>)"

definition tui_init :: "curses \<Rightarrow> 'a tui_scheme \<Rightarrow> 'a tui_scheme" where
  "tui_init env t =
     (let t = emit [Initscr, Mousemask True] t;
          t = t\<lparr>m_useExtendedColors :=
                  (curses_can_change_color env \<and> curses_COLORS env > EXTENDED_COLOR_BASE)\<rparr>;
          t = createWindows env t;
          (height, width) = curses_stdscr env
      in t\<lparr>m_lastHeight := height, m_lastWidth := width\<rparr>)"

definition destroyWindows :: "'a tui_scheme \<Rightarrow> 'a tui_scheme" where
  "destroyWindows t =
     (let t = (case m_consoleWindow t of None \<Rightarrow> t | Some w \<Rightarrow> emit [Delwin w] t)
      in case m_inputWindow t of None \<Rightarrow> t | Some w \<Rightarrow> emit [Delwin w] t)"

definition tui_shutdown :: "'a tui_scheme \<Rightarrow> 'a tui_scheme" where
  "tui_shutdown t = emit [Mousemask False, Endwin] (destroyWindows (t\<lparr>m_running := False\<rparr>))"

definition startIndex :: "'a tui_scheme \<Rightarrow> nat" where
  "startIndex t = nat (max 0 (int (length (m_consoleMessages t)) - getmaxy (m_consoleWindow t)
                                - int (m_scrollPosition t)))"

text \<open>
  One line of the console: its prefix, the pair of its channel or of its own colour, and the
  three calls that draw it.
\<close>

definition draw_line :: "nat \<Rightarrow> int \<Rightarrow> 'a tui_scheme \<Rightarrow> 'a tui_scheme" where
  "draw_line start i t =
     (let currentMessage = m_consoleMessages t ! (start + nat i);
          (prefix, colorPairId) =
            (case m_channels t (cm_channelId currentMessage) of
               Some channel \<Rightarrow> (''['' @ cc_name channel @ ''] '', cc_colorPairId channel)
             | None \<Rightarrow> (''[Unknown] '', 0));
          prefix = (if cm_channelId currentMessage = APPLICATION_SPECIAL_CHANNEL_ID then '''' else prefix);
          (colorPairId, t) =
            (if cm_color currentMessage \<noteq> 0 then initializeColor (cm_color currentMessage) 0 t
             else (colorPairId, t))
      in emit ((if colorPairId \<noteq> 0 then [Wattron colorPairId] else [])
               @ [Mvwprintw Console i 0 (c_str prefix @ c_str (cm_message currentMessage))]
               @ (if colorPairId \<noteq> 0 then [Wattroff colorPairId] else [])) t)"

function draw_lines :: "int \<Rightarrow> nat \<Rightarrow> int \<Rightarrow> 'a tui_scheme \<Rightarrow> 'a tui_scheme" where
  "draw_lines maxLines start i t =
     (if i < maxLines \<and> start + nat i < length (m_consoleMessages t)
      then draw_lines maxLines start (i + 1) (draw_line start i t)
      else t)"
  by pat_completeness auto
termination by (relation "measure (\<lambda>(maxLines, start, i, t). nat (maxLines - i))") auto

declare draw_lines.simps [simp del]

definition drawConsoleWindow :: "'a tui_scheme \<Rightarrow> 'a tui_scheme" where
  "drawConsoleWindow t =
     (let t = emit [Werase Console] t;
          maxLines = getmaxy (m_consoleWindow t);
          start = startIndex t
      in emit [Wnoutrefresh Console] (draw_lines maxLines start 0 t))"

definition drawInputWindow :: "'a tui_scheme \<Rightarrow> 'a tui_scheme" where
  "drawInputWindow t =
     emit [Werase Input, Box Input, Mvwprintw Input 0 2 '' Input '',
           Mvwprintw Input 1 1 (''> '' @ c_str (m_inputBuffer t)),
           Wmove Input 1 (int (length (m_inputBuffer t)) + 3), Wnoutrefresh Input] t"

definition updateInputWindow :: "'a tui_scheme \<Rightarrow> 'a tui_scheme" where
  "updateInputWindow t = emit [Doupdate] (drawInputWindow t)"

definition drawWindows :: "'a tui_scheme \<Rightarrow> 'a tui_scheme" where
  "drawWindows t = emit [Doupdate] (drawInputWindow (drawConsoleWindow t))"

definition scrollConsole :: "int \<Rightarrow> 'a tui_scheme \<Rightarrow> 'a tui_scheme" where
  "scrollConsole lines t =
     (let maxScroll = max 0 (int (length (m_consoleMessages t)) - getmaxy (m_consoleWindow t))
      in t\<lparr>m_scrollPosition := nat (clamp (int (m_scrollPosition t) + lines) 0 maxScroll),
           m_consoleDirty := True\<rparr>)"

text \<open>
  A key as \<open>wgetch\<close> reports it: a character code, or one of the \<open>KEY_\<close> constants the code
  tests; a mouse event carries what \<open>getmouse\<close> answers, whether buttons 4 and 5 are pressed.
\<close>

datatype key =
    Ch int
  | Key_backspace
  | Key_resize
  | Key_ppage
  | Key_npage
  | Key_mouse "(bool \<times> bool) option"
  | Key_other

definition backspace_key :: "'a tui_scheme \<Rightarrow> 'a tui_scheme" where
  "backspace_key t =
     (if m_inputBuffer t \<noteq> [] then updateInputWindow (t\<lparr>m_inputBuffer := butlast (m_inputBuffer t)\<rparr>)
      else t)"

definition enter_key ::
  "(string \<Rightarrow> 'a tui_scheme \<Rightarrow> 'a tui_scheme) option \<Rightarrow> int \<Rightarrow> 'a tui_scheme \<Rightarrow> 'a tui_scheme" where
  "enter_key commandCallback now t =
     (case commandCallback of
        Some callback \<Rightarrow>
          if m_inputBuffer t \<noteq> [] then
            let t = callback (m_inputBuffer t) t;
                t = addConsoleMessage now APPLICATION_SPECIAL_CHANNEL_ID (''> '' @ m_inputBuffer t) 0 t
            in updateInputWindow (t\<lparr>m_inputBuffer := []\<rparr>)
          else t
      | None \<Rightarrow> t)"

fun handleInput ::
  "(string \<Rightarrow> 'a tui_scheme \<Rightarrow> 'a tui_scheme) option \<Rightarrow> int \<Rightarrow> key option
     \<Rightarrow> 'a tui_scheme \<Rightarrow> 'a tui_scheme" where
  "handleInput commandCallback now None t = t"
| "handleInput commandCallback now (Some (Ch c)) t =
     (if c = 10 then enter_key commandCallback now t
      else if c = 127 \<or> c = 8 then backspace_key t
      else if c \<ge> 32 \<and> c \<le> 126
      then updateInputWindow (t\<lparr>m_inputBuffer := m_inputBuffer t @ [char_of (nat c)]\<rparr>)
      else t)"
| "handleInput commandCallback now (Some Key_backspace) t = backspace_key t"
| "handleInput commandCallback now (Some Key_resize) t = t\<lparr>m_needsResize := True\<rparr>"
| "handleInput commandCallback now (Some Key_ppage) t = scrollConsole (getmaxy (m_consoleWindow t)) t"
| "handleInput commandCallback now (Some Key_npage) t = scrollConsole (- getmaxy (m_consoleWindow t)) t"
| "handleInput commandCallback now (Some (Key_mouse None)) t = t"
| "handleInput commandCallback now (Some (Key_mouse (Some (button4, button5)))) t =
     (if button4 then scrollConsole MOUSE_SCROLL_SPEED t
      else if button5 then scrollConsole (- MOUSE_SCROLL_SPEED) t
      else t)"
| "handleInput commandCallback now (Some Key_other) t = t"

definition resizeWindows :: "curses \<Rightarrow> int \<Rightarrow> int \<Rightarrow> 'a tui_scheme \<Rightarrow> 'a tui_scheme" where
  "resizeWindows env height width t =
     (let t = t\<lparr>m_consoleWindow := map_option (\<lambda>w. curses_wresize env w (height - 3) width) (m_consoleWindow t)\<rparr>;
          t = emit [Mvwin Console 0 0] t;
          t = t\<lparr>m_inputWindow := map_option (\<lambda>w. curses_wresize env w 3 width) (m_inputWindow t)\<rparr>
      in emit [Mvwin Input (height - 3) 0] t)"

definition handleResize :: "curses \<Rightarrow> 'a tui_scheme \<Rightarrow> 'a tui_scheme" where
  "handleResize env t =
     (let t = emit [Endwin, Refresh, Clear] t;
          (height, width) = curses_stdscr env;
          t = resizeWindows env height width t
      in t\<lparr>m_lastHeight := height, m_lastWidth := width, m_consoleDirty := True\<rparr>)"

text \<open>
  One iteration of \<open>run\<close>: the screen, the key and the clock are what the calls of this
  iteration answer. The loop runs until the flag is cleared; \<open>tui_run\<close> takes the answers of
  successive iterations as a list and stops early when the list does.
\<close>

definition run_iteration ::
  "(string \<Rightarrow> 'a tui_scheme \<Rightarrow> 'a tui_scheme) option \<Rightarrow> curses \<times> key option \<times> int \<Rightarrow> 'a tui_scheme
     \<Rightarrow> 'a tui_scheme" where
  "run_iteration commandCallback inp t =
     (let (env, ch, now) = inp;
          t = (if m_needsResize t then (handleResize env t)\<lparr>m_needsResize := False\<rparr> else t);
          t = handleInput commandCallback now ch t
      in if m_consoleDirty t \<and> now - m_lastUpdate t \<ge> 16000000
         then (drawWindows t)\<lparr>m_consoleDirty := False, m_lastUpdate := now\<rparr>
         else t)"

fun tui_run ::
  "(string \<Rightarrow> 'a tui_scheme \<Rightarrow> 'a tui_scheme) option \<Rightarrow> (curses \<times> key option \<times> int) list
     \<Rightarrow> 'a tui_scheme \<Rightarrow> 'a tui_scheme" where
  "tui_run cb [] t = t"
| "tui_run cb (inp # inps) t = (if m_running t then tui_run cb inps (run_iteration cb inp t) else t)"

text \<open>The callback sink that shows log messages in the interface; \<open>clock\<close> reads the system clock.\<close>

definition tui_sink_callback :: "int \<Rightarrow> log_msg \<Rightarrow> 'a tui_scheme \<Rightarrow> 'a tui_scheme" where
  "tui_sink_callback now msg t =
     addConsoleMessage now APPLICATION_SPECIAL_CHANNEL_ID
       (''['' @ to_string_view (msg_level msg) @ ''] '' @ msg_payload msg) 0 t"

definition setupLoggerCallbackSink ::
  "('a tui_scheme \<Rightarrow> int) \<Rightarrow> 'a tui_scheme logger option \<Rightarrow> 'a tui_scheme logger option" where
  "setupLoggerCallbackSink clock defaultLogger =
     map_option (logger_push_sink (callback_sink (\<lambda>msg t. tui_sink_callback (clock t) msg t))) defaultLogger"

end
