(* ===== verification/Tui_History.thy ===== *)
theory Tui_History
  imports Tui
begin

text \<open>
  The message history and the console window: what is kept, what is on the screen, how far
  the view scrolls, and that a message that arrives is drawn.
\<close>

section \<open>The history\<close>

text \<open>The history is a bounded buffer: pushing the record a call of \<open>addConsoleMessage\<close> builds.\<close>

definition push_message :: "ConsoleMessage \<Rightarrow> 'a tui_scheme \<Rightarrow> 'a tui_scheme" where
  "push_message m = addConsoleMessage (cm_timestamp m) (cm_channelId m) (cm_message m) (byteSwap32 (cm_color m))"

definition message_of :: "int \<times> int \<times> string \<times> u32 \<Rightarrow> ConsoleMessage" where
  "message_of = (\<lambda>(now, channelId, message, color).
     \<lparr>cm_channelId = channelId, cm_color = byteSwap32 color, cm_message = message, cm_timestamp = now\<rparr>)"

definition add_all :: "(int \<times> int \<times> string \<times> u32) list \<Rightarrow> 'a tui_scheme \<Rightarrow> 'a tui_scheme" where
  "add_all calls = fold (\<lambda>(now, channelId, message, color). addConsoleMessage now channelId message color) calls"

definition history_inv :: "'a tui_scheme \<Rightarrow> bool" where
  "history_inv t \<longleftrightarrow> length (m_consoleMessages t) \<le> MAX_CONSOLE_MESSAGES"

lemma addConsoleMessage_messages:
  "history_inv t \<Longrightarrow> m_consoleMessages (addConsoleMessage now c s col t)
     = lastn MAX_CONSOLE_MESSAGES (m_consoleMessages t @ [message_of (now, c, s, col)])"
  by (cases "length (m_consoleMessages t) = MAX_CONSOLE_MESSAGES")
    (auto simp: addConsoleMessage_def history_inv_def message_of_def lastn_def Let_def drop_Suc MAX_CONSOLE_MESSAGES_def
        tl_append split: list.split)

lemma addConsoleMessage_frame [frame_simps, simp]:
  "m_channels (addConsoleMessage now c s col t) = m_channels t"
  "m_scrollPosition (addConsoleMessage now c s col t) = m_scrollPosition t"
  "m_inputBuffer (addConsoleMessage now c s col t) = m_inputBuffer t"
  "m_consoleWindow (addConsoleMessage now c s col t) = m_consoleWindow t"
  "m_inputWindow (addConsoleMessage now c s col t) = m_inputWindow t"
  "m_running (addConsoleMessage now c s col t) = m_running t"
  "m_colorCache (addConsoleMessage now c s col t) = m_colorCache t"
  "m_nextColorPairId (addConsoleMessage now c s col t) = m_nextColorPairId t"
  "m_needsResize (addConsoleMessage now c s col t) = m_needsResize t"
  "m_consoleDirty (addConsoleMessage now c s col t)"
  "tui_out (addConsoleMessage now c s col t) = tui_out t"
  "tui.more (addConsoleMessage now c s col t) = tui.more t"
  by (simp_all add: addConsoleMessage_def Let_def)

lemma push_message_of: "push_message (message_of c) = (\<lambda>(now, ch, s, col). addConsoleMessage now ch s col) c"
  by (cases c) (simp add: push_message_def message_of_def byteSwap32_involution)

interpretation history: bounded_fifo m_consoleMessages push_message
  "\<lambda>_. MAX_CONSOLE_MESSAGES" "history_inv :: 'a tui_scheme \<Rightarrow> bool"
proof
  fix q :: "'a tui_scheme" and x
  assume inv: "history_inv q"
  have x: "message_of (cm_timestamp x, cm_channelId x, cm_message x, byteSwap32 (cm_color x)) = x"
    by (simp add: message_of_def byteSwap32_involution)
  show "m_consoleMessages (push_message x q) = lastn MAX_CONSOLE_MESSAGES (m_consoleMessages q @ [x])"
    unfolding push_message_def addConsoleMessage_messages [OF inv] x ..
  then show "history_inv (push_message x q)" by (simp add: history_inv_def)
  show "length (m_consoleMessages q) \<le> MAX_CONSOLE_MESSAGES" using inv by (simp add: history_inv_def)
qed simp

lemma history_inv_new [simp]: "history_inv (TUI_new b u)"
  by (simp add: history_inv_def TUI_new_def)

text \<open>
  C8: The console remembers exactly the last 10000 messages: after any calls of
  \<open>addConsoleMessage\<close> on a history within the limit, the history is the newest 10000 of old
  and new messages, in order of arrival, each with its text and channel and with the bytes
  of its colour reversed; the view is left where it was.
\<close>

theorem addConsoleMessage_keeps_last_10000:
  assumes "length (m_consoleMessages t) \<le> 10000"
  shows "m_consoleMessages (add_all calls t) = lastn 10000 (m_consoleMessages t @ map message_of calls)
    \<and> m_scrollPosition (add_all calls t) = m_scrollPosition t"
proof -
  have inv: "history_inv t" using assms by (simp add: history_inv_def MAX_CONSOLE_MESSAGES_def)
  have eq: "add_all calls = fold push_message (map message_of calls)"
    by (simp add: add_all_def fold_map comp_def push_message_of)
  have "m_scrollPosition (fold push_message ms t) = m_scrollPosition t" for ms
    by (induction ms rule: rev_induct) (simp_all add: push_message_def)
  then show ?thesis
    using history.content_pushes [OF inv, of "map message_of calls"]
    by (simp add: eq MAX_CONSOLE_MESSAGES_def)
qed

theorem addConsoleMessage_keeps_last_10000_witness:
  "m_consoleMessages (add_all [(7, 3, ''hi'', 0x11223344)] (TUI_new True False))
     = [\<lparr>cm_channelId = 3, cm_color = 0x44332211, cm_message = ''hi'', cm_timestamp = 7\<rparr>]"
proof -
  have "byteSwap32 0x11223344 = 0x44332211" by (simp add: byteSwap32_def)
  then show ?thesis
    using addConsoleMessage_keeps_last_10000 [of "TUI_new True False" "[(7, 3, ''hi'', 0x11223344)]"]
    by (simp add: TUI_new_def message_of_def lastn_all)
qed

section \<open>What is on the screen\<close>

text \<open>The rows of text a trace prints in the console window.\<close>

definition console_lines :: "curses_call list \<Rightarrow> (int \<times> string) list" where
  "console_lines cs =
     concat (map (\<lambda>c. case c of Mvwprintw Console y x s \<Rightarrow> [(y, s)] | _ \<Rightarrow> []) cs)"

lemma console_lines_simps [simp]:
  "console_lines [] = []"
  "console_lines (Mvwprintw Console y x s # cs) = (y, s) # console_lines cs"
  "console_lines (Mvwprintw Input y x s # cs) = console_lines cs"
  "console_lines (cs @ cs') = console_lines cs @ console_lines cs'"
  by (simp_all add: console_lines_def)

lemma console_lines_other [simp]:
  "console_lines (Werase p # cs) = console_lines cs"
  "console_lines (Wattron c # cs) = console_lines cs"
  "console_lines (Wattroff c # cs) = console_lines cs"
  "console_lines (Box p # cs) = console_lines cs"
  "console_lines (Wmove p y x # cs) = console_lines cs"
  "console_lines (Wnoutrefresh p # cs) = console_lines cs"
  "console_lines (Doupdate # cs) = console_lines cs"
  "console_lines (Init_color n r g b # cs) = console_lines cs"
  "console_lines (Color_content n # cs) = console_lines cs"
  "console_lines (Init_pair q f g # cs) = console_lines cs"
  by (simp_all add: console_lines_def)

definition line_text :: "(int \<rightharpoonup> ConsoleChannel) \<Rightarrow> ConsoleMessage \<Rightarrow> string" where
  "line_text channels m =
     (if cm_channelId m = APPLICATION_SPECIAL_CHANNEL_ID then ''''
      else case channels (cm_channelId m) of
             Some ch \<Rightarrow> c_str (''['' @ cc_name ch @ ''] '')
           | None \<Rightarrow> ''[Unknown] '') @ c_str (cm_message m)"

lemma emit_frame [simp]:
  "m_consoleMessages (emit cs t) = m_consoleMessages t"
  "m_channels (emit cs t) = m_channels t"
  "m_scrollPosition (emit cs t) = m_scrollPosition t"
  "m_inputBuffer (emit cs t) = m_inputBuffer t"
  "m_consoleWindow (emit cs t) = m_consoleWindow t"
  "m_running (emit cs t) = m_running t"
  "m_needsResize (emit cs t) = m_needsResize t"
  "m_consoleDirty (emit cs t) = m_consoleDirty t"
  "m_lastUpdate (emit cs t) = m_lastUpdate t"
  "tui_out (emit cs t) = tui_out t @ cs"
  "tui.more (emit cs t) = tui.more t"
  by (simp_all add: emit_def)

lemma initializeColor_console_lines [simp]:
  "console_lines (tui_out (snd (initializeColor c b t))) = console_lines (tui_out t)"
  by (simp add: initializeColor_def Let_def emit_def split: option.split)

lemma draw_line_frame [simp]:
  "m_consoleMessages (draw_line start i t) = m_consoleMessages t"
  "m_channels (draw_line start i t) = m_channels t"
  "m_inputBuffer (draw_line start i t) = m_inputBuffer t"
  "m_scrollPosition (draw_line start i t) = m_scrollPosition t"
  "m_consoleWindow (draw_line start i t) = m_consoleWindow t"
  "tui.more (draw_line start i t) = tui.more t"
  by (simp_all add: draw_line_def Let_def case_prod_beta)

lemma draw_line_console_lines:
  "console_lines (tui_out (draw_line start i t)) = console_lines (tui_out t) @
     [(i, line_text (m_channels t) (m_consoleMessages t ! (start + nat i)))]"
proof -
  have out: "console_lines (tui_out t') = console_lines (tui_out t)"
    if "initializeColor c 0 t = (p, t')" for c p t'
    using initializeColor_console_lines [of c 0 t] that by simp
  show ?thesis
    by (auto simp: draw_line_def Let_def line_text_def out split: prod.split option.split)
qed

lemma draw_lines_frame [simp]:
  "m_consoleMessages (draw_lines n start i t) = m_consoleMessages t
   \<and> m_channels (draw_lines n start i t) = m_channels t
   \<and> m_inputBuffer (draw_lines n start i t) = m_inputBuffer t
   \<and> m_scrollPosition (draw_lines n start i t) = m_scrollPosition t
   \<and> m_consoleWindow (draw_lines n start i t) = m_consoleWindow t
   \<and> tui.more (draw_lines n start i t) = tui.more t"
proof (induction n start i t rule: draw_lines.induct)
  case (1 n start i t)
  then show ?case
    by (auto simp: draw_lines.simps [of n start i t])
qed

lemma draw_lines_console_lines:
  "0 \<le> i \<Longrightarrow> console_lines (tui_out (draw_lines n start i t)) = console_lines (tui_out t) @
     map (\<lambda>k. (int k, line_text (m_channels t) (m_consoleMessages t ! (start + k))))
       [nat i..<min (nat n) (length (m_consoleMessages t) - start)]"
proof (induction n start i t rule: draw_lines.induct)
  case (1 n start i t)
  show ?case
  proof (cases "i < n \<and> start + nat i < length (m_consoleMessages t)")
    case True
    then have "[nat i..<min (nat n) (length (m_consoleMessages t) - start)]
        = nat i # [nat (i + 1)..<min (nat n) (length (m_consoleMessages t) - start)]"
      using 1 by (subst upt_conv_Cons) (auto simp: nat_add_distrib)
    with True 1 show ?thesis
      by (subst draw_lines.simps) (simp add: draw_line_console_lines)
  next
    case False
    with 1 show ?thesis by (subst draw_lines.simps) auto
  qed
qed

lemma startIndex_eq:
  "m_consoleWindow t = Some w \<Longrightarrow> 0 \<le> win_rows w \<Longrightarrow>
     startIndex t = length (m_consoleMessages t) - nat (win_rows w) - m_scrollPosition t"
  by (simp add: startIndex_def getmaxy_def)

text \<open>
  The console window always shows a full screen. Whatever the scroll position, drawing
  prints \<open>min rows n\<close> consecutive lines of a history of \<open>n\<close> messages, from row 0 down and
  from the message \<open>rows\<close> plus the scroll position before the end, each with the name of its
  channel in brackets, \<open>[Unknown]\<close> for a channel never registered, and no prefix for the
  application's own messages; no message is read outside the history.
\<close>

theorem drawConsoleWindow_visible_lines:
  assumes "m_consoleWindow t = Some w" and "0 \<le> win_rows w"
  shows "console_lines (tui_out (drawConsoleWindow t)) = console_lines (tui_out t) @
      map (\<lambda>k. (int k, line_text (m_channels t) (m_consoleMessages t ! (startIndex t + k))))
        [0..<min (nat (win_rows w)) (length (m_consoleMessages t))]
    \<and> startIndex t + min (nat (win_rows w)) (length (m_consoleMessages t)) \<le> length (m_consoleMessages t)
    \<and> startIndex t = length (m_consoleMessages t) - nat (win_rows w) - m_scrollPosition t"
proof -
  have "min (nat (win_rows w)) (length (m_consoleMessages t) - startIndex t)
      = min (nat (win_rows w)) (length (m_consoleMessages t))"
    using startIndex_eq [OF assms] by auto
  moreover have "startIndex (emit [Werase Console] t) = startIndex t" by (simp add: startIndex_def)
  moreover have "startIndex t + min (nat (win_rows w)) (length (m_consoleMessages t))
      \<le> length (m_consoleMessages t)"
    using startIndex_eq [OF assms] by linarith
  ultimately show ?thesis
    using startIndex_eq [OF assms] assms
    by (simp add: drawConsoleWindow_def Let_def draw_lines_console_lines getmaxy_def)
qed

definition sample_window :: window where
  "sample_window = \<lparr>win_rows = 2, win_cols = 80, win_y = 0, win_x = 0\<rparr>"

definition sample_tui :: tui where
  "sample_tui = (add_all [(0, 1, ''a'', 0), (0, 1, ''b'', 0), (0, -1337, ''c'', 0)] (TUI_new True False))
     \<lparr>m_consoleWindow := Some sample_window\<rparr>"

lemma sample_tui_simps:
  "m_consoleWindow sample_tui = Some sample_window" "win_rows sample_window = 2"
  "m_consoleMessages sample_tui = map message_of [(0, 1, ''a'', 0), (0, 1, ''b'', 0), (0, -1337, ''c'', 0)]"
  "m_scrollPosition sample_tui = 0" "m_channels sample_tui = Map.empty" "tui_out sample_tui = []"
  by (simp_all add: sample_tui_def sample_window_def add_all_def addConsoleMessage_def TUI_new_def
      message_of_def MAX_CONSOLE_MESSAGES_def Let_def)

theorem drawConsoleWindow_visible_lines_witness:
  "console_lines (tui_out (drawConsoleWindow sample_tui)) = [(0, ''[Unknown] b''), (1, ''c'')]"
  using drawConsoleWindow_visible_lines [OF sample_tui_simps(1)]
  by (simp add: sample_tui_simps message_of_def line_text_def upt_rec APPLICATION_SPECIAL_CHANNEL_ID_def)

section \<open>Scrolling\<close>

definition max_scroll :: "'a tui_scheme \<Rightarrow> nat" where
  "max_scroll t = nat (max 0 (int (length (m_consoleMessages t)) - getmaxy (m_consoleWindow t)))"

lemma scrollConsole_bounded: "m_scrollPosition (scrollConsole n t) \<le> max_scroll t"
  by (auto simp: scrollConsole_def clamp_def max_scroll_def Let_def)

text \<open>
  Scrolling moves the view by the number of lines asked for, stopped at both ends of the
  history: from a scroll position within bounds, the first line shown moves from \<open>start\<close> to
  \<open>start - lines\<close> clamped between the oldest line and the one that fills the last screen,
  the position stays within bounds, the window is marked for drawing and the messages stay.
\<close>

theorem scrollConsole_moves_view:
  assumes "m_consoleWindow t = Some w" and "0 \<le> win_rows w" and "m_scrollPosition t \<le> max_scroll t"
  shows "int (startIndex (scrollConsole n t)) = clamp (int (startIndex t) - n) 0 (int (max_scroll t))
    \<and> m_scrollPosition (scrollConsole n t) \<le> max_scroll (scrollConsole n t)
    \<and> m_consoleDirty (scrollConsole n t)
    \<and> m_consoleMessages (scrollConsole n t) = m_consoleMessages t"
proof -
  have view: "max 0 (k - max 0 (min (s + n) (max 0 k))) = max 0 (min (max 0 (k - s) - n) (max 0 k))"
    if "0 \<le> s" "s \<le> max 0 k" for k s :: int
    using that by (auto simp: max_def min_def)
  let ?k = "int (length (m_consoleMessages t)) - win_rows w"
  have s: "int (m_scrollPosition t) \<le> max 0 ?k" using assms by (simp add: max_scroll_def getmaxy_def)
  have new: "int (m_scrollPosition (scrollConsole n t)) = max 0 (min (int (m_scrollPosition t) + n) (max 0 ?k))"
    using assms(1) by (simp add: scrollConsole_def clamp_def getmaxy_def Let_def)
  have frame: "m_consoleMessages (scrollConsole n t) = m_consoleMessages t" "m_consoleDirty (scrollConsole n t)"
      "m_consoleWindow (scrollConsole n t) = m_consoleWindow t"
    by (simp_all add: scrollConsole_def Let_def)
  have "int (startIndex (scrollConsole n t)) = clamp (int (startIndex t) - n) 0 (int (max_scroll t))"
  proof -
    have "int (startIndex (scrollConsole n t)) = max 0 (?k - int (m_scrollPosition (scrollConsole n t)))"
      "int (startIndex t) = max 0 (?k - int (m_scrollPosition t))" "int (max_scroll t) = max 0 ?k"
      using assms(1) by (simp_all only: startIndex_def max_scroll_def frame getmaxy_def option.case
          int_nat_eq max.cobounded1 if_True)
    then show ?thesis unfolding new clamp_def by (simp only: view [OF of_nat_0_le_iff s])
  qed
  moreover have "max_scroll (scrollConsole n t) = max_scroll t" by (simp add: max_scroll_def frame)
  ultimately show ?thesis using scrollConsole_bounded [of n t] frame by simp
qed

theorem scrollConsole_moves_view_witness:
  "startIndex (scrollConsole 3 sample_tui) = 0 \<and> startIndex sample_tui = 1"
proof -
  have "m_scrollPosition sample_tui \<le> max_scroll sample_tui" by (simp add: sample_tui_simps)
  from scrollConsole_moves_view [OF sample_tui_simps(1) _ this, of 3, THEN conjunct1]
  have "int (startIndex (scrollConsole 3 sample_tui)) = clamp (int (startIndex sample_tui) - 3) 0 (int (max_scroll sample_tui))"
    by (simp add: sample_tui_simps)
  moreover have "startIndex sample_tui = 1" "max_scroll sample_tui = 1"
    by (simp_all add: startIndex_eq sample_tui_simps) (simp add: max_scroll_def getmaxy_def sample_tui_simps)
  ultimately show ?thesis by (simp add: clamp_def)
qed

section \<open>A message that arrives is drawn\<close>

lemma drawConsoleWindow_frame [simp]:
  "m_consoleMessages (drawConsoleWindow t) = m_consoleMessages t"
  "m_channels (drawConsoleWindow t) = m_channels t"
  "m_inputBuffer (drawConsoleWindow t) = m_inputBuffer t"
  "m_scrollPosition (drawConsoleWindow t) = m_scrollPosition t"
  "m_consoleWindow (drawConsoleWindow t) = m_consoleWindow t"
  by (simp_all add: drawConsoleWindow_def Let_def)

lemma drawInputWindow_console_lines [simp]:
  "console_lines (tui_out (drawInputWindow t)) = console_lines (tui_out t)"
  by (simp add: drawInputWindow_def)

lemma drawWindows_console_lines [simp]:
  "console_lines (tui_out (drawWindows t)) = console_lines (tui_out (drawConsoleWindow t))"
  by (simp add: drawWindows_def)

text \<open>
  A new message reaches the screen in the next frame. With the view at the end and a
  window of at least one row, an iteration of \<open>run\<close> at least 16 ms after the last frame,
  with no key and no resize pending, redraws the console so that its last line is the
  message just added, and clears the dirty flag.
\<close>

theorem run_iteration_shows_new_message:
  assumes "m_consoleWindow t = Some w" and "1 \<le> win_rows w" and "history_inv t"
    and "m_scrollPosition t = 0" and "\<not> m_needsResize t"
    and "16000000 \<le> now - m_lastUpdate t"
    and "t1 = addConsoleMessage time chan text color t"
  shows "\<exists>row. last (console_lines (tui_out (run_iteration cb (env, None, now) t1)))
      = (row, line_text (m_channels t) (message_of (time, chan, text, color)))
    \<and> 0 \<le> row \<and> row < win_rows w
    \<and> \<not> m_consoleDirty (run_iteration cb (env, None, now) t1)"
proof -
  let ?ms = "m_consoleMessages t1" let ?n = "min (nat (win_rows w)) (length ?ms)"
  have ms: "?ms = lastn MAX_CONSOLE_MESSAGES (m_consoleMessages t @ [message_of (time, chan, text, color)])"
    using assms(3,7) by (simp add: addConsoleMessage_messages)
  then have ne: "?ms \<noteq> []" "last ?ms = message_of (time, chan, text, color)"
    by (auto simp: lastn_def MAX_CONSOLE_MESSAGES_def last_drop)
  have t1: "m_consoleWindow t1 = Some w" "m_channels t1 = m_channels t" "m_scrollPosition t1 = 0"
      "\<not> m_needsResize t1" "m_consoleDirty t1" "m_lastUpdate t1 = m_lastUpdate t"
    using assms by (simp_all add: addConsoleMessage_def Let_def)
  have start: "startIndex t1 = length ?ms - nat (win_rows w)"
    using assms(2) t1 by (simp add: startIndex_eq)
  have pos: "0 < ?n" using ne(1) assms(2) by simp
  then have upt: "[0..<?n] = [0..<?n - 1] @ [?n - 1]"
    by (metis Suc_diff_1 upt_Suc_append zero_le)
  have idx: "startIndex t1 + (?n - 1) = length ?ms - 1" using start pos by linarith
  have run: "run_iteration cb (env, None, now) t1
      = (drawWindows t1)\<lparr>m_consoleDirty := False, m_lastUpdate := now\<rparr>"
    using t1 assms(6) by (simp add: run_iteration_def)
  have "last (console_lines (tui_out (drawConsoleWindow t1)))
      = (int (?n - 1), line_text (m_channels t1) (?ms ! (startIndex t1 + (?n - 1))))"
    using drawConsoleWindow_visible_lines [OF t1(1), THEN conjunct1] assms(2)
    unfolding upt map_append by simp
  moreover have "?ms ! (startIndex t1 + (?n - 1)) = message_of (time, chan, text, color)"
    unfolding idx using ne by (simp add: last_conv_nth)
  moreover have "int (?n - 1) < win_rows w" using pos assms(2) by linarith
  ultimately show ?thesis by (simp add: run t1)
qed

theorem run_iteration_shows_new_message_witness:
  "\<exists>row. last (console_lines (tui_out (run_iteration None (small_terminal, None, 20000000)
      (addConsoleMessage 5 9 ''new'' 0 sample_tui)))) = (row, ''[Unknown] new'')"
proof -
  have "history_inv sample_tui" "1 \<le> win_rows sample_window" "\<not> m_needsResize sample_tui"
      "16000000 \<le> 20000000 - m_lastUpdate sample_tui"
    by (simp_all add: history_inv_def sample_tui_simps MAX_CONSOLE_MESSAGES_def)
      (simp_all add: sample_tui_def add_all_def addConsoleMessage_def TUI_new_def Let_def)
  from run_iteration_shows_new_message [OF sample_tui_simps(1) this(2,1) sample_tui_simps(4) this(3,4) refl,
      of None small_terminal 5 9 "''new''" 0]
  show ?thesis
    by (auto simp: line_text_def message_of_def sample_tui_simps APPLICATION_SPECIAL_CHANNEL_ID_def)
qed

end
