(* ===== verification/Tui_Threads.thy ===== *)
theory Tui_Threads
  imports Tui_History
begin

text \<open>
  The text interface under its threads (\<open>CS2RemoteConsole-client/src/tui/tui.cpp\<close>): the
  event loop, the listeners that add messages and register channels, and every thread that
  logs, since the callback sink of the logger adds its lines to the console. An operation is
  a list of acts, the lock and unlock steps of its mutexes and the computations between
  them; a computation may read the state and continue with acts of its own, as the branch of
  \<open>registerChannel\<close> that logs does. Threads interleave act by act. The computations outside
  every lock (keys, scrolling) are single acts.
\<close>

section \<open>Acts and operations\<close>

text \<open>The mutexes: the two of class \<open>TUI\<close> and one of each sink of the application's logger.\<close>

datatype mutex = ConsoleMutex | ChannelsMutex | FileSinkMutex | CallbackSinkMutex

datatype act = Lock mutex | Unlock mutex | Run "tui \<Rightarrow> tui \<times> act list"

abbreviation compute :: "(tui \<Rightarrow> tui) \<Rightarrow> act" where
  "compute f \<equiv> Run (\<lambda>t. (f t, []))"

text \<open>\<open>addConsoleMessage\<close>; a call of the logger, whose sinks take their own mutex one after the other.\<close>

definition addConsoleMessage_acts :: "int \<Rightarrow> int \<Rightarrow> string \<Rightarrow> u32 \<Rightarrow> act list" where
  "addConsoleMessage_acts now channelId message msgColor =
     [Lock ConsoleMutex, compute (addConsoleMessage now channelId message msgColor), Unlock ConsoleMutex]"

definition log_acts :: "int \<Rightarrow> level \<Rightarrow> string \<Rightarrow> act list" where
  "log_acts now lvl payload =
     [Lock FileSinkMutex, Unlock FileSinkMutex, Lock CallbackSinkMutex]
     @ addConsoleMessage_acts now APPLICATION_SPECIAL_CHANNEL_ID
         (''['' @ to_string_view lvl @ ''] '' @ payload) 0
     @ [Unlock CallbackSinkMutex]"

text \<open>\<open>registerChannel\<close>: the warning is logged with \<open>m_channelsMutex\<close> held.\<close>

definition out_of_pairs :: "curses \<Rightarrow> u32 \<Rightarrow> 'a tui_scheme \<Rightarrow> bool" where
  "out_of_pairs env color t \<longleftrightarrow>
     color \<noteq> 0 \<and> m_colorCache t (ucast color) = None
     \<and> \<not> sint (m_nextColorPairId t) < curses_COLOR_PAIRS env"

definition registerChannel_acts :: "curses \<Rightarrow> int \<Rightarrow> int \<Rightarrow> string \<Rightarrow> u32 \<Rightarrow> u32 \<Rightarrow> act list" where
  "registerChannel_acts env now chanId name color backgroundColor =
     [Lock ChannelsMutex,
      Run (\<lambda>t. if out_of_pairs env color t
               then (t, log_acts now Warn (''[TUI] Ran out of color pairs. Using default color for channel: '' @ name)
                        @ [compute (\<lambda>t. t\<lparr>m_channels := (m_channels t)(chanId \<mapsto>
                             \<lparr>cc_name = name, cc_color = color, cc_colorPairId = 0\<rparr>)\<rparr>)])
               else (registerChannel env (\<lambda>_ t. t) chanId name color backgroundColor t, [])),
      Unlock ChannelsMutex]"

text \<open>\<open>drawWindows\<close>, and the part of an iteration of \<open>run\<close> that draws.\<close>

definition drawWindows_acts :: "act list" where
  "drawWindows_acts =
     [Lock ConsoleMutex, Lock ChannelsMutex, compute drawConsoleWindow, Unlock ChannelsMutex, Unlock ConsoleMutex,
      compute (\<lambda>t. emit [Doupdate] (drawInputWindow t))]"

definition frame_acts :: "int \<Rightarrow> act list" where
  "frame_acts now =
     [Run (\<lambda>t. if m_consoleDirty t \<and> now - m_lastUpdate t \<ge> 16000000
               then (t, drawWindows_acts @ [compute (\<lambda>t. t\<lparr>m_consoleDirty := False\<rparr>),
                                            compute (\<lambda>t. t\<lparr>m_lastUpdate := now\<rparr>)])
               else (t, []))]"

text \<open>
  \<open>handleInput\<close>; \<open>logs\<close> are the log calls the command callback makes for a line. The enter
  key is the only one whose handling takes a lock.
\<close>

definition enter_acts :: "(string \<Rightarrow> (level \<times> string) list) \<Rightarrow> int \<Rightarrow> act list" where
  "enter_acts logs now =
     [Run (\<lambda>t. if m_inputBuffer t \<noteq> []
               then (t, concat (map (\<lambda>(lvl, payload). log_acts now lvl payload) (logs (m_inputBuffer t)))
                        @ addConsoleMessage_acts now APPLICATION_SPECIAL_CHANNEL_ID (''> '' @ m_inputBuffer t) 0
                        @ [compute (\<lambda>t. updateInputWindow (t\<lparr>m_inputBuffer := []\<rparr>))])
               else (t, []))]"

definition handleInput_acts :: "(string \<Rightarrow> (level \<times> string) list) \<Rightarrow> int \<Rightarrow> key option \<Rightarrow> act list" where
  "handleInput_acts logs now ch =
     (if ch = Some (Ch 10) then enter_acts logs now else [compute (handleInput None now ch)])"

definition resize_acts :: "curses \<Rightarrow> act list" where
  "resize_acts env =
     [compute (\<lambda>t. if m_needsResize t then (handleResize env t)\<lparr>m_needsResize := False\<rparr> else t)]"

text \<open>The calls a thread makes.\<close>

datatype tui_call =
    AddMessage int int string u32
  | Log int level string
  | RegisterChannel curses int int string u32 u32
  | Iteration "string \<Rightarrow> (level \<times> string) list" curses "key option" int

fun call_acts :: "tui_call \<Rightarrow> act list" where
  "call_acts (AddMessage now channelId message msgColor) = addConsoleMessage_acts now channelId message msgColor"
| "call_acts (Log now lvl payload) = log_acts now lvl payload"
| "call_acts (RegisterChannel env now chanId name color backgroundColor) =
     registerChannel_acts env now chanId name color backgroundColor"
| "call_acts (Iteration logs env ch now) = resize_acts env @ handleInput_acts logs now ch @ frame_acts now"

definition thread_acts :: "tui_call list \<Rightarrow> act list" where
  "thread_acts calls = concat (map call_acts calls)"

section \<open>Interleaving\<close>

text \<open>A thread is the stack of mutexes it holds and the acts it has left.\<close>

record tui_thread =
  held :: "mutex list"
  todo :: "act list"

definition thread_start :: "tui_call list \<Rightarrow> tui_thread" where
  "thread_start calls = \<lparr>held = [], todo = thread_acts calls\<rparr>"

definition mutex_free :: "tui_thread list \<Rightarrow> mutex \<Rightarrow> bool" where
  "mutex_free ths m \<longleftrightarrow> (\<forall>th \<in> set ths. m \<notin> set (held th))"

inductive tui_step :: "tui \<times> tui_thread list \<Rightarrow> tui \<times> tui_thread list \<Rightarrow> bool" where
  Acquire: "i < length ths \<Longrightarrow> todo (ths ! i) = Lock m # as \<Longrightarrow> mutex_free ths m \<Longrightarrow>
    tui_step (t, ths) (t, ths[i := \<lparr>held = m # held (ths ! i), todo = as\<rparr>])"
| Release: "i < length ths \<Longrightarrow> todo (ths ! i) = Unlock m # as \<Longrightarrow>
    tui_step (t, ths) (t, ths[i := \<lparr>held = remove1 m (held (ths ! i)), todo = as\<rparr>])"
| Execute: "i < length ths \<Longrightarrow> todo (ths ! i) = Run f # as \<Longrightarrow> f t = (t', bs) \<Longrightarrow>
    tui_step (t, ths) (t', ths[i := \<lparr>held = held (ths ! i), todo = bs @ as\<rparr>])"

inductive tui_reach :: "tui \<times> tui_thread list \<Rightarrow> tui \<times> tui_thread list \<Rightarrow> bool" for s0 where
  Refl: "tui_reach s0 s0"
| Step: "tui_reach s0 s \<Longrightarrow> tui_step s s' \<Longrightarrow> tui_reach s0 s'"

inductive_cases tui_stepE: "tui_step (t, ths) s'"

definition finished :: "tui_thread list \<Rightarrow> bool" where
  "finished ths \<longleftrightarrow> (\<forall>th \<in> set ths. todo th = [])"

definition stuck :: "tui \<times> tui_thread list \<Rightarrow> bool" where
  "stuck s \<longleftrightarrow> \<not> finished (snd s) \<and> (\<forall>s'. \<not> tui_step s s')"

section \<open>The order of the locks\<close>

text \<open>
  \<open>lock_order warns\<close> lists which mutexes a thread may hold, innermost first, when it locks
  another; \<open>warns\<close> says whether registrations log. \<open>disciplined L b st as\<close>: from the stack
  \<open>st\<close>, on every state the acts meet, \<open>as\<close> locks only what \<open>L\<close> allows, unlocks in the reverse
  order and ends with the stack \<open>b\<close>.
\<close>

fun lock_order :: "bool \<Rightarrow> mutex \<Rightarrow> mutex list \<Rightarrow> bool" where
  "lock_order warns ConsoleMutex st \<longleftrightarrow>
     st = [] \<or> st = [CallbackSinkMutex] \<or> warns \<and> st = [CallbackSinkMutex, ChannelsMutex]"
| "lock_order warns ChannelsMutex st \<longleftrightarrow> st = [] \<or> st = [ConsoleMutex]"
| "lock_order warns FileSinkMutex st \<longleftrightarrow> st = [] \<or> warns \<and> st = [ChannelsMutex]"
| "lock_order warns CallbackSinkMutex st \<longleftrightarrow> st = [] \<or> warns \<and> st = [ChannelsMutex]"

inductive disciplined :: "(mutex \<Rightarrow> mutex list \<Rightarrow> bool) \<Rightarrow> mutex list \<Rightarrow> mutex list \<Rightarrow> act list \<Rightarrow> bool"
  for L b where
  Done: "disciplined L b b []"
| Locks: "L m st \<Longrightarrow> disciplined L b (m # st) as \<Longrightarrow> disciplined L b st (Lock m # as)"
| Unlocks: "disciplined L b st as \<Longrightarrow> disciplined L b (m # st) (Unlock m # as)"
| Runs: "(\<And>t. disciplined L b st (snd (f t) @ as)) \<Longrightarrow> disciplined L b st (Run f # as)"

inductive_simps disciplined_simps [simp]:
  "disciplined L b st []"
  "disciplined L b st (Lock m # as)"
  "disciplined L b st (Unlock m # as)"
  "disciplined L b st (Run f # as)"

lemma disciplined_append:
  "disciplined L b st as \<Longrightarrow> disciplined L c b bs \<Longrightarrow> disciplined L c st (as @ bs)"
  by (induction rule: disciplined.induct) simp_all

lemma disciplined_concat:
  "(\<And>as. as \<in> set ass \<Longrightarrow> disciplined L b b as) \<Longrightarrow> disciplined L b b (concat ass)"
  by (induction ass) (auto intro: disciplined_append)

lemma disciplined_addConsoleMessage:
  "L ConsoleMutex b \<Longrightarrow> disciplined L b b (addConsoleMessage_acts now chan msg color)"
  by (simp add: addConsoleMessage_acts_def)

lemma disciplined_log:
  "L FileSinkMutex b \<Longrightarrow> L CallbackSinkMutex b \<Longrightarrow> L ConsoleMutex (CallbackSinkMutex # b)
    \<Longrightarrow> disciplined L b b (log_acts now lvl payload)"
  by (simp add: log_acts_def addConsoleMessage_acts_def)

lemma disciplined_registerChannel:
  assumes "\<And>t :: tui. warns \<or> \<not> out_of_pairs env color t"
  shows "disciplined (lock_order warns) [] [] (registerChannel_acts env now chan name color bg)"
proof (cases warns)
  case True
  then show ?thesis
    by (simp add: registerChannel_acts_def disciplined_append [OF disciplined_log])
next
  case False
  with assms show ?thesis by (simp add: registerChannel_acts_def)
qed

lemma disciplined_frame: "disciplined (lock_order warns) [] [] (frame_acts now)"
  by (simp add: frame_acts_def drawWindows_acts_def)

lemma disciplined_handleInput: "disciplined (lock_order warns) [] [] (handleInput_acts logs now ch)"
proof -
  have "disciplined (lock_order warns) [] []
      (concat (map (\<lambda>(lvl, payload). log_acts now lvl payload) ls))" for ls
    by (rule disciplined_concat) (auto intro: disciplined_log)
  then show ?thesis
    by (auto simp: handleInput_acts_def enter_acts_def addConsoleMessage_acts_def intro!: disciplined_append)
qed

definition registers_within :: "tui_call \<Rightarrow> bool" where
  "registers_within c =
     (case c of RegisterChannel env _ _ _ color _ \<Rightarrow> color = 0 \<or> 32767 < curses_COLOR_PAIRS env | _ \<Rightarrow> True)"

lemma within_not_out_of_pairs:
  "color = 0 \<or> 32767 < curses_COLOR_PAIRS env \<Longrightarrow> \<not> out_of_pairs env color t"
  using sint_lt [of "m_nextColorPairId t"] by (auto simp: out_of_pairs_def)

lemma disciplined_call: "warns \<or> registers_within c \<Longrightarrow> disciplined (lock_order warns) [] [] (call_acts c)"
  by (cases c)
    (auto simp: resize_acts_def registers_within_def within_not_out_of_pairs
      intro!: disciplined_addConsoleMessage disciplined_log disciplined_registerChannel
        disciplined_append [OF disciplined_handleInput disciplined_frame])

definition disciplined_threads :: "bool \<Rightarrow> tui_thread list \<Rightarrow> bool" where
  "disciplined_threads warns ths \<longleftrightarrow> (\<forall>th \<in> set ths. disciplined (lock_order warns) [] (held th) (todo th))"

lemma disciplined_start:
  "\<forall>calls \<in> set callss. \<forall>c \<in> set calls. warns \<or> registers_within c
    \<Longrightarrow> disciplined_threads warns (map thread_start callss)"
  by (auto simp: disciplined_threads_def thread_start_def thread_acts_def
      intro!: disciplined_concat disciplined_call)

lemma disciplined_nth:
  "disciplined_threads warns ths \<Longrightarrow> i < length ths \<Longrightarrow>
    disciplined (lock_order warns) [] (held (ths ! i)) (todo (ths ! i))"
  by (auto simp: disciplined_threads_def)

lemma disciplined_update:
  "disciplined_threads warns ths \<Longrightarrow> disciplined (lock_order warns) [] (held th) (todo th) \<Longrightarrow>
    disciplined_threads warns (ths[i := th])"
  by (auto simp: disciplined_threads_def dest!: subsetD [OF set_update_subset_insert])

lemma disciplined_step:
  assumes "tui_step s s'" and "disciplined_threads warns (snd s)"
  shows "disciplined_threads warns (snd s')"
  using assms
proof (induction rule: tui_step.induct)
  case (Acquire i ths m as t)
  then show ?case using disciplined_nth [of warns ths i] by (simp add: disciplined_update)
next
  case (Release i ths m as t)
  then have "disciplined (lock_order warns) [] (held (ths ! i)) (Unlock m # as)"
    using disciplined_nth [of warns ths i] by simp
  with Release show ?case by (auto intro!: disciplined_update)
next
  case (Execute i ths f as t t' bs)
  then have "disciplined (lock_order warns) [] (held (ths ! i)) (Run f # as)"
    using disciplined_nth [of warns ths i] by simp
  then have "disciplined (lock_order warns) [] (held (ths ! i)) (snd (f t) @ as)"
    by (simp only: disciplined_simps)
  with Execute show ?case by (simp add: disciplined_update)
qed

lemma disciplined_reach:
  "tui_reach s s' \<Longrightarrow> disciplined_threads warns (snd s) \<Longrightarrow> disciplined_threads warns (snd s')"
  by (induction rule: tui_reach.induct) (simp_all add: disciplined_step)

section \<open>What a deadlock looks like\<close>

text \<open>Which locks the holder of a mutex can be waiting for, when every thread waits for a lock.\<close>

definition waits :: "tui_thread \<Rightarrow> mutex \<Rightarrow> bool" where
  "waits th m \<longleftrightarrow> (\<exists>as. todo th = Lock m # as)"

lemma stuck_waits:
  assumes "stuck (t, ths)" and "th \<in> set ths" and "todo th \<noteq> []"
  shows "\<exists>m. waits th m \<and> \<not> mutex_free ths m"
proof -
  obtain i where i: "i < length ths" "ths ! i = th" using assms(2) by (auto simp: in_set_conv_nth)
  obtain a as where a: "todo th = a # as" using assms(3) by (cases "todo th") auto
  show ?thesis
  proof (cases a)
    case (Lock m)
    then show ?thesis using Acquire [OF i(1)] i(2) a assms(1) by (fastforce simp: stuck_def waits_def)
  next
    case (Unlock m)
    then show ?thesis using Release [OF i(1)] i(2) a assms(1) by (fastforce simp: stuck_def)
  next
    case (Run f)
    then show ?thesis using Execute [OF i(1)] i(2) a assms(1) by (cases "f t") (fastforce simp: stuck_def)
  qed
qed

lemma stuck_holder:
  assumes "stuck (t, ths)" and "disciplined_threads warns ths" and "th \<in> set ths" and "m \<in> set (held th)"
  shows "\<exists>m'. waits th m' \<and> \<not> mutex_free ths m' \<and> lock_order warns m' (held th)"
proof -
  have d: "disciplined (lock_order warns) [] (held th) (todo th)"
    using assms(2,3) by (simp add: disciplined_threads_def)
  with assms(4) have "todo th \<noteq> []" by auto
  from stuck_waits [OF assms(1,3) this] d show ?thesis by (auto simp: waits_def)
qed

lemma not_mutex_freeE:
  assumes "\<not> mutex_free ths m"
  obtains th where "th \<in> set ths" "m \<in> set (held th)"
  using assms by (auto simp: mutex_free_def)

lemma stuck_file_free: "stuck (t, ths) \<Longrightarrow> disciplined_threads warns ths \<Longrightarrow> mutex_free ths FileSinkMutex"
  unfolding mutex_free_def
proof (intro ballI notI)
  fix th assume "stuck (t, ths)" "disciplined_threads warns ths" "th \<in> set ths" "FileSinkMutex \<in> set (held th)"
  from stuck_holder [OF this] obtain m' where "lock_order warns m' (held th)" by blast
  with \<open>FileSinkMutex \<in> set (held th)\<close> show False by (cases m') auto
qed

lemma stuck_console_holder:
  assumes "stuck (t, ths)" and "disciplined_threads warns ths" and "th \<in> set ths" and "ConsoleMutex \<in> set (held th)"
  shows "held th = [ConsoleMutex] \<and> waits th ChannelsMutex \<and> \<not> mutex_free ths ChannelsMutex"
proof -
  from stuck_holder [OF assms] obtain m' where m: "waits th m'" "\<not> mutex_free ths m'" "lock_order warns m' (held th)"
    by blast
  then show ?thesis using assms(4) by (cases m') auto
qed

lemma stuck_callback_holder:
  assumes "stuck (t, ths)" and "disciplined_threads warns ths" and "th \<in> set ths" and "CallbackSinkMutex \<in> set (held th)"
  shows "\<not> mutex_free ths ConsoleMutex"
proof -
  from stuck_holder [OF assms] obtain m' where m: "waits th m'" "\<not> mutex_free ths m'" "lock_order warns m' (held th)"
    by blast
  then show ?thesis using assms(4) by (cases m') auto
qed

lemma stuck_channels_holder:
  assumes "stuck (t, ths)" and "disciplined_threads warns ths" and "th \<in> set ths" and "ChannelsMutex \<in> set (held th)"
  shows "warns \<and> \<not> mutex_free ths ConsoleMutex \<and> (waits th CallbackSinkMutex \<or> waits th ConsoleMutex)"
proof -
  from stuck_holder [OF assms] obtain m' where m: "waits th m'" "\<not> mutex_free ths m'" "lock_order warns m' (held th)"
    by blast
  from m(2) have "m' \<noteq> FileSinkMutex" using stuck_file_free [OF assms(1,2)] by auto
  moreover have "m' \<noteq> ChannelsMutex" using m(3) assms(4) by auto
  moreover have "\<not> mutex_free ths ConsoleMutex" if "m' = CallbackSinkMutex"
    using m(2) that stuck_callback_holder [OF assms(1,2)] by (blast elim: not_mutex_freeE)
  ultimately show ?thesis using m assms(4) by (cases m') auto
qed

text \<open>The cycle every deadlock contains, and that it needs a registration that logs.\<close>

lemma stuck_cycle:
  assumes "stuck (t, ths)" and "disciplined_threads warns ths"
  shows "warns \<and> (\<exists>th \<in> set ths. \<exists>th' \<in> set ths. held th = [ConsoleMutex] \<and> waits th ChannelsMutex
    \<and> ChannelsMutex \<in> set (held th') \<and> (waits th' CallbackSinkMutex \<or> waits th' ConsoleMutex))"
proof -
  obtain th where th: "th \<in> set ths" "todo th \<noteq> []" using assms(1) by (auto simp: stuck_def finished_def)
  obtain m where m: "\<not> mutex_free ths m" using stuck_waits [OF assms(1) th] by blast
  have "\<not> mutex_free ths ConsoleMutex"
  proof (cases m)
    case ConsoleMutex
    with m show ?thesis by simp
  next
    case ChannelsMutex
    with m show ?thesis using stuck_channels_holder [OF assms] by (blast elim: not_mutex_freeE)
  next
    case FileSinkMutex
    with m show ?thesis using stuck_file_free [OF assms] by simp
  next
    case CallbackSinkMutex
    with m show ?thesis using stuck_callback_holder [OF assms] by (blast elim: not_mutex_freeE)
  qed
  then obtain i where i: "i \<in> set ths" "ConsoleMutex \<in> set (held i)" by (rule not_mutex_freeE)
  from stuck_console_holder [OF assms i]
  have ci: "held i = [ConsoleMutex]" "waits i ChannelsMutex" "\<not> mutex_free ths ChannelsMutex" by simp_all
  from ci(3) obtain j where j: "j \<in> set ths" "ChannelsMutex \<in> set (held j)" by (rule not_mutex_freeE)
  from stuck_channels_holder [OF assms j] ci i j show ?thesis by blast
qed



section \<open>A thread alone\<close>

text \<open>
  \<open>seq as t t'\<close>: the computations of \<open>as\<close> in their order take \<open>t\<close> to \<open>t'\<close>. A single thread
  whose locks are in order runs through its acts like this.
\<close>

inductive seq :: "act list \<Rightarrow> tui \<Rightarrow> tui \<Rightarrow> bool" where
  Seq_done: "seq [] t t"
| Seq_lock: "seq as t t' \<Longrightarrow> seq (Lock m # as) t t'"
| Seq_unlock: "seq as t t' \<Longrightarrow> seq (Unlock m # as) t t'"
| Seq_run: "seq (snd (f t) @ as) (fst (f t)) t' \<Longrightarrow> seq (Run f # as) t t'"

inductive_simps seq_simps [simp]:
  "seq [] t t'"
  "seq (Lock m # as) t t'"
  "seq (Unlock m # as) t t'"
  "seq (Run f # as) t t'"

lemma seq_append: "seq as t t' \<Longrightarrow> seq bs t' t'' \<Longrightarrow> seq (as @ bs) t t''"
  by (induction rule: seq.induct) simp_all

lemma tui_reach_trans: "tui_reach s' s'' \<Longrightarrow> tui_reach s s' \<Longrightarrow> tui_reach s s''"
  by (induction rule: tui_reach.induct) (auto intro: tui_reach.Step)

lemma tui_reach_first: "tui_step s s' \<Longrightarrow> tui_reach s' s'' \<Longrightarrow> tui_reach s s''"
  by (rule tui_reach_trans) (auto intro: tui_reach.intros)

lemma lock_order_not_held: "lock_order warns m st \<Longrightarrow> m \<notin> set st"
  by (cases m) auto

lemma seq_reach:
  assumes "seq as t t'" and "disciplined (lock_order warns) b st as"
  shows "tui_reach (t, [\<lparr>held = st, todo = as\<rparr>]) (t', [\<lparr>held = b, todo = []\<rparr>])"
  using assms
proof (induction arbitrary: st rule: seq.induct)
  case (Seq_done t)
  then show ?case by (simp add: tui_reach.Refl)
next
  case (Seq_lock as t t' m)
  then have "lock_order warns m st" and rest: "tui_reach (t, [\<lparr>held = m # st, todo = as\<rparr>]) (t', [\<lparr>held = b, todo = []\<rparr>])"
    by simp_all
  moreover have "tui_step (t, [\<lparr>held = st, todo = Lock m # as\<rparr>]) (t, [\<lparr>held = m # st, todo = as\<rparr>])"
    using Acquire [of 0 "[\<lparr>held = st, todo = Lock m # as\<rparr>]" m as t] lock_order_not_held [OF \<open>lock_order warns m st\<close>]
    by (simp add: mutex_free_def)
  ultimately show ?case by (blast intro: tui_reach_first)
next
  case (Seq_unlock as t t' m)
  then obtain st' where st: "st = m # st'" and rest: "tui_reach (t, [\<lparr>held = st', todo = as\<rparr>]) (t', [\<lparr>held = b, todo = []\<rparr>])"
    by auto
  have "tui_step (t, [\<lparr>held = st, todo = Unlock m # as\<rparr>]) (t, [\<lparr>held = st', todo = as\<rparr>])"
    using Release [of 0 "[\<lparr>held = st, todo = Unlock m # as\<rparr>]" m as t] by (simp add: st)
  with rest show ?case by (blast intro: tui_reach_first)
next
  case (Seq_run f t as t')
  then have "disciplined (lock_order warns) b st (snd (f t) @ as)" by simp
  from Seq_run.IH [OF this]
  have rest: "tui_reach (fst (f t), [\<lparr>held = st, todo = snd (f t) @ as\<rparr>]) (t', [\<lparr>held = b, todo = []\<rparr>])" .
  have "tui_step (t, [\<lparr>held = st, todo = Run f # as\<rparr>]) (fst (f t), [\<lparr>held = st, todo = snd (f t) @ as\<rparr>])"
    using Execute [of 0 "[\<lparr>held = st, todo = Run f # as\<rparr>]" f as t "fst (f t)" "snd (f t)"] by simp
  with rest show ?case by (blast intro: tui_reach_first)
qed

text \<open>The sequential meaning of a call: the operations of the interface themselves.\<close>

definition log_call :: "int \<Rightarrow> level \<Rightarrow> string \<Rightarrow> tui \<Rightarrow> tui" where
  "log_call now lvl payload =
     tui_sink_callback now \<lparr>msg_logger_name = ''CS2RemoteConsole-Client'', msg_level = lvl, msg_payload = payload\<rparr>"

fun call_meaning :: "tui_call \<Rightarrow> tui \<Rightarrow> tui" where
  "call_meaning (AddMessage now channelId message msgColor) = addConsoleMessage now channelId message msgColor"
| "call_meaning (Log now lvl payload) = log_call now lvl payload"
| "call_meaning (RegisterChannel env now chanId name color backgroundColor) =
     registerChannel env (log_call now Warn) chanId name color backgroundColor"
| "call_meaning (Iteration logs env ch now) =
     run_iteration (Some (\<lambda>line. fold (\<lambda>(lvl, payload). log_call now lvl payload) (logs line))) (env, ch, now)"

lemma seq_addConsoleMessage: "seq (addConsoleMessage_acts now chan msg color) t (addConsoleMessage now chan msg color t)"
  by (simp add: addConsoleMessage_acts_def)

lemma seq_log: "seq (log_acts now lvl payload) t (log_call now lvl payload t)"
  by (simp add: log_acts_def addConsoleMessage_acts_def log_call_def tui_sink_callback_def)

lemma seq_logs:
  "seq (concat (map (\<lambda>(lvl, payload). log_acts now lvl payload) ls)) t
     (fold (\<lambda>(lvl, payload). log_call now lvl payload) ls t)"
  by (induction ls arbitrary: t) (auto intro: seq_append [OF seq_log])

lemma registerChannel_out_of_pairs:
  "registerChannel env warn chanId name color bg t =
     (if out_of_pairs env color t
      then (warn (''[TUI] Ran out of color pairs. Using default color for channel: '' @ name) t)
             \<lparr>m_channels := (m_channels (warn (''[TUI] Ran out of color pairs. Using default color for channel: '' @ name) t))
               (chanId \<mapsto> \<lparr>cc_name = name, cc_color = color, cc_colorPairId = 0\<rparr>)\<rparr>
      else registerChannel env (\<lambda>_ t. t) chanId name color bg t)"
  by (auto simp: registerChannel_def out_of_pairs_def split: option.split)

lemma seq_registerChannel:
  "seq (registerChannel_acts env now chanId name color bg) t
     (registerChannel env (log_call now Warn) chanId name color bg t)"
proof (cases "out_of_pairs env color t")
  case True
  then show ?thesis
    by (auto simp: registerChannel_acts_def registerChannel_out_of_pairs [of env "log_call now Warn"]
        intro!: seq_append [OF seq_log])
next
  case False
  then show ?thesis by (simp add: registerChannel_acts_def registerChannel_out_of_pairs [of env "log_call now Warn"])
qed

lemma log_call_inputBuffer [simp]: "m_inputBuffer (log_call now lvl payload t) = m_inputBuffer t"
  by (simp add: log_call_def tui_sink_callback_def)

lemma logs_inputBuffer [simp]:
  "m_inputBuffer (fold (\<lambda>(lvl, payload). log_call now lvl payload) ls t) = m_inputBuffer t"
  by (induction ls arbitrary: t) auto

lemma seq_handleInput:
  "seq (handleInput_acts logs now ch) t
     (handleInput (Some (\<lambda>line. fold (\<lambda>(lvl, payload). log_call now lvl payload) (logs line))) now ch t)"
proof (cases "ch = Some (Ch 10)")
  case True
  then show ?thesis
    by (auto simp: handleInput_acts_def enter_acts_def enter_key_def Let_def
        intro!: seq_append [OF seq_logs] seq_append [OF seq_addConsoleMessage])
next
  case False
  then have "handleInput cb now ch t = handleInput None now ch t" for cb
    by (cases "(cb, now, ch, t)" rule: handleInput.cases) auto
  then show ?thesis using False by (simp add: handleInput_acts_def)
qed

lemma seq_frame:
  "seq (frame_acts now) t
     (if m_consoleDirty t \<and> now - m_lastUpdate t \<ge> 16000000
      then (drawWindows t)\<lparr>m_consoleDirty := False, m_lastUpdate := now\<rparr> else t)"
  by (simp add: frame_acts_def drawWindows_acts_def drawWindows_def)

lemma seq_call: "seq (call_acts c) t (call_meaning c t)"
proof (cases c)
  case (Iteration logs env ch now)
  let ?cb = "Some (\<lambda>line. fold (\<lambda>(lvl, payload). log_call now lvl payload) (logs line))"
  let ?t1 = "if m_needsResize t then (handleResize env t)\<lparr>m_needsResize := False\<rparr> else t"
  have "seq (resize_acts env) t ?t1" by (simp add: resize_acts_def)
  from seq_append [OF this seq_append [OF seq_handleInput seq_frame]] Iteration
  show ?thesis by (simp add: run_iteration_def Let_def)
qed (simp_all add: seq_addConsoleMessage seq_log seq_registerChannel)

text \<open>
  C10: The acts are the code. A thread that makes its calls with no other thread running
  never blocks: it can run to its end, with every mutex released, and the interface is then
  what the calls make of it one after the other, the warnings and the lines logged by the
  command callback included.
\<close>

theorem calls_alone:
  "tui_reach (t, [thread_start calls]) (fold call_meaning calls t, [\<lparr>held = [], todo = []\<rparr>])"
proof -
  have "seq (thread_acts calls) t (fold call_meaning calls t)"
    by (induction calls arbitrary: t) (auto simp: thread_acts_def intro: seq_append [OF seq_call])
  moreover have "disciplined (lock_order True) [] [] (thread_acts calls)"
    by (auto simp: thread_acts_def intro!: disciplined_concat disciplined_call)
  ultimately show ?thesis unfolding thread_start_def by (rule seq_reach)
qed

section \<open>Two schedules of the event loop and a listener\<close>

text \<open>Running the threads in a given order; \<open>None\<close> when the next one is blocked or has finished.\<close>

fun run_schedule :: "nat list \<Rightarrow> tui \<times> tui_thread list \<Rightarrow> (tui \<times> tui_thread list) option" where
  "run_schedule [] s = Some s"
| "run_schedule (i # is) (t, ths) =
     (if i < length ths then
        case todo (ths ! i) of
          [] \<Rightarrow> None
        | Lock m # as \<Rightarrow>
            if mutex_free ths m then run_schedule is (t, ths[i := \<lparr>held = m # held (ths ! i), todo = as\<rparr>]) else None
        | Unlock m # as \<Rightarrow> run_schedule is (t, ths[i := \<lparr>held = remove1 m (held (ths ! i)), todo = as\<rparr>])
        | Run f # as \<Rightarrow> run_schedule is (fst (f t), ths[i := \<lparr>held = held (ths ! i), todo = snd (f t) @ as\<rparr>])
      else None)"

lemma run_schedule_reach: "run_schedule is s = Some s' \<Longrightarrow> tui_reach s s'"
proof (induction "is" s rule: run_schedule.induct)
  case (1 s)
  then show ?case by (simp add: tui_reach.Refl)
next
  case (2 i "is" t ths)
  from 2(4) have i: "i < length ths" by (simp split: if_splits)
  from 2(4) i obtain a as where a: "todo (ths ! i) = a # as" by (cases "todo (ths ! i)") auto
  show ?case
  proof (cases a)
    case (Lock m)
    with 2 i a show ?thesis
      by (auto split: if_splits intro: tui_reach_first [OF Acquire [OF i]])
  next
    case (Unlock m)
    with 2 i a show ?thesis by (auto intro: tui_reach_first [OF Release [OF i]])
  next
    case (Run f)
    with 2 i a show ?thesis
      by (auto intro: tui_reach_first [OF Execute [OF i, where f = f and t = t and t' = "fst (f t)" and bs = "snd (f t)"]])
  qed
qed

lemma stuckI:
  assumes "ths \<noteq> []" and "\<And>th. th \<in> set ths \<Longrightarrow> \<exists>m. waits th m \<and> \<not> mutex_free ths m"
  shows "stuck (t, ths)"
proof -
  have "\<not> tui_step (t, ths) s'" for s'
    using assms(2) [OF nth_mem] by (fastforce elim!: tui_stepE simp: waits_def)
  moreover have "todo (hd ths) \<noteq> []" using assms(2) [of "hd ths"] assms(1) by (auto simp: waits_def)
  then have "\<not> finished ths" using assms(1) by (auto simp: finished_def)
  ultimately show ?thesis by (simp add: stuck_def)
qed

definition listener_against_loop :: "curses \<Rightarrow> int \<Rightarrow> tui_call \<Rightarrow> tui_thread list" where
  "listener_against_loop scr now call =
     map thread_start [[Iteration (\<lambda>_. []) scr None now], [call]]"

lemma deadlock_schedule:
  assumes "m_consoleDirty t" and "16000000 \<le> now - m_lastUpdate t" and "\<not> m_needsResize t"
    and "out_of_pairs env color t"
  shows "\<exists>ths. tui_reach (t, listener_against_loop scr now (RegisterChannel env time chan name color bg)) (t, ths)
    \<and> stuck (t, ths)"
proof -
  obtain ths where
    run: "run_schedule [0, 0, 0, 0, 1, 1, 1, 1, 1] (t, listener_against_loop scr now (RegisterChannel env time chan name color bg))
      = Some (t, ths)" and
    ths: "map held ths = [[ConsoleMutex], [CallbackSinkMutex, ChannelsMutex]]"
      "map (hd \<circ> todo) ths = [Lock ChannelsMutex, Lock ConsoleMutex]" "map (\<lambda>th. todo th = []) ths = [False, False]"
    using assms
    by (simp add: listener_against_loop_def thread_start_def thread_acts_def resize_acts_def handleInput_acts_def
        frame_acts_def drawWindows_acts_def registerChannel_acts_def log_acts_def addConsoleMessage_acts_def
        mutex_free_def)
  from ths obtain a b where ab: "ths = [a, b]" by (auto simp: map_eq_Cons_conv)
  have "waits a ChannelsMutex" "waits b ConsoleMutex"
    using ths by (auto simp: ab waits_def neq_Nil_conv)
  moreover have "\<not> mutex_free ths ChannelsMutex" "\<not> mutex_free ths ConsoleMutex"
    using ths(1) by (simp_all add: ab mutex_free_def)
  ultimately have "stuck (t, ths)" by (intro stuckI) (auto simp: ab)
  with run_schedule_reach [OF run] show ?thesis by blast
qed

text \<open>
  C12: Drawing and a registration on a full table can block each other for ever. Whenever a
  frame is due while a listener registers a channel for which no colour pair is left, some
  schedule leads to a state in which neither thread can ever go on.
\<close>

theorem draw_and_full_registration_deadlock:
  assumes "m_consoleDirty t" and "16000000 \<le> now - m_lastUpdate t" and "\<not> m_needsResize t"
    and "out_of_pairs env color t"
  shows "\<exists>ths. tui_reach (t, listener_against_loop scr now (RegisterChannel env time chan name color bg)) (t, ths)
    \<and> stuck (t, ths)"
  using assms by (rule deadlock_schedule)

definition full_tui :: tui where
  "full_tui = (TUI_new True False)\<lparr>m_nextColorPairId := 2, m_consoleDirty := True\<rparr>"

theorem draw_and_full_registration_deadlock_witness:
  "\<exists>ths. tui_reach (full_tui, listener_against_loop small_terminal 16000000
       (RegisterChannel small_terminal 5 7 ''Physics'' 0xFF0000FF 0)) (full_tui, ths) \<and> stuck (full_tui, ths)"
  by (rule draw_and_full_registration_deadlock)
    (simp_all add: full_tui_def TUI_new_def out_of_pairs_def small_terminal_def)



text \<open>
  A message can miss its frame. A listener that adds a message while the event loop is
  between drawing and clearing \<open>m_consoleDirty\<close> loses the redraw it asked for: both threads
  finish, the message is in the history, but what was drawn is the frame without it and the flag
  says that nothing is left to draw.
\<close>

theorem message_can_miss_its_frame:
  assumes "m_consoleDirty t" and "16000000 \<le> now - m_lastUpdate t" and "\<not> m_needsResize t"
  shows "\<exists>t' ths. tui_reach (t, listener_against_loop scr now (AddMessage time chan message color)) (t', ths)
    \<and> finished ths \<and> \<not> m_consoleDirty t' \<and> tui_out t' = tui_out (drawWindows t)
    \<and> m_consoleMessages t' = m_consoleMessages (addConsoleMessage time chan message color t)"
proof -
  let ?start = "(t, listener_against_loop scr now (AddMessage time chan message color))"
  let ?t1 = "emit [Doupdate] (drawInputWindow (drawConsoleWindow t))"
  let ?t2 = "addConsoleMessage time chan message color ?t1"
  obtain t' ths where run: "run_schedule [0, 0, 0, 0, 0, 0, 0, 0, 0, 1, 1, 1, 0, 0] ?start = Some (t', ths)"
    and t': "t' = ?t2\<lparr>m_consoleDirty := False, m_lastUpdate := now\<rparr>" and fin: "finished ths"
    using assms
    by (simp add: listener_against_loop_def thread_start_def thread_acts_def resize_acts_def handleInput_acts_def
        frame_acts_def drawWindows_acts_def addConsoleMessage_acts_def mutex_free_def finished_def)
  have "m_consoleMessages t' = m_consoleMessages (addConsoleMessage time chan message color t)"
    by (simp add: t' addConsoleMessage_def emit_def drawInputWindow_def Let_def)
  moreover have "tui_out t' = tui_out (drawWindows t)" by (simp add: t' drawWindows_def)
  moreover have "\<not> m_consoleDirty t'" by (simp add: t')
  ultimately show ?thesis using run_schedule_reach [OF run] fin by blast
qed

theorem message_can_miss_its_frame_witness:
  "\<exists>t' ths. tui_reach (full_tui, listener_against_loop small_terminal 16000000 (AddMessage 5 7 ''ready'' 0)) (t', ths)
    \<and> finished ths \<and> \<not> m_consoleDirty t' \<and> m_consoleMessages t' = [message_of (5, 7, ''ready'', 0)]"
proof -
  have "m_consoleMessages (addConsoleMessage 5 7 ''ready'' 0 full_tui) = [message_of (5, 7, ''ready'', 0)]"
    by (simp add: addConsoleMessage_def message_of_def full_tui_def TUI_new_def MAX_CONSOLE_MESSAGES_def)
  with message_can_miss_its_frame [of full_tui 16000000 small_terminal 5 7 "''ready''" 0] show ?thesis
    by (auto simp: full_tui_def TUI_new_def)
qed

end
