(* ===== verification/Spdlog_Registry.thy ===== *)
theory Spdlog_Registry
  imports Spdlog "HOL-Library.AList"
begin

text \<open>
  spdlog's logger registry (\<open>details/registry-inl.h\<close>, reached through \<open>spdlog-inl.h\<close>).
  Loggers are shared by pointer: the registry's map, the default logger and the program
  hold references into a heap of loggers, so that a level set through one is seen by all.
  The maps are association lists (\<open>operator[]\<close> is \<open>AList.update\<close>); the mutexes, the
  thread pool, the flusher thread and the formatters are not modelled.
\<close>

section \<open>State and operations\<close>

record 's registry =
  reg_heap :: "nat \<Rightarrow> 's logger"
  reg_next :: nat
  reg_loggers :: "(string \<times> nat) list"
  reg_default :: "nat option"
  reg_log_levels :: "(string \<times> level) list"
  reg_global_level :: level
  reg_flush_level :: level
  reg_backtrace_n :: nat
  reg_automatic :: bool

text \<open>\<open>std::make_shared<logger>(\<dots>)\<close>: a new object and its reference.\<close>

definition make_logger :: "'s logger \<Rightarrow> 's registry \<Rightarrow> nat \<times> 's registry" where
  "make_logger lg reg =
     (reg_next reg, reg\<lparr>reg_heap := (reg_heap reg)(reg_next reg := lg), reg_next := reg_next reg + 1\<rparr>)"

definition registry_new :: "'s sink \<Rightarrow> 's registry" where
  "registry_new color_sink =
     \<lparr>reg_heap = (\<lambda>_. logger_new '''' [color_sink]), reg_next = 1, reg_loggers = [('''', 0)],
      reg_default = Some 0, reg_log_levels = [], reg_global_level = Info, reg_flush_level = Off,
      reg_backtrace_n = 0, reg_automatic = True\<rparr>"

definition logger_at :: "'s registry \<Rightarrow> nat \<Rightarrow> 's logger" where
  "logger_at reg r = reg_heap reg r"

definition update_at :: "nat \<Rightarrow> ('s logger \<Rightarrow> 's logger) \<Rightarrow> 's registry \<Rightarrow> 's registry" where
  "update_at r f reg = reg\<lparr>reg_heap := (reg_heap reg)(r := f (reg_heap reg r))\<rparr>"

text \<open>\<open>for (auto &l : loggers_) l.second->f();\<close>\<close>

definition registered :: "'s registry \<Rightarrow> nat \<Rightarrow> bool" where
  "registered reg r \<longleftrightarrow> r \<in> snd ` set (reg_loggers reg)"

definition for_all_loggers :: "('s logger \<Rightarrow> 's logger) \<Rightarrow> 's registry \<Rightarrow> 's registry" where
  "for_all_loggers f reg =
     reg\<lparr>reg_heap := (\<lambda>r. if registered reg r then f (reg_heap reg r) else reg_heap reg r)\<rparr>"

datatype spdlog_ex = Logger_exists string

definition throw_if_exists :: "string \<Rightarrow> 's registry \<Rightarrow> spdlog_ex option" where
  "throw_if_exists name reg =
     (if map_of (reg_loggers reg) name \<noteq> None
      then Some (Logger_exists (''logger with name '' @ [CHR 0x27] @ name @ [CHR 0x27] @ '' already exists''))
      else None)"

definition register_logger :: "nat \<Rightarrow> 's registry \<Rightarrow> spdlog_ex + 's registry" where
  "register_logger r reg =
     (let name = logger_name (logger_at reg r) in
      case throw_if_exists name reg of
        Some ex \<Rightarrow> Inl ex
      | None \<Rightarrow> Inr (reg\<lparr>reg_loggers := AList.update name r (reg_loggers reg)\<rparr>))"

definition configured_level :: "'s registry \<Rightarrow> string \<Rightarrow> level" where
  "configured_level reg name =
     (case map_of (reg_log_levels reg) name of Some l \<Rightarrow> l | None \<Rightarrow> reg_global_level reg)"

definition initialize_logger :: "nat \<Rightarrow> 's registry \<Rightarrow> spdlog_ex + 's registry" where
  "initialize_logger r reg =
     (let new_level = configured_level reg (logger_name (logger_at reg r));
          reg = update_at r (logger_set_level new_level) reg;
          reg = update_at r (logger_flush_on (reg_flush_level reg)) reg;
          reg = (if reg_backtrace_n reg > 0
                 then update_at r (logger_enable_backtrace (reg_backtrace_n reg)) reg else reg)
      in if reg_automatic reg then register_logger r reg else Inr reg)"

definition registry_get :: "string \<Rightarrow> 's registry \<Rightarrow> nat option" where
  "registry_get name reg = map_of (reg_loggers reg) name"

definition set_default_logger :: "nat option \<Rightarrow> 's registry \<Rightarrow> 's registry" where
  "set_default_logger new_default reg =
     (let reg = (case new_default of
                   Some r \<Rightarrow> reg\<lparr>reg_loggers := AList.update (logger_name (logger_at reg r)) r (reg_loggers reg)\<rparr>
                 | None \<Rightarrow> reg)
      in reg\<lparr>reg_default := new_default\<rparr>)"

definition registry_set_level :: "level \<Rightarrow> 's registry \<Rightarrow> 's registry" where
  "registry_set_level lvl reg = (for_all_loggers (logger_set_level lvl) reg)\<lparr>reg_global_level := lvl\<rparr>"

definition registry_flush_on :: "level \<Rightarrow> 's registry \<Rightarrow> 's registry" where
  "registry_flush_on lvl reg = (for_all_loggers (logger_flush_on lvl) reg)\<lparr>reg_flush_level := lvl\<rparr>"

definition registry_enable_backtrace :: "nat \<Rightarrow> 's registry \<Rightarrow> 's registry" where
  "registry_enable_backtrace n reg =
     for_all_loggers (logger_enable_backtrace n) (reg\<lparr>reg_backtrace_n := n\<rparr>)"

definition registry_disable_backtrace :: "'s registry \<Rightarrow> 's registry" where
  "registry_disable_backtrace reg =
     for_all_loggers logger_disable_backtrace (reg\<lparr>reg_backtrace_n := 0\<rparr>)"

definition registry_drop :: "string \<Rightarrow> 's registry \<Rightarrow> 's registry" where
  "registry_drop name reg =
     (let is_default = (case reg_default reg of
                          None \<Rightarrow> False | Some r \<Rightarrow> logger_name (logger_at reg r) = name);
          reg = reg\<lparr>reg_loggers := AList.delete name (reg_loggers reg)\<rparr>
      in if is_default then reg\<lparr>reg_default := None\<rparr> else reg)"

definition registry_drop_all :: "'s registry \<Rightarrow> 's registry" where
  "registry_drop_all reg = reg\<lparr>reg_loggers := [], reg_default := None\<rparr>"

definition registry_set_levels :: "(string \<times> level) list \<Rightarrow> level option \<Rightarrow> 's registry \<Rightarrow> 's registry" where
  "registry_set_levels levels global_level reg =
     (let reg = reg\<lparr>reg_log_levels := levels,
                    reg_global_level := (case global_level of Some g \<Rightarrow> g | None \<Rightarrow> reg_global_level reg)\<rparr>;
          set_one = (\<lambda>(name, r). case map_of levels name of
                       Some l \<Rightarrow> update_at r (logger_set_level l)
                     | None \<Rightarrow> (case global_level of
                         Some g \<Rightarrow> update_at r (logger_set_level g) | None \<Rightarrow> (\<lambda>reg. reg)))
      in fold set_one (reg_loggers reg) reg)"

definition apply_logger_env_levels :: "nat \<Rightarrow> 's registry \<Rightarrow> 's registry" where
  "apply_logger_env_levels r reg =
     update_at r (logger_set_level (configured_level reg (logger_name (logger_at reg r)))) reg"

text \<open>\<open>spdlog::info(\<dots>)\<close> and its kin: a call on the raw default logger, \<open>None\<close> if it is null.\<close>

definition spdlog_log :: "level \<Rightarrow> string \<Rightarrow> 's registry \<Rightarrow> 's \<Rightarrow> ('s registry \<times> 's) option" where
  "spdlog_log lvl payload reg s =
     (case reg_default reg of
        None \<Rightarrow> None
      | Some r \<Rightarrow>
          (case logger_log lvl payload (logger_at reg r) s of (lg, s1) \<Rightarrow>
             Some (update_at r (\<lambda>_. lg) reg, s1)))"

section \<open>Which loggers a level reaches\<close>

lemma logger_at_set_level:
  "logger_at (registry_set_level lvl reg) r =
     (if registered reg r then logger_set_level lvl (logger_at reg r) else logger_at reg r)"
  by (simp add: registry_set_level_def for_all_loggers_def logger_at_def)

lemma registered_default:
  "registered (set_default_logger (Some r) reg) r"
proof -
  let ?name = "logger_name (logger_at reg r)"
  have "map_of (AList.update ?name r (reg_loggers reg)) ?name = Some r" by (simp add: update_conv)
  then have "(?name, r) \<in> set (AList.update ?name r (reg_loggers reg))" by (rule map_of_SomeD)
  then show ?thesis by (force simp: registered_def set_default_logger_def)
qed

text \<open>
  The two ways a fresh logger can enter the registry: \<open>initialize_logger\<close> gives it the
  level that was set before, \<open>set_default_logger\<close> leaves the constructor's.
\<close>

lemma initialize_logger_level:
  assumes "initialize_logger r (registry_set_level lvl reg) = Inr reg'" "reg_log_levels reg = []"
  shows "logger_level (logger_at reg' r) = lvl"
proof -
  have "configured_level (registry_set_level lvl reg) name = lvl" for name
    using assms(2) by (simp add: configured_level_def registry_set_level_def for_all_loggers_def)
  then show ?thesis
    using assms(1)
    by (auto simp: initialize_logger_def Let_def register_logger_def logger_at_def update_at_def
        logger_set_level_def logger_flush_on_def logger_enable_backtrace_def
        split: if_splits option.splits)
qed

text \<open>The logger lines of the client's \<open>main\<close>.\<close>

definition main_logger_setup :: "string \<Rightarrow> 's sink list \<Rightarrow> 's registry \<Rightarrow> 's registry" where
  "main_logger_setup name sinks reg =
     (case make_logger (logger_new name sinks) (registry_set_level Debug reg) of (r, reg1) \<Rightarrow>
        set_default_logger (Some r) reg1)"

text \<open>
  The client's debug messages are never logged. \<open>main\<close> calls \<open>set_level(debug)\<close>
  before it builds its own logger and installs it with \<open>set_default_logger\<close>; that level
  reaches the loggers registered at that moment only, so the new default logger keeps the
  constructor's level \<open>info\<close>: a debug call changes no sink, an info call reaches them.
\<close>
theorem debug_level_lost:
  "(case spdlog_log Debug p (main_logger_setup name sinks reg) s of
      Some (reg', s') \<Rightarrow> s' = s | None \<Rightarrow> False)
   \<and> (case spdlog_log Info p (main_logger_setup name sinks reg) s of
      Some (reg', s') \<Rightarrow>
        s' = logger_sink_it (logger_new name sinks)
               \<lparr>msg_logger_name = name, msg_level = Info, msg_payload = p\<rparr> s
    | None \<Rightarrow> False)"
  by (simp add: main_logger_setup_def make_logger_def spdlog_log_def set_default_logger_def
      logger_at_def logger_log_def logger_log_it_def logger_new_def should_log_def
      backtracer_new_def less_eq_level_def Let_def)

text \<open>
  Levels follow references. \<open>set_level\<close> changes a logger exactly when the registry's
  map refers to it, the installed default logger included, and every logger initialised
  afterwards through \<open>initialize_logger\<close> starts at that level, so that raising and then
  initialising is the order that works.
\<close>

theorem set_level_reaches_registered:
  "(registered reg r \<longrightarrow> logger_level (logger_at (registry_set_level lvl reg) r) = lvl)
   \<and> (\<not> registered reg r \<longrightarrow> logger_at (registry_set_level lvl reg) r = logger_at reg r)
   \<and> registered (set_default_logger (Some d) reg) d
   \<and> (reg_log_levels reg = [] \<and> initialize_logger r (registry_set_level lvl reg) = Inr reg'
        \<longrightarrow> logger_level (logger_at reg' r) = lvl)"
  by (auto simp: logger_at_set_level logger_set_level_def registered_default dest: initialize_logger_level)

definition sample_registry :: "log_msg list registry" where
  "sample_registry = snd (make_logger sample_logger (registry_new (callback_sink (\<lambda>m s. s))))"

theorem set_level_reaches_registered_witness:
  "registered sample_registry 0 \<and> \<not> registered sample_registry 1
   \<and> logger_level (logger_at (registry_set_level Warn sample_registry) 0) = Warn
   \<and> logger_at (registry_set_level Warn sample_registry) 1 = logger_at sample_registry 1
   \<and> (case initialize_logger 1 (registry_set_level Warn sample_registry) of
        Inr reg' \<Rightarrow> logger_level (logger_at reg' 1) = Warn | Inl _ \<Rightarrow> False)"
proof -
  have reg: "registered sample_registry 0" "\<not> registered sample_registry 1"
      "reg_log_levels sample_registry = []"
    by (simp_all add: sample_registry_def make_logger_def registry_new_def registered_def)
  obtain reg' where init: "initialize_logger 1 (registry_set_level Warn sample_registry) = Inr reg'"
    by (simp add: initialize_logger_def sample_registry_def make_logger_def registry_new_def
        registry_set_level_def for_all_loggers_def registered_def update_at_def logger_at_def
        register_logger_def throw_if_exists_def sample_logger_def logger_new_def
        logger_set_level_def logger_flush_on_def Let_def)
  show ?thesis
    using set_level_reaches_registered [of sample_registry 0 Warn 0]
      set_level_reaches_registered [of sample_registry 1 Warn 1 reg'] reg init
    by simp
qed

end
