(* ===== verification/Number_Text.thy ===== *)
theory Number_Text
  imports Prelude
begin

text \<open>
  Decimal text: what \<open>std::stoi\<close> and \<open>atoi\<close> make of a string, and how a number is
  printed. Both conversions are \<open>strtol\<close> in base 10: leading white space, an optional
  sign, digits, and whatever follows is ignored.
\<close>

section \<open>Conversions\<close>

definition isspace :: "char \<Rightarrow> bool" where
  "isspace c \<longleftrightarrow> (let n = (of_char c :: nat) in n = 32 \<or> (9 \<le> n \<and> n \<le> 13))"

definition isdigit :: "char \<Rightarrow> bool" where
  "isdigit c \<longleftrightarrow> (let n = (of_char c :: nat) in 48 \<le> n \<and> n \<le> 57)"

definition digit_value :: "char \<Rightarrow> int" where
  "digit_value c = of_char c - 48"

definition digits_value :: "string \<Rightarrow> int" where
  "digits_value ds = foldl (\<lambda>v c. 10 * v + digit_value c) 0 ds"

text \<open>The sign and the rest; \<open>None\<close> when there are no digits to convert.\<close>

definition split_sign :: "string \<Rightarrow> bool \<times> string" where
  "split_sign s = (case s of
      [] \<Rightarrow> (False, [])
    | c # r \<Rightarrow> if c = CHR ''-'' then (True, r) else if c = CHR ''+'' then (False, r) else (False, s))"

definition strtol10 :: "string \<Rightarrow> int option" where
  "strtol10 s =
     (case split_sign (dropWhile isspace s) of (neg, t) \<Rightarrow>
        let ds = takeWhile isdigit t in
        if ds = [] then None
        else Some (if neg then - digits_value ds else digits_value ds))"

definition INT_MIN :: int where "INT_MIN = -2147483648"
definition INT_MAX :: int where "INT_MAX = 2147483647"

datatype stoi_error = Invalid_argument | Out_of_range

definition stoi :: "string \<Rightarrow> stoi_error + int" where
  "stoi s = (case strtol10 s of
      None \<Rightarrow> Inl Invalid_argument
    | Some v \<Rightarrow> if v < INT_MIN \<or> INT_MAX < v then Inl Out_of_range else Inr v)"

text \<open>\<open>atoi\<close> answers 0 where there is no number; out of range its behaviour is undefined.\<close>

definition atoi :: "string \<Rightarrow> fault + int" where
  "atoi s = (case strtol10 s of
      None \<Rightarrow> Inr 0
    | Some v \<Rightarrow> if v < INT_MIN \<or> INT_MAX < v then Inl ArithmeticOverflow else Inr v)"

lemma stoi_range: "stoi s = Inr v \<Longrightarrow> INT_MIN \<le> v \<and> v \<le> INT_MAX"
  by (auto simp: stoi_def split: option.splits if_splits)

section \<open>Printing\<close>

fun show_nat :: "nat \<Rightarrow> string" where
  "show_nat n = (if n < 10 then [char_of (48 + n)] else show_nat (n div 10) @ [char_of (48 + n mod 10)])"

declare show_nat.simps [simp del]

lemma digit_chars [simp]:
  "char_of (48 :: nat) = CHR ''0''"
  "char_of (49 :: nat) = CHR ''1''"
  "char_of (50 :: nat) = CHR ''2''"
  "char_of (51 :: nat) = CHR ''3''"
  "char_of (52 :: nat) = CHR ''4''"
  "char_of (53 :: nat) = CHR ''5''"
  "char_of (54 :: nat) = CHR ''6''"
  "char_of (55 :: nat) = CHR ''7''"
  "char_of (56 :: nat) = CHR ''8''"
  "char_of (57 :: nat) = CHR ''9''"
  by code_simp+

text \<open>C++ division of \<open>int\<close>s by a positive number, which truncates towards zero.\<close>

definition cdiv :: "int \<Rightarrow> int \<Rightarrow> int" where
  "cdiv a b = (if a < 0 then - ((- a) div b) else a div b)"

definition show_int :: "int \<Rightarrow> string" where
  "show_int i = (if i < 0 then CHR ''-'' # show_nat (nat (- i)) else show_nat (nat i))"

section \<open>Printing and converting back\<close>

lemma int_of_char: "(of_char c :: int) = int (of_char c)"
  by (simp add: of_nat_of_char)

lemma digit_char: "d < 10 \<Longrightarrow> isdigit (char_of (48 + d)) \<and> digit_value (char_of (48 + d)) = int d"
  by (simp add: isdigit_def digit_value_def int_of_char Let_def)

lemma show_nat_digits: "list_all isdigit (show_nat n) \<and> show_nat n \<noteq> []"
proof (induction n rule: show_nat.induct)
  case (1 n)
  then show ?case
    by (subst (1 2) show_nat.simps) (auto simp: digit_char)
qed

lemma digits_value_append: "digits_value (ds @ [d]) = 10 * digits_value ds + digit_value d"
  by (simp add: digits_value_def)

lemma digits_value_show_nat: "digits_value (show_nat n) = int n"
proof (induction n rule: show_nat.induct)
  case (1 n)
  show ?case
  proof (cases "n < 10")
    case True
    then show ?thesis
      by (subst show_nat.simps) (simp add: digits_value_def digit_char)
  next
    case False
    with 1 show ?thesis
      by (subst show_nat.simps) (simp add: digits_value_append digit_char zdiv_int zmod_int)
  qed
qed

lemma isdigit_not_space: "isdigit c \<Longrightarrow> \<not> isspace c \<and> c \<noteq> CHR ''-'' \<and> c \<noteq> CHR ''+''"
  by (auto simp: isdigit_def isspace_def Let_def)

lemma takeWhile_digits:
  "list_all isdigit ds \<Longrightarrow> r = [] \<or> \<not> isdigit (hd r) \<Longrightarrow> takeWhile isdigit (ds @ r) = ds"
proof (induction ds)
  case Nil
  then show ?case by (cases r) simp_all
qed simp

lemma strtol10_show:
  assumes "r = [] \<or> \<not> isdigit (hd r)"
  shows "strtol10 (show_int i @ r) = Some i"
proof -
  obtain c cs where ds: "show_nat (nat \<bar>i\<bar>) = c # cs" and c: "isdigit c"
    using show_nat_digits [of "nat \<bar>i\<bar>"] by (cases "show_nat (nat \<bar>i\<bar>)") auto
  have tw: "takeWhile isdigit (show_nat (nat \<bar>i\<bar>) @ r) = show_nat (nat \<bar>i\<bar>)"
    using assms show_nat_digits by (intro takeWhile_digits) auto
  have val: "digits_value (show_nat (nat \<bar>i\<bar>)) = \<bar>i\<bar>" by (simp add: digits_value_show_nat)
  have minus: "\<not> isspace (CHR ''-'')" by (simp add: isspace_def)
  show ?thesis
    using tw val ds isdigit_not_space [OF c] minus
    by (auto simp: strtol10_def show_int_def split_sign_def Let_def)
qed

lemma stoi_show:
  "INT_MIN \<le> i \<Longrightarrow> i \<le> INT_MAX \<Longrightarrow> r = [] \<or> \<not> isdigit (hd r) \<Longrightarrow> stoi (show_int i @ r) = Inr i"
  by (simp add: stoi_def strtol10_show)

lemma atoi_show:
  "INT_MIN \<le> i \<Longrightarrow> i \<le> INT_MAX \<Longrightarrow> r = [] \<or> \<not> isdigit (hd r) \<Longrightarrow> atoi (show_int i @ r) = Inr i"
  by (simp add: atoi_def strtol10_show)

end
