(* ===== verification/Config.thy ===== *)
theory Config
  imports Number_Text Spdlog
begin

text \<open>
  The client's configuration (\<open>CS2RemoteConsole-client/src/config.cpp\<close>, \<open>config.h\<close> and
  \<open>getCurrentDirectory\<close> of \<open>utils.cpp\<close>): reading a file line by line into a map,
  looking keys up as text and as numbers, and trying the file's two locations.

  The file system is a parameter, a map from paths to contents (\<open>None\<close>: cannot be opened).
\<close>

section \<open>std::getline\<close>

text \<open>
  A stream is what is left of it and its \<open>eofbit\<close>. A call fails when nothing can be
  extracted; the delimiter is extracted and dropped; reaching the end sets \<open>eofbit\<close>, after
  which every call fails.
\<close>

type_synonym istream = "string \<times> bool"

definition getline :: "char \<Rightarrow> istream \<Rightarrow> (string \<times> istream) option" where
  "getline delim st =
     (case st of (rest, eof) \<Rightarrow>
        if eof \<or> rest = [] then None
        else let line = takeWhile (\<lambda>c. c \<noteq> delim) rest in
          case drop (length line) rest of
            [] \<Rightarrow> Some (line, ([], True))
          | _ # r \<Rightarrow> Some (line, (r, False)))"

lemma getline_shorter:
  "getline d st = Some (line, st') \<Longrightarrow> length (fst st') < length (fst st)"
proof -
  assume *: "getline d st = Some (line, st')"
  obtain rest eof where st: "st = (rest, eof)" by fastforce
  let ?line = "takeWhile (\<lambda>c. c \<noteq> d) rest"
  have "length (drop (length ?line) rest) \<le> length rest" by simp
  with * st show ?thesis
    by (cases "drop (length ?line) rest") (auto simp: getline_def Let_def split: if_splits)
qed

section \<open>Config\<close>

type_synonym config_map = "string \<rightharpoonup> string"

datatype config_error = Runtime_error string

definition parse_line :: "string \<Rightarrow> (string \<times> string) option" where
  "parse_line line =
     (case getline (CHR ''='') (line, False) of
        None \<Rightarrow> None
      | Some (key, is_line) \<Rightarrow>
          (case getline (CHR 0x0A) is_line of
             None \<Rightarrow> None
           | Some (value, _) \<Rightarrow> Some (key, value)))"

definition store_line :: "string \<Rightarrow> config_map \<Rightarrow> config_map" where
  "store_line line m = (case parse_line line of None \<Rightarrow> m | Some (key, value) \<Rightarrow> m(key \<mapsto> value))"

function load_lines :: "istream \<Rightarrow> config_map \<Rightarrow> config_map" where
  "load_lines file m =
     (case getline (CHR 0x0A) file of
        None \<Rightarrow> m
      | Some (line, file') \<Rightarrow> load_lines file' (store_line line m))"
  by pat_completeness auto
termination
  by (relation "measure (\<lambda>(file, m). length (fst file))") (auto dest: getline_shorter)

declare load_lines.simps [simp del]

definition Config_load :: "(string \<rightharpoonup> string) \<Rightarrow> string \<Rightarrow> config_map \<Rightarrow> config_error + config_map" where
  "Config_load files filename config_map =
     (case files filename of
        None \<Rightarrow> Inl (Runtime_error (''Unable to open config file: '' @ filename))
      | Some content \<Rightarrow> Inr (load_lines (content, False) config_map))"

definition Config_get :: "config_map \<Rightarrow> string \<Rightarrow> string \<Rightarrow> string" where
  "Config_get config_map key default_value =
     (case config_map key of Some v \<Rightarrow> v | None \<Rightarrow> default_value)"

definition Config_getInt :: "config_map \<Rightarrow> string \<Rightarrow> int \<Rightarrow> int" where
  "Config_getInt config_map key default_value =
     (case config_map key of
        Some v \<Rightarrow> (case stoi v of Inr i \<Rightarrow> i | Inl _ \<Rightarrow> default_value)
      | None \<Rightarrow> default_value)"

text \<open>\<open>getCurrentDirectory\<close>: \<open>getcwd\<close> may fail.\<close>

definition getCurrentDirectory :: "string option \<Rightarrow> string" where
  "getCurrentDirectory getcwd = (case getcwd of Some buffer \<Rightarrow> buffer | None \<Rightarrow> '''')"

text \<open>
  \<open>setupConfig\<close> with the log lines it writes. \<open>e.what()\<close> of the exception \<open>load\<close>
  throws is its message.
\<close>

definition config_paths :: "string option \<Rightarrow> string list" where
  "config_paths getcwd = [''config.ini'', getCurrentDirectory getcwd @ [CHR 0x5C] @ ''config.ini'']"

fun try_paths ::
  "(string \<rightharpoonup> string) \<Rightarrow> string list \<Rightarrow> config_map \<Rightarrow> bool \<times> config_map \<times> (level \<times> string) list" where
  "try_paths files [] m =
     (False, m, [(Err, ''[Config] Failed to load config from any location.'')])"
| "try_paths files (path # paths) m =
     (case Config_load files path m of
        Inr m' \<Rightarrow> (True, m', [(Info, ''[Config] Attempting to load config from: '' @ path),
                             (Info, ''[Config] Config loaded successfully from: '' @ path)])
      | Inl (Runtime_error what) \<Rightarrow>
          (case try_paths files paths m of (ok, m', logs) \<Rightarrow>
             (ok, m', [(Info, ''[Config] Attempting to load config from: '' @ path),
                       (Err, ''[Config] Failed to load config from: '' @ path @ '': '' @ what)] @ logs)))"

definition setupConfig ::
  "(string \<rightharpoonup> string) \<Rightarrow> string option \<Rightarrow> config_map \<Rightarrow> bool \<times> config_map \<times> (level \<times> string) list" where
  "setupConfig files getcwd m = try_paths files (config_paths getcwd) m"

section \<open>What a file means\<close>

abbreviation newline :: char where "newline \<equiv> CHR 0x0A"

lemma getline_delim: "d \<notin> set line \<Longrightarrow> getline d (line @ d # r, False) = Some (line, (r, False))"
  by (simp add: getline_def takeWhile_neq_append Let_def)

lemma getline_last: "d \<notin> set line \<Longrightarrow> line \<noteq> [] \<Longrightarrow> getline d (line, False) = Some (line, ([], True))"
proof -
  assume "d \<notin> set line" "line \<noteq> []"
  then have "takeWhile (\<lambda>c. c \<noteq> d) line = line" using takeWhile_neq_append [of d line "[]"]
    by (simp del: takeWhile_eq_all_conv)
  with \<open>line \<noteq> []\<close> show ?thesis
    by (simp add: getline_def Let_def del: takeWhile_eq_all_conv)
qed

lemma dropWhile_neq_append: "d \<notin> set xs \<Longrightarrow> dropWhile (\<lambda>c. c \<noteq> d) (xs @ ys) = dropWhile (\<lambda>c. c \<noteq> d) ys"
  by (induction xs) auto

lemma getline_end [simp]: "getline d ([], eof) = None" "getline d (rest, True) = None"
  by (simp_all add: getline_def)

lemma parse_line_key_value:
  "CHR ''='' \<notin> set key \<Longrightarrow> newline \<notin> set value \<Longrightarrow> value \<noteq> [] \<Longrightarrow>
     parse_line (key @ CHR ''='' # value) = Some (key, value)"
  by (simp add: parse_line_def getline_delim getline_last)

lemma parse_line_no_value:
  "CHR ''='' \<notin> set key \<Longrightarrow> parse_line key = None \<and> parse_line (key @ [CHR ''='']) = None"
  using getline_last [of "CHR ''=''" key] getline_delim [of "CHR ''=''" key "[]"]
  by (cases "key = []") (simp_all add: parse_line_def)

lemma load_lines_end [simp]: "load_lines ([], eof) m = m" "load_lines (rest, True) m = m"
  by (subst load_lines.simps; simp)+

lemma load_lines_Cons:
  "newline \<notin> set line \<Longrightarrow> load_lines (line @ newline # r, False) m = load_lines (r, False) (store_line line m)"
  by (subst load_lines.simps) (simp add: getline_delim)

definition render_lines :: "string list \<Rightarrow> string" where
  "render_lines lines = concat (map (\<lambda>l. l @ [newline]) lines)"

text \<open>Reading is one \<open>store_line\<close> per line, with or without a newline behind the last.\<close>

lemma load_lines_render:
  assumes "\<forall>l \<in> set lines. newline \<notin> set l" "newline \<notin> set rest"
  shows "load_lines (render_lines lines @ rest, False) m = store_line rest (fold store_line lines m)"
  using assms(1)
proof (induction lines arbitrary: m)
  case Nil
  have "store_line [] m = m" by (simp add: store_line_def parse_line_def)
  with assms(2) show ?case
    by (cases "rest = []")
      (simp_all add: render_lines_def load_lines.simps [of "(rest, False)"] getline_last)
next
  case (Cons l ls)
  then show ?case by (simp add: render_lines_def load_lines_Cons)
qed

lemma parse_line_eq:
  assumes "newline \<notin> set line"
  shows "parse_line line =
    (let value = drop 1 (dropWhile (\<lambda>c. c \<noteq> CHR ''='') line)
     in if value = [] then None else Some (takeWhile (\<lambda>c. c \<noteq> CHR ''='') line, value))"
proof (cases "CHR ''='' \<in> set line")
  case True
  then obtain key val where line: "line = key @ CHR ''='' # val" "CHR ''='' \<notin> set key"
    by (meson split_list_first)
  then have "takeWhile (\<lambda>c. c \<noteq> CHR ''='') line = key" "dropWhile (\<lambda>c. c \<noteq> CHR ''='') line = CHR ''='' # val"
    by (simp_all add: takeWhile_neq_append dropWhile_neq_append)
  with line assms show ?thesis
    by (cases "val = []") (simp_all add: parse_line_key_value parse_line_no_value Let_def)
next
  case False
  moreover from this have "dropWhile (\<lambda>c. c \<noteq> CHR ''='') line = []" by (auto simp: dropWhile_eq_Nil_conv)
  ultimately show ?thesis
    by (simp add: parse_line_no_value Let_def del: dropWhile_eq_Nil_conv)
qed

text \<open>
  C22: The meaning of a configuration file. A file of newline-free lines (the last one
  with or without a newline) is read to the end; each line is split at its first equals
  sign, later assignments win, and a line without one, or with nothing behind it, assigns
  nothing, so a key can never be set to the empty string.
\<close>

theorem Config_load_lines:
  assumes "files path = Some (render_lines lines @ rest)"
    and "\<forall>l \<in> set lines. newline \<notin> set l" and "newline \<notin> set rest"
  shows "Config_load files path m = Inr
    (fold (\<lambda>line m. let value = drop 1 (dropWhile (\<lambda>c. c \<noteq> CHR ''='') line)
             in if value = [] then m else m(takeWhile (\<lambda>c. c \<noteq> CHR ''='') line \<mapsto> value))
       (lines @ [rest]) m)"
proof -
  have store: "store_line line m = (let value = drop 1 (dropWhile (\<lambda>c. c \<noteq> CHR ''='') line)
      in if value = [] then m else m(takeWhile (\<lambda>c. c \<noteq> CHR ''='') line \<mapsto> value))"
    if "newline \<notin> set line" for line m
    using that by (simp add: store_line_def parse_line_eq Let_def)
  let ?step = "\<lambda>line m. let value = drop 1 (dropWhile (\<lambda>c. c \<noteq> CHR ''='') line)
      in if value = [] then m else m(takeWhile (\<lambda>c. c \<noteq> CHR ''='') line \<mapsto> value)"
  have "fold store_line (lines @ [rest]) m = fold ?step (lines @ [rest]) m"
    by (rule fold_cong [OF refl refl]) (use assms(2,3) store in auto)
  then show ?thesis
    using assms by (simp add: Config_load_def load_lines_render)
qed

theorem Config_load_lines_witness:
  "Config_load [''config.ini'' \<mapsto> render_lines [''# c'', ''a=1'', ''b='', ''a=2=3''] @ ''x=y''] ''config.ini'' Map.empty
     = Inr [''a'' \<mapsto> ''2=3'', ''x'' \<mapsto> ''y'']"
  by (subst Config_load_lines [where lines = "[''# c'', ''a=1'', ''b='', ''a=2=3'']" and rest = "''x=y''"])
    simp_all

section \<open>Numbers in the configuration\<close>

text \<open>
  \<open>getInt\<close> never fails and stays an \<open>int\<close>: the result is the default or a value in
  range, and it is the number whenever the stored text is a printed \<open>int\<close>, also with
  text behind it (such as the carriage return of a file with DOS line ends); a missing
  key, a text that is no number and one out of range give the default.
\<close>

theorem Config_getInt_total:
  "(Config_getInt m key d = d \<or> INT_MIN \<le> Config_getInt m key d \<and> Config_getInt m key d \<le> INT_MAX)
   \<and> (m key = None \<longrightarrow> Config_getInt m key d = d)
   \<and> (\<forall>i r. m key = Some (show_int i @ r) \<and> (r = [] \<or> \<not> isdigit (hd r)) \<longrightarrow>
        Config_getInt m key d = (if INT_MIN \<le> i \<and> i \<le> INT_MAX then i else d))
   \<and> (\<forall>v. m key = Some v \<and> strtol10 v = None \<longrightarrow> Config_getInt m key d = d)"
proof -
  have "stoi v = Inr i \<Longrightarrow> INT_MIN \<le> i \<and> i \<le> INT_MAX" for v i by (rule stoi_range)
  moreover have "stoi (show_int i @ r) = (if INT_MIN \<le> i \<and> i \<le> INT_MAX then Inr i else Inl Out_of_range)"
    if "r = [] \<or> \<not> isdigit (hd r)" for i r
    using strtol10_show [OF that, of i] by (auto simp: stoi_def)
  ultimately show ?thesis
    by (auto simp: Config_getInt_def stoi_def [of "_ :: string"] split: option.splits sum.splits if_splits)
qed

theorem Config_getInt_total_witness:
  "Config_getInt [''port'' \<mapsto> show_int 29000 @ [CHR 0x0D]] ''port'' 5 = 29000
   \<and> Config_getInt Map.empty ''port'' 5 = 5
   \<and> Config_getInt [''port'' \<mapsto> ''x''] ''port'' 5 = 5"
  using Config_getInt_total [of "[''port'' \<mapsto> show_int 29000 @ [CHR 0x0D]]" "''port''" 5]
    Config_getInt_total [of Map.empty "''port''" 5]
    Config_getInt_total [of "[''port'' \<mapsto> ''x'']" "''port''" 5]
  by (simp add: isdigit_def INT_MIN_def INT_MAX_def strtol10_def split_sign_def isspace_def)

section \<open>Where the file is looked for\<close>

text \<open>
  \<open>setupConfig\<close> succeeds exactly when one of its two paths can be opened, takes the
  first that can, and depends on no other file: the directory of the executable, which
  the README names, is not searched, and the second path joins with a backslash, which on
  POSIX is a file of another name.
\<close>

theorem setupConfig_two_paths:
  "setupConfig files cwd m = (ok, m', logs) \<Longrightarrow>
     (ok \<longleftrightarrow> files ''config.ini'' \<noteq> None \<or> files (getCurrentDirectory cwd @ [CHR 0x5C] @ ''config.ini'') \<noteq> None)
     \<and> m' = (case files ''config.ini'' of
               Some content \<Rightarrow> load_lines (content, False) m
             | None \<Rightarrow> (case files (getCurrentDirectory cwd @ [CHR 0x5C] @ ''config.ini'') of
                 Some content \<Rightarrow> load_lines (content, False) m | None \<Rightarrow> m))"
  by (auto simp: setupConfig_def config_paths_def Config_load_def split: option.splits)

theorem setupConfig_two_paths_witness:
  "fst (setupConfig [''/opt/app/config.ini'' \<mapsto> ''a=1''] (Some ''/opt/app'') Map.empty) = False"
proof -
  obtain ok m' logs where run:
    "setupConfig [''/opt/app/config.ini'' \<mapsto> ''a=1''] (Some ''/opt/app'') Map.empty = (ok, m', logs)"
    by (metis prod_cases3)
  from setupConfig_two_paths [OF run] run show ?thesis by (simp add: getCurrentDirectory_def)
qed

end
