(* ===== verification/Tui_Input.thy ===== *)
theory Tui_Input
  imports Tui_History
begin

text \<open>
  The input line: the key handler refines a pure line editor, a typed line reaches the
  command callback unchanged and once, and the buffer only ever holds printable text.
\<close>

section \<open>The line editor\<close>

text \<open>
  The specification of the input line: what a key does to the text typed so far, and which
  line it hands over.
\<close>

fun edit :: "key option \<Rightarrow> string \<Rightarrow> string" where
  "edit (Some (Ch c)) b =
     (if c = 10 then [] else if c = 127 \<or> c = 8 then butlast b
      else if 32 \<le> c \<and> c \<le> 126 then b @ [char_of (nat c)] else b)"
| "edit (Some Key_backspace) b = butlast b"
| "edit _ b = b"

fun submits :: "key option \<Rightarrow> string \<Rightarrow> string option" where
  "submits (Some (Ch c)) b = (if c = 10 \<and> b \<noteq> [] then Some b else None)"
| "submits _ b = None"

definition printable :: "string \<Rightarrow> bool" where
  "printable s \<longleftrightarrow> (\<forall>c \<in> set s. 32 \<le> (of_char c :: nat) \<and> of_char c \<le> (126 :: nat))"

lemma printable_simps [simp]:
  "printable []"
  "printable (c # s) \<longleftrightarrow> 32 \<le> (of_char c :: nat) \<and> of_char c \<le> (126 :: nat) \<and> printable s"
  "printable (s @ s') \<longleftrightarrow> printable s \<and> printable s'"
  by (auto simp: printable_def)

lemma printable_butlast: "printable s \<Longrightarrow> printable (butlast s)"
  by (auto simp: printable_def dest: in_set_butlastD)

lemma printable_no_NUL: "printable s \<Longrightarrow> c_str s = s"
  by (rule c_str_no_NUL) (auto simp: printable_def)

lemma updateInputWindow_frame [simp]:
  "m_inputBuffer (updateInputWindow t) = m_inputBuffer t"
  "m_consoleMessages (updateInputWindow t) = m_consoleMessages t"
  "m_channels (updateInputWindow t) = m_channels t"
  "m_scrollPosition (updateInputWindow t) = m_scrollPosition t"
  "m_consoleWindow (updateInputWindow t) = m_consoleWindow t"
  "m_running (updateInputWindow t) = m_running t"
  "m_needsResize (updateInputWindow t) = m_needsResize t"
  "m_consoleDirty (updateInputWindow t) = m_consoleDirty t"
  "m_lastUpdate (updateInputWindow t) = m_lastUpdate t"
  "tui.more (updateInputWindow t) = tui.more t"
  by (simp_all add: updateInputWindow_def drawInputWindow_def)

lemma scrollConsole_frame [simp]:
  "m_inputBuffer (scrollConsole n t) = m_inputBuffer t"
  "m_consoleMessages (scrollConsole n t) = m_consoleMessages t"
  "m_channels (scrollConsole n t) = m_channels t"
  "m_running (scrollConsole n t) = m_running t"
  "m_needsResize (scrollConsole n t) = m_needsResize t"
  "tui.more (scrollConsole n t) = tui.more t"
  by (simp_all add: scrollConsole_def Let_def)

fun_cases submits_Some: "submits k b = Some line"

text \<open>
  C9: The key handler refines the line editor. For every key, the input line afterwards is
  what the editor specification says. When the key submits a line, the effect is exactly:
  the callback is called once, with the whole line; then the line is added to the history
  behind \<open>> \<close>; the input is cleared and redrawn. Any other key leaves the history alone.
\<close>

theorem handleInput_refines_editor:
  assumes "\<And>line s. m_inputBuffer (cb line s) = m_inputBuffer s"
  shows "m_inputBuffer (handleInput (Some cb) now k t) = edit k (m_inputBuffer t)
    \<and> (case submits k (m_inputBuffer t) of
         Some line \<Rightarrow> handleInput (Some cb) now k t =
           updateInputWindow ((addConsoleMessage now APPLICATION_SPECIAL_CHANNEL_ID (''> '' @ line) 0 (cb line t))
             \<lparr>m_inputBuffer := []\<rparr>)
       | None \<Rightarrow> m_consoleMessages (handleInput (Some cb) now k t) = m_consoleMessages t
           \<and> tui.more (handleInput (Some cb) now k t) = tui.more t)"
proof (cases k)
  case (Some key)
  then show ?thesis
  proof (cases key)
    case (Ch c)
    with Some assms show ?thesis
      by (auto simp: enter_key_def backspace_key_def Let_def)
  next
    case (Key_mouse ev)
    with Some assms show ?thesis by (cases ev) auto
  qed (use Some in \<open>auto simp: backspace_key_def\<close>)
qed simp

theorem handleInput_refines_editor_witness:
  "m_inputBuffer (handleInput (Some (\<lambda>line t. t)) 0 (Some (Ch 97)) (TUI_new True False)) = ''a''"
proof -
  have "(char_of (97 :: nat) :: char) = CHR ''a''" by code_simp
  then show ?thesis
    using handleInput_refines_editor [of "\<lambda>line t. t" 0 "Some (Ch 97)" "TUI_new True False"]
    by (simp add: TUI_new_def)
qed

section \<open>Typing a line\<close>

definition type_keys :: "string \<Rightarrow> key option list" where
  "type_keys s = map (\<lambda>c. Some (Ch (of_char c))) s"

definition press :: "(string \<Rightarrow> 'a tui_scheme \<Rightarrow> 'a tui_scheme) option \<Rightarrow> int \<Rightarrow> key option list
    \<Rightarrow> 'a tui_scheme \<Rightarrow> 'a tui_scheme" where
  "press cb now keys t = fold (handleInput cb now) keys t"

lemma press_typing:
  "printable s \<Longrightarrow> \<exists>out. press cb now (type_keys s) t
     = t\<lparr>m_inputBuffer := m_inputBuffer t @ s, tui_out := tui_out t @ out\<rparr>"
proof (induction s arbitrary: t)
  case Nil
  show ?case by (rule exI [of _ "[]"]) (simp add: press_def type_keys_def)
next
  case (Cons c s)
  let ?t1 = "updateInputWindow (t\<lparr>m_inputBuffer := m_inputBuffer t @ [c]\<rparr>)"
  have key: "handleInput cb now (Some (Ch (of_char c))) t = ?t1"
  proof -
    have i: "(of_char c :: int) = int (of_char c)" by (rule of_nat_of_char [symmetric])
    have "32 \<le> (of_char c :: nat)" "of_char c \<le> (126 :: nat)" using Cons.prems by simp_all
    then show ?thesis unfolding handleInput.simps i by simp
  qed
  obtain out where "press cb now (type_keys s) ?t1
      = ?t1\<lparr>m_inputBuffer := m_inputBuffer ?t1 @ s, tui_out := tui_out ?t1 @ out\<rparr>"
    using Cons by (metis printable_simps(2))
  moreover have "press cb now (type_keys (c # s)) t = press cb now (type_keys s) ?t1"
    by (simp only: press_def type_keys_def list.map fold_simps key)
  ultimately show ?case by (auto simp: updateInputWindow_def drawInputWindow_def emit_def)
qed

text \<open>
  A line that is typed is the command that runs. Typing any printable, non-empty text on
  an empty input line and pressing Enter calls the command callback exactly once, with that
  text, in a state that differs from the start only in the input line and the screen; the
  text then appears in the history as \<open>> text\<close> and the input line is empty again.
\<close>

theorem typed_line_reaches_callback:
  assumes "printable s" and "s \<noteq> []" and "m_inputBuffer t = []"
    and "\<And>line u. m_inputBuffer (cb line u) = m_inputBuffer u"
  shows "\<exists>out. press (Some cb) now (type_keys s @ [Some (Ch 10)]) t =
    updateInputWindow ((addConsoleMessage now APPLICATION_SPECIAL_CHANNEL_ID (''> '' @ s) 0
      (cb s (t\<lparr>m_inputBuffer := s, tui_out := tui_out t @ out\<rparr>)))\<lparr>m_inputBuffer := []\<rparr>)"
proof -
  obtain out where typed: "press (Some cb) now (type_keys s) t
      = t\<lparr>m_inputBuffer := s, tui_out := tui_out t @ out\<rparr>" (is "_ = ?u")
    using press_typing [OF assms(1), of "Some cb" now t] assms(3) by auto
  have "press (Some cb) now (type_keys s @ [Some (Ch 10)]) t = handleInput (Some cb) now (Some (Ch 10)) ?u"
    using typed by (simp add: press_def)
  also have "\<dots> = updateInputWindow ((addConsoleMessage now APPLICATION_SPECIAL_CHANNEL_ID (''> '' @ s) 0
      (cb s ?u))\<lparr>m_inputBuffer := []\<rparr>)"
    using assms(2,4) by (simp add: enter_key_def Let_def)
  finally show ?thesis by blast
qed

theorem typed_line_reaches_callback_witness:
  "last (m_consoleMessages (press (Some (\<lambda>line t. t)) 3 (type_keys ''say hi'' @ [Some (Ch 10)])
      (TUI_new True False))) = message_of (3, -1337, ''> say hi'', 0)"
proof -
  have "printable ''say hi''" by code_simp
  moreover have "m_inputBuffer (TUI_new True False) = []" by (simp add: TUI_new_def)
  ultimately obtain out where "press (Some (\<lambda>line t. t)) 3 (type_keys ''say hi'' @ [Some (Ch 10)]) (TUI_new True False)
    = updateInputWindow ((addConsoleMessage 3 APPLICATION_SPECIAL_CHANNEL_ID (''> '' @ ''say hi'') 0
        ((TUI_new True False)\<lparr>m_inputBuffer := ''say hi'', tui_out := tui_out (TUI_new True False) @ out\<rparr>))
        \<lparr>m_inputBuffer := []\<rparr>)"
    using typed_line_reaches_callback [of "''say hi''" "TUI_new True False" "\<lambda>line t. t" 3] by blast
  then show ?thesis
    by (simp add: addConsoleMessage_def TUI_new_def message_of_def APPLICATION_SPECIAL_CHANNEL_ID_def
        MAX_CONSOLE_MESSAGES_def Let_def)
qed

section \<open>What the input line can hold\<close>

lemma submits_printable: "submits k b = Some line \<Longrightarrow> printable b \<Longrightarrow> printable line \<and> line \<noteq> []"
  by (erule submits_Some) (auto split: if_splits)

lemma edit_printable: "printable b \<Longrightarrow> printable (edit k b)"
  by (induction k b rule: edit.induct) (auto simp: printable_butlast nat_of_char of_char_of)

text \<open>
  The input line only ever holds printable ASCII: no sequence of keys, whatever codes the
  terminal sends, brings a control character, a NUL or a byte above 126 into it, so the line
  drawn is the line kept, and a command contains no NUL.
\<close>

theorem input_stays_printable:
  assumes "printable (m_inputBuffer t)" and "\<And>line s. m_inputBuffer (cb line s) = m_inputBuffer s"
  shows "printable (m_inputBuffer (press (Some cb) now keys t))
    \<and> c_str (m_inputBuffer (press (Some cb) now keys t)) = m_inputBuffer (press (Some cb) now keys t)"
proof -
  have step: "m_inputBuffer (handleInput (Some cb) now k t) = edit k (m_inputBuffer t)" for k t
    by (induction "Some cb" now k t rule: handleInput.induct)
      (auto simp: enter_key_def backspace_key_def Let_def assms(2))
  have "printable (m_inputBuffer (press (Some cb) now keys t))"
    using assms(1) unfolding press_def
    by (induction keys arbitrary: t) (simp_all add: step edit_printable)
  then show ?thesis by (simp add: printable_no_NUL)
qed

theorem input_stays_printable_witness:
  "printable (m_inputBuffer (press (Some (\<lambda>line t. t)) 0 [Some (Ch 97), Some (Ch 7), Some (Ch 200)] (TUI_new True False)))"
  using input_stays_printable [of "TUI_new True False" "\<lambda>line t. t" 0 "[Some (Ch 97), Some (Ch 7), Some (Ch 200)]"]
  by (simp add: TUI_new_def)

end
