(* ===== verification/Client_State.thy ===== *)
theory Client_State
  imports Config VConsole Tui_Input Spdlog_Registry
begin

text \<open>
  The state of the client program (\<open>CS2RemoteConsole-client/src\<close>): the text interface, the
  globals of \<open>connection/connection_cs2console.cpp\<close> and
  \<open>connection/connection_remoteserver.cpp\<close>, the configuration, and the log file. The
  VConsole singleton stays beside it, because its callbacks are functions on this state.

  Logging is spdlog's: \<open>spd\<close> runs a log call through the client's default logger, whose
  sinks are the log file and the text interface.
\<close>

section \<open>The globals\<close>

text \<open>A \<open>std::thread\<close> variable: not joinable, or owning a thread that still runs or has returned.\<close>

datatype thread = NotJoinable | Running | Finished

record client = tui +
  config_map :: config_map
  log_file :: "log_msg list"
  std_out :: "string list"
  system_now :: int
  running :: bool
  listeningCS2 :: bool
  cs2ConsoleConnected :: bool
  cs2ConnectorThread :: thread
  cs2ListenerThread :: thread
  remoteServerSock :: int
  listeningRemoteServer :: bool
  remoteServerConnected :: bool
  remoteServerListenerThread :: thread
  remoteServerConnectorThread :: thread
  clientName :: string

type_synonym 'w env = "'w \<times> client"

definition client_init :: "bool \<Rightarrow> client" where
  "client_init uninit =
     tui.extend (TUI_new True uninit)
       (client.fields Map.empty [] [] 0 True False False NotJoinable NotJoinable
          INVALID_SOCKET False False NotJoinable NotJoinable '''')"

lemma client_init_simps [simp]:
  "running (client_init u)" "\<not> listeningCS2 (client_init u)" "\<not> cs2ConsoleConnected (client_init u)"
  "cs2ConnectorThread (client_init u) = NotJoinable" "cs2ListenerThread (client_init u) = NotJoinable"
  "remoteServerSock (client_init u) = INVALID_SOCKET" "\<not> listeningRemoteServer (client_init u)"
  "\<not> remoteServerConnected (client_init u)"
  "remoteServerListenerThread (client_init u) = NotJoinable"
  "remoteServerConnectorThread (client_init u) = NotJoinable"
  "clientName (client_init u) = ''''" "config_map (client_init u) = Map.empty"
  "m_consoleMessages (client_init u) = []" "log_file (client_init u) = []" "std_out (client_init u) = []"
  "system_now (client_init u) = 0" "m_running (client_init u)" "m_inputBuffer (client_init u) = ''''"
  by (simp_all add: client_init_def tui.defs client.defs TUI_new_def)

section \<open>Logging\<close>

definition application_name :: string where
  "application_name = ''CS2RemoteConsole-client''"

definition file_sink :: "client sink" where
  "file_sink = \<lparr>sink_level = Trace, sink_it = (\<lambda>m c. c\<lparr>log_file := log_file c @ [m]\<rparr>), sink_flush = (\<lambda>c. c)\<rparr>"

definition stdout_sink :: "client sink" where
  "stdout_sink = \<lparr>sink_level = Trace, sink_it = (\<lambda>m c. c\<lparr>std_out := std_out c @ [msg_payload m]\<rparr>), sink_flush = (\<lambda>c. c)\<rparr>"

text \<open>
  The registry as \<open>main\<close> leaves it (before and after the interface adds its sink), and the
  client's logger on its own.
\<close>

definition main_registry :: "client registry" where
  "main_registry = main_logger_setup ''CS2RemoteConsole-Client'' [file_sink] (registry_new stdout_sink)"

definition with_tui_sink :: "client registry \<Rightarrow> client registry" where
  "with_tui_sink reg =
     (case reg_default reg of
        None \<Rightarrow> reg
      | Some r \<Rightarrow>
          (case setupLoggerCallbackSink system_now (Some (logger_at reg r)) of
             None \<Rightarrow> reg | Some lg \<Rightarrow> update_at r (\<lambda>_. lg) reg))"

definition client_logger :: "client logger" where
  "client_logger =
     logger_push_sink (callback_sink (\<lambda>msg c. tui_sink_callback (system_now c) msg c))
       (logger_new ''CS2RemoteConsole-Client'' [file_sink])"

definition file_logger :: "client logger" where
  "file_logger = logger_new ''CS2RemoteConsole-Client'' [file_sink]"

definition spd :: "level \<Rightarrow> string \<Rightarrow> client \<Rightarrow> client" where
  "spd lvl payload c = snd (logger_log lvl payload client_logger c)"

abbreviation say :: "level \<Rightarrow> string \<Rightarrow> 'w env \<Rightarrow> 'w env" where
  "say lvl payload e \<equiv> apsnd (spd lvl payload) e"

definition log_entry :: "level \<Rightarrow> string \<Rightarrow> log_msg" where
  "log_entry lvl payload = \<lparr>msg_logger_name = ''CS2RemoteConsole-Client'', msg_level = lvl, msg_payload = payload\<rparr>"

lemma spd_eq:
  "spd lvl payload c =
     (if Info \<le> lvl
      then tui_sink_callback (system_now c) (log_entry lvl payload) (c\<lparr>log_file := log_file c @ [log_entry lvl payload]\<rparr>)
      else c)"
proof -
  have flush: "should_flush client_logger m \<Longrightarrow> logger_flush client_logger s = s" for m s
    by (simp add: logger_flush_def client_logger_def logger_push_sink_def logger_new_def file_sink_def callback_sink_def)
  have "\<not> bt_enabled (logger_tracer client_logger)"
    by (simp add: client_logger_def logger_push_sink_def logger_new_def backtracer_new_def)
  then have "spd lvl payload c = (if should_log client_logger lvl
      then logger_sink_it client_logger (log_entry lvl payload) c else c)"
    by (simp add: spd_def logger_log_no_backtrace)
      (simp add: client_logger_def logger_push_sink_def logger_new_def log_entry_def)
  moreover have "should_log client_logger lvl \<longleftrightarrow> Info \<le> lvl"
    by (simp add: should_log_def client_logger_def logger_push_sink_def logger_new_def)
  moreover have "logger_sink_it client_logger m c' =
      tui_sink_callback (system_now c') m (c'\<lparr>log_file := log_file c' @ [m]\<rparr>)" for m c'
    using flush [of m]
    by (simp add: logger_sink_it_def Let_def)
      (simp add: client_logger_def logger_push_sink_def logger_new_def file_sink_def callback_sink_def
        sink_should_log_def base_sink_log_def less_eq_level_def)
  ultimately show ?thesis by simp
qed

text \<open>Logging touches the log file and the console history only.\<close>

lemma spd_frame [frame_simps, simp]:
  "config_map (spd lvl p c) = config_map c"
  "running (spd lvl p c) = running c"
  "listeningCS2 (spd lvl p c) = listeningCS2 c"
  "cs2ConsoleConnected (spd lvl p c) = cs2ConsoleConnected c"
  "cs2ConnectorThread (spd lvl p c) = cs2ConnectorThread c"
  "cs2ListenerThread (spd lvl p c) = cs2ListenerThread c"
  "remoteServerSock (spd lvl p c) = remoteServerSock c"
  "listeningRemoteServer (spd lvl p c) = listeningRemoteServer c"
  "remoteServerConnected (spd lvl p c) = remoteServerConnected c"
  "remoteServerListenerThread (spd lvl p c) = remoteServerListenerThread c"
  "remoteServerConnectorThread (spd lvl p c) = remoteServerConnectorThread c"
  "clientName (spd lvl p c) = clientName c"
  "m_inputBuffer (spd lvl p c) = m_inputBuffer c"
  "m_running (spd lvl p c) = m_running c"
  "m_channels (spd lvl p c) = m_channels c"
  "std_out (spd lvl p c) = std_out c"
  "system_now (spd lvl p c) = system_now c"
  by (simp_all add: spd_eq tui_sink_callback_def addConsoleMessage_def Let_def)

text \<open>
  The registry that \<open>main\<close> sets up, with the sink the interface adds, sends a log call
  to the client's logger: \<open>spdlog::info\<close> and above write one entry to the log file and one
  line \<open>[level] text\<close> into the console history, \<open>debug\<close> and \<open>trace\<close> write nothing.
\<close>

theorem main_log_call:
  "case spdlog_log lvl payload (with_tui_sink main_registry) c of
     None \<Rightarrow> False
   | Some (reg, c') \<Rightarrow> c' = spd lvl payload c
       \<and> (if Info \<le> lvl
          then log_file c' = log_file c @ [log_entry lvl payload]
            \<and> c' = addConsoleMessage (system_now c) APPLICATION_SPECIAL_CHANNEL_ID
                     (''['' @ to_string_view lvl @ ''] '' @ payload) 0 (c\<lparr>log_file := log_file c'\<rparr>)
          else c' = c)"
proof -
  have "spdlog_log lvl payload (with_tui_sink main_registry) c =
      Some (update_at 1 (\<lambda>_. fst (logger_log lvl payload client_logger c)) (with_tui_sink main_registry),
            spd lvl payload c)"
    by (simp add: spdlog_log_def with_tui_sink_def main_registry_def main_logger_setup_def make_logger_def
        registry_new_def set_default_logger_def registry_set_level_def for_all_loggers_def registered_def
        logger_at_def update_at_def setupLoggerCallbackSink_def client_logger_def spd_def Let_def
        split: prod.split)
  then show ?thesis
    by (simp add: spd_eq tui_sink_callback_def log_entry_def addConsoleMessage_def Let_def)
qed

end
