(* ===== verification/Client_CS2.thy ===== *)
theory Client_CS2
  imports Client_State
begin

text \<open>
  The connection to the game (\<open>connection/connection_cs2console.cpp\<close>): connecting, one
  iteration of the connector loop and of the listener loop, sending, and cleanup.

  A loop body is a function from the state at its loop test to the state at the next one.
  Calls that block until another thread ends (\<open>join\<close>) split the body: \<open>cs2_connector_top\<close>
  runs up to the join and \<open>cs2_connector_joined\<close> from there on.
\<close>

type_synonym 'w cs2 = "('w env) vconsole \<times> 'w env"

definition set_flags :: "bool \<Rightarrow> bool \<Rightarrow> 'w env \<Rightarrow> 'w env" where
  "set_flags conn listening = apsnd (\<lambda>c. c\<lparr>cs2ConsoleConnected := conn, listeningCS2 := listening\<rparr>)"

definition connectToCS2Console :: "'w os \<Rightarrow> 'w cs2 \<Rightarrow> bool \<times> 'w cs2" where
  "connectToCS2Console os st =
     (let (vconsole, (w, c)) = st;
          ip = Config_get (config_map c) ''cs2_console_ip'' ''127.0.0.1'';
          port = Config_getInt (config_map c) ''cs2_console_port'' 29000
      in case VConsole_connect os ip port vconsole w of (ok, vconsole, w) \<Rightarrow>
        if \<not> ok then (False, (vconsole, (w, c)))
        else (True, (vconsole, say Info (''[CS2ConsoleConnection] Connected to CS2 console at '' @ ip @ '':'' @ show_int port)
                       (w, c\<lparr>cs2ConsoleConnected := True\<rparr>))))"

text \<open>
  The locals of the connector loop, read from the configuration before the loop starts, and
  \<open>last_sanity_check\<close>; times are in milliseconds.
\<close>

record connector_locals =
  reconnect_delay :: int
  sanity_check_interval :: int
  debug_sanity :: bool
  last_sanity_check :: int

definition cs2_connector_start :: "int \<Rightarrow> 'w env \<Rightarrow> connector_locals \<times> 'w env" where
  "cs2_connector_start now e =
     (let cfg = config_map (snd e);
          l = \<lparr>reconnect_delay = Config_getInt cfg ''cs2_console_reconnect_delay'' 5000,
               sanity_check_interval = Config_getInt cfg ''debug_sanity_interval'' 5000,
               debug_sanity = (Config_getInt cfg ''debug_sanity_enabled'' 0 = 1),
               last_sanity_check = now\<rparr>
      in (l, if debug_sanity l then say Info ''[CS2ConsoleConnection] Debug sanity check enabled!'' e else e))"

text \<open>From the sanity check to the end of the body.\<close>

definition cs2_connector_rest ::
  "'w os \<Rightarrow> int \<Rightarrow> connector_locals \<Rightarrow> 'w cs2 \<Rightarrow> connector_locals \<times> 'w cs2" where
  "cs2_connector_rest os now l st =
     (let (vconsole, (w, c)) = st;
          (l, (w, c)) =
            (if debug_sanity l \<and> cs2ConsoleConnected c \<and> now - last_sanity_check l \<ge> sanity_check_interval l then
               (case sendCmd os ''echo CS2RemoteConsole_SanityCheck'' vconsole w of (sent, w) \<Rightarrow>
                  (l\<lparr>last_sanity_check := now\<rparr>,
                   if \<not> sent then say Warn ''[CS2ConsoleConnection] Failed to send sanity check command. Connection may be unstable.'' (w, c)
                   else say Debug ''[CS2ConsoleConnection] Sent sanity check command to CS2 console'' (w, c)))
             else (l, (w, c)))
      in case isConnected os vconsole w of (alive, w) \<Rightarrow>
        if \<not> alive then
          (l, VConsole_disconnect os vconsole
                (set_flags False False
                  (say Err ''[CS2ConsoleConnection] Connection to CS2 console lost. Attempting to reconnect...'' (w, c))))
        else (l, (vconsole, (w, c))))"

text \<open>
  \<open>Next\<close>: the body reached the loop test again; \<open>Join\<close>: it is about to wait for the
  listener thread, with both flags already set.
\<close>

datatype 'a progress = Next 'a | Join 'a

definition cs2_connector_joined ::
  "'w os \<Rightarrow> int \<Rightarrow> connector_locals \<Rightarrow> 'w cs2 \<Rightarrow> connector_locals \<times> 'w cs2" where
  "cs2_connector_joined os now l st =
     (let (vconsole, (w, c)) = st;
          c = c\<lparr>cs2ListenerThread := Running\<rparr>
      in case sendCmd os ''name'' vconsole w of (_, w) \<Rightarrow> cs2_connector_rest os now l (vconsole, (w, c)))"

definition cs2_connector_top ::
  "'w os \<Rightarrow> int \<Rightarrow> connector_locals \<Rightarrow> 'w cs2 \<Rightarrow> (connector_locals \<times> 'w cs2) progress" where
  "cs2_connector_top os now l st =
     (if \<not> cs2ConsoleConnected (snd (snd st)) then
        (case connectToCS2Console os st of (ok, (vconsole, e)) \<Rightarrow>
           if ok then
             (let e = set_flags True True e in
              if cs2ListenerThread (snd e) \<noteq> NotJoinable then Join (l, (vconsole, e))
              else Next (cs2_connector_joined os now l (vconsole, e)))
           else
             Next (l, (vconsole, say Err (''[CS2ConsoleConnection] Failed to connect to CS2 console. Retrying in ''
                          @ show_int (cdiv (reconnect_delay l) 1000) @ '' seconds...'') e)))
      else Next (cs2_connector_rest os now l st))"

text \<open>
  The listener. \<open>Next (True, _)\<close> goes on looping; \<open>Next (False, _)\<close> has run the lines after
  the loop. A packet whose parse reads out of bounds is a fault of the whole program.
\<close>

definition cs2_listener_exit :: "'w cs2 \<Rightarrow> 'w cs2" where
  "cs2_listener_exit st =
     apsnd (\<lambda>e. set_flags False False (say Info ''[CS2ConsoleConnection] CS2 console listener thread stopping...'' e)) st"

definition cs2_listener_step :: "'w os \<Rightarrow> 'w cs2 \<Rightarrow> fault + (bool \<times> 'w cs2)" where
  "cs2_listener_step os st =
     (let (vconsole, e) = st in
      if listeningCS2 (snd e) \<and> running (snd e) then
        bindE (processIncomingData os vconsole e) (\<lambda>(processed, vconsole, e).
          if \<not> processed then
            (case isConnected os vconsole (fst e) of (alive, w) \<Rightarrow>
               if \<not> alive then
                 Inr (False, cs2_listener_exit (vconsole,
                        say Err ''[CS2ConsoleConnection] Connection lost while processing data.'' (w, snd e)))
               else Inr (True, (vconsole, (w, snd e))))
          else Inr (True, (vconsole, e)))
      else Inr (False, cs2_listener_exit st))"

definition sendPayloadToCS2Console :: "'w os \<Rightarrow> string \<Rightarrow> ('w env) vconsole \<Rightarrow> 'w env \<Rightarrow> int \<times> 'w env" where
  "sendPayloadToCS2Console os payload vconsole e =
     (if \<not> cs2ConsoleConnected (snd e)
      then (1, say Err ''[CS2ConsoleConnection] Cannot send payload: Not connected to CS2 console'' e)
      else case sendCmd os payload vconsole (fst e) of (sent, w) \<Rightarrow> (of_bool sent, (w, snd e)))"

text \<open>
  \<open>cleanupCS2Console\<close> up to its two joins; \<open>join_threads\<close> is their effect once the threads
  have returned, \<open>None\<close> while one still runs.
\<close>

definition join_thread :: "thread \<Rightarrow> thread option" where
  "join_thread t = (case t of NotJoinable \<Rightarrow> Some NotJoinable | Finished \<Rightarrow> Some NotJoinable | Running \<Rightarrow> None)"

definition cleanupCS2Console_stop :: "'w os \<Rightarrow> 'w cs2 \<Rightarrow> 'w cs2" where
  "cleanupCS2Console_stop os st =
     (let (vconsole, (w, c)) = st
      in VConsole_disconnect os vconsole
           (w, c\<lparr>running := False, listeningCS2 := False, cs2ConsoleConnected := False\<rparr>))"

definition cleanupCS2Console_join :: "client \<Rightarrow> client option" where
  "cleanupCS2Console_join c =
     (case join_thread (cs2ListenerThread c) of None \<Rightarrow> None
      | Some t \<Rightarrow> (case join_thread (cs2ConnectorThread c) of None \<Rightarrow> None
          | Some t' \<Rightarrow> Some (c\<lparr>cs2ListenerThread := t, cs2ConnectorThread := t'\<rparr>)))"

text \<open>
  \<open>initializeCS2Connection\<close>, which nothing in the repository calls, would install these
  callbacks. \<open>contains\<close> is \<open>find(\<dots>) != npos\<close>.
\<close>

fun contains :: "string \<Rightarrow> string \<Rightarrow> bool" where
  "contains needle [] = (needle = [])"
| "contains needle (c # s) = (take (length needle) (c # s) = needle \<or> contains needle s)"

definition initializeCS2Connection :: "'w cs2 \<Rightarrow> 'w cs2" where
  "initializeCS2Connection st =
     (let (vconsole, (w, c)) = st;
          vconsole = setOnCVARsLoaded (\<lambda>cvars e. fold (\<lambda>cvar.
            say Info (''[CS2ConsoleConnection] CVAR loaded: '' @ c_str (cvar_name cvar))) cvars e) vconsole;
          vconsole = setOnADONReceived (\<lambda>adonName. say Info (''[CS2ConsoleConnection] ADON: '' @ adonName)) vconsole;
          vconsole = setOnDisconnected (\<lambda>e. set_flags False False
            (say Warn ''[CS2ConsoleConnection] Disconnected from CS2 console'' e)) vconsole;
          vconsole = setOnPRNTReceived (\<lambda>prnt e.
            if contains ''CS2RemoteConsole_SanityCheck'' (prnt_message prnt)
            then say Debug ''[CS2ConsoleConnection] Received sanity check response'' e else e) vconsole
      in (vconsole, (w, c\<lparr>cs2ConnectorThread := Running\<rparr>)))"

end
