(* ===== verification/Client_Remote.thy ===== *)
theory Client_Remote
  imports Client_CS2
begin

text \<open>
  The connection to the relay server (\<open>connection/connection_remoteserver.cpp\<close>), in the same
  style: connecting, sending, one iteration of each loop, and cleanup. This theory takes each
  loop body as one step; theory \<open>Remote_Threads\<close> interleaves the statements of the two loops.
\<close>

section \<open>Connecting and sending\<close>

definition connectToRemoteServer :: "'w os \<Rightarrow> 'w env \<Rightarrow> bool \<times> 'w env" where
  "connectToRemoteServer os e =
     (let (w, c) = e;
          ip = Config_get (config_map c) ''remote_server_ip'' ''127.0.0.1'';
          port = Config_getInt (config_map c) ''remote_server_port'' 42069
      in case os_socket os w of (fd, w) \<Rightarrow>
        let c = c\<lparr>remoteServerSock := fd\<rparr> in
        if fd = INVALID_SOCKET then
          (False, say Err (''[RemoteServerConnection] Failed to create socket for remote server: ''
                    @ show_int (os_errno os w)) (w, c))
        else case os_connect os fd (sin_addr os ip) (htons (of_int port)) w of (r, w) \<Rightarrow>
          if r = SOCKET_ERROR then
            (False, apfst (os_close os fd) (apsnd (\<lambda>c. c\<lparr>remoteServerSock := INVALID_SOCKET\<rparr>)
              (say Err (''[RemoteServerConnection] Connection to remote server failed: ''
                    @ show_int (os_errno os w)) (w, c))))
          else
            (True, say Info (''[RemoteServerConnection] Connected to remote server at '' @ ip @ '':''
                    @ show_int port) (w, c)))"

definition sendMessageToRemoteServer :: "'w os \<Rightarrow> string \<Rightarrow> 'w env \<Rightarrow> bool \<times> 'w env" where
  "sendMessageToRemoteServer os message e =
     (let (w, c) = e in
      if remoteServerSock c = INVALID_SOCKET then
        (False, say Err ''[RemoteServerConnection] Cannot send message: Not connected to remote server'' (w, c))
      else case os_send os (remoteServerSock c) message w of (sendResult, w) \<Rightarrow>
        if sendResult = SOCKET_ERROR then
          (False, say Err (''[RemoteServerConnection] Failed to send message to remote server: ''
                    @ show_int (os_errno os w)) (w, c))
        else (True, (w, c)))"

section \<open>The loops\<close>

definition set_remote_flags :: "bool \<Rightarrow> bool \<Rightarrow> 'w env \<Rightarrow> 'w env" where
  "set_remote_flags conn listening =
     apsnd (\<lambda>c. c\<lparr>remoteServerConnected := conn, listeningRemoteServer := listening\<rparr>)"

definition player_message :: "string \<Rightarrow> string" where
  "player_message name = ''PLAYERNAME:'' @ name"

definition remote_connector_joined :: "'w os \<Rightarrow> 'w env \<Rightarrow> 'w env" where
  "remote_connector_joined os e =
     (let e = apsnd (\<lambda>c. c\<lparr>remoteServerListenerThread := Running\<rparr>) e in
      if clientName (snd e) \<noteq> '''' then
        (case sendMessageToRemoteServer os (player_message (clientName (snd e))) e of (sent, e) \<Rightarrow>
           if sent then say Info ''[RemoteServerConnection] Sent player name to remote server.'' e
           else say Err ''[RemoteServerConnection] Failed to send player name to remote server.'' e)
      else e)"

definition remote_connector_top :: "'w os \<Rightarrow> int \<Rightarrow> 'w env \<Rightarrow> 'w env progress" where
  "remote_connector_top os delay e =
     (if \<not> remoteServerConnected (snd e) then
        (case connectToRemoteServer os e of (ok, e) \<Rightarrow>
           if ok then
             (let e = set_remote_flags True True e in
              if remoteServerListenerThread (snd e) \<noteq> NotJoinable then Join e
              else Next (remote_connector_joined os e))
           else Next (say Err (''[RemoteServerConnection] Failed to connect to remote server. Retrying in ''
                        @ show_int (cdiv delay 1000) @ '' seconds...'') e))
      else Next e)"

text \<open>
  The listener makes its socket non-blocking when it starts; what it receives is logged and
  forwarded to the game as a C string, up to the first NUL.
\<close>

definition remote_listener_start :: "'w os \<Rightarrow> 'w env \<Rightarrow> 'w env" where
  "remote_listener_start os e = apfst (setSocketNonBlocking os (remoteServerSock (snd e))) e"

definition remote_listener_exit :: "'w os \<Rightarrow> 'w env \<Rightarrow> 'w env" where
  "remote_listener_exit os e =
     (let e = set_remote_flags False False
                (say Info ''[RemoteServerConnection] Remote server listener thread stopping...'' e)
      in (os_close os (remoteServerSock (snd e)) (fst e), (snd e)\<lparr>remoteServerSock := INVALID_SOCKET\<rparr>))"

definition remote_buffer_size :: nat where "remote_buffer_size = 1024"

definition remote_listener_step :: "'w os \<Rightarrow> ('w env) vconsole \<Rightarrow> 'w env \<Rightarrow> bool \<times> 'w env" where
  "remote_listener_step os vconsole e =
     (if listeningRemoteServer (snd e) \<and> running (snd e) then
        (case os_recv os (remoteServerSock (snd e)) (of_nat (remote_buffer_size - 1)) False (fst e) of (r, w) \<Rightarrow>
           let e = (w, snd e); buffer = c_str (recv_bytes r) in
           if recv_count r > 0 then
             (True, snd (sendPayloadToCS2Console os buffer vconsole
                (say Info (''[RemoteServerConnection] Received '' @ [CHR 0x27] @ buffer @ [CHR 0x27]
                       @ '' from remote server'') e)))
           else if recv_count r = 0 then
             (False, remote_listener_exit os (say Warn ''[RemoteServerConnection] Connection closed by remote server'' e))
           else if os_errno os w \<noteq> EWOULDBLOCK then
             (False, remote_listener_exit os
                (say Err (''[RemoteServerConnection] recv failed from remote server: Error code ''
                       @ show_int (os_errno os w) @ '' '') e))
           else (True, e))
      else (False, remote_listener_exit os e))"

section \<open>Cleanup\<close>

definition cleanupRemoteServer_stop :: "'w os \<Rightarrow> 'w env \<Rightarrow> 'w env" where
  "cleanupRemoteServer_stop os e =
     (let (w, c) = e; c = c\<lparr>listeningRemoteServer := False, remoteServerConnected := False\<rparr>
      in if remoteServerSock c \<noteq> INVALID_SOCKET
         then (os_close os (remoteServerSock c) w, c\<lparr>remoteServerSock := INVALID_SOCKET\<rparr>)
         else (w, c))"

definition cleanupRemoteServer_join :: "client \<Rightarrow> client option" where
  "cleanupRemoteServer_join c =
     (case join_thread (remoteServerListenerThread c) of None \<Rightarrow> None
      | Some t \<Rightarrow> (case join_thread (remoteServerConnectorThread c) of None \<Rightarrow> None
          | Some t' \<Rightarrow> Some (c\<lparr>remoteServerListenerThread := t, remoteServerConnectorThread := t'\<rparr>)))"

end
