(* ===== verification/Descriptors.thy ===== *)
theory Descriptors
  imports VConsole_Session
begin

text \<open>
  Descriptor accounting. The locale \<open>kernel\<close> is what the client relies on from the operating
  system's descriptor table; the locale \<open>connection_slot\<close> is the contract of a variable that
  holds at most one connection (dial, hang up), from which it follows that sessions do not
  leak and that dialling over a live connection does. The VConsole object implements it over
  every kernel; the relay connection of the client does too (theory \<open>Client_Sessions\<close>).
\<close>

section \<open>What the kernel promises of descriptors\<close>

locale kernel =
  fixes os :: "'w os" and fds :: "'w \<Rightarrow> int set"
  assumes socket_fds: "os_socket os w = (fd, w') \<Longrightarrow>
      (if fd = INVALID_SOCKET then fds w' = fds w else fd \<notin> fds w \<and> fds w' = insert fd (fds w))"
    and connect_fds: "fds (snd (os_connect os fd a p w)) = fds w"
    and send_fds: "fds (snd (os_send os fd bs w)) = fds w"
    and recv_fds: "fds (snd (os_recv os fd n peek w)) = fds w"
    and shutdown_fds: "fds (os_shutdown os fd w) = fds w"
    and close_fds: "fds (os_close os fd w) = fds w - {fd}"
    and invalid_fds: "INVALID_SOCKET \<notin> fds w"

section \<open>A variable that holds a connection\<close>

locale connection_slot =
  fixes dial :: "'x \<Rightarrow> 's \<Rightarrow> bool \<times> 's"
    and hangup :: "'s \<Rightarrow> 's"
    and sock :: "'s \<Rightarrow> int"
    and open_fds :: "'s \<Rightarrow> int set"
    and inv :: "'s \<Rightarrow> bool"
  assumes dial_ok: "inv s \<Longrightarrow> dial x s = (True, s') \<Longrightarrow>
      sock s' \<noteq> INVALID_SOCKET \<and> sock s' \<notin> open_fds s \<and> open_fds s' = insert (sock s') (open_fds s) \<and> inv s'"
    and dial_fails: "inv s \<Longrightarrow> dial x s = (False, s') \<Longrightarrow>
      sock s' = INVALID_SOCKET \<and> open_fds s' = open_fds s \<and> inv s'"
    and hangup_closes: "inv s \<Longrightarrow>
      sock (hangup s) = INVALID_SOCKET \<and> open_fds (hangup s) = open_fds s - {sock s} \<and> inv (hangup s)"
begin

definition session :: "'x \<Rightarrow> 's \<Rightarrow> 's" where
  "session x s = (case dial x s of (ok, s') \<Rightarrow> if ok then hangup s' else s')"

lemma session_no_leak: "inv s \<Longrightarrow> open_fds (session x s) = open_fds s \<and> inv (session x s)"
proof (cases "dial x s")
  case (Pair ok s')
  assume inv: "inv s"
  show ?thesis
  proof (cases ok)
    case True
    then have "sock s' \<notin> open_fds s" "open_fds s' = insert (sock s') (open_fds s)" "inv s'"
      using dial_ok [OF inv, of x s'] Pair by simp_all
    then show ?thesis using hangup_closes [of s'] Pair True by (simp add: session_def)
  next
    case False
    then show ?thesis using dial_fails [OF inv, of x s'] Pair by (simp add: session_def)
  qed
qed

lemma sessions_no_leak: "inv s \<Longrightarrow> open_fds (fold session xs s) = open_fds s"
proof (induction xs arbitrary: s)
  case (Cons x xs)
  then show ?case using session_no_leak [of s x] by simp
qed simp

text \<open>Dialling over a live connection loses it: no later hang-up closes it.\<close>

lemma redial_leaks:
  assumes "inv s" "sock s \<in> open_fds s" "dial x s = (True, s')"
  shows "sock s' \<noteq> sock s \<and> sock s \<in> open_fds (hangup s')"
  using dial_ok [OF assms(1,3)] hangup_closes [of s'] assms(2) by auto

end

section \<open>The VConsole object\<close>

type_synonym ('w, 'c) vc_state = "('w \<times> 'c) vconsole \<times> 'w \<times> 'c"

definition vc_dial :: "'w os \<Rightarrow> string \<times> int \<Rightarrow> ('w, 'c) vc_state \<Rightarrow> bool \<times> ('w, 'c) vc_state" where
  "vc_dial os x s =
     (case VConsole_connect os (fst x) (snd x) (fst s) (fst (snd s)) of (ok, vc, w) \<Rightarrow> (ok, (vc, (w, snd (snd s)))))"

definition vc_hangup :: "'w os \<Rightarrow> ('w, 'c) vc_state \<Rightarrow> ('w, 'c) vc_state" where
  "vc_hangup os s = VConsole_disconnect os (fst s) (snd s)"

definition vc_inv :: "('w, 'c) vc_state \<Rightarrow> bool" where
  "vc_inv s \<longleftrightarrow> onDisconnected (fst s) = None"

definition vc_sock :: "('w, 'c) vc_state \<Rightarrow> int" where "vc_sock s = clientSocket (fst s)"

context kernel
begin

lemma fds_socket_ok:
  "os_socket os w = (fd, w') \<Longrightarrow> fd \<noteq> INVALID_SOCKET \<Longrightarrow> fd \<notin> fds w \<and> fds w' = insert fd (fds w)"
  using socket_fds [of w fd w'] by simp

lemma fds_socket_failed: "os_socket os w = (INVALID_SOCKET, w') \<Longrightarrow> fds w' = fds w"
  using socket_fds [of w INVALID_SOCKET w'] by simp

lemma fds_connect: "os_connect os fd a p w = (r, w') \<Longrightarrow> fds w' = fds w"
  using connect_fds [of fd a p w] by simp

lemma fds_send: "os_send os fd bs w = (r, w') \<Longrightarrow> fds w' = fds w"
  using send_fds [of fd bs w] by simp

lemma fds_recv: "os_recv os fd n peek w = (r, w') \<Longrightarrow> fds w' = fds w"
  using recv_fds [of fd n peek w] by simp

lemmas fds_simps = shutdown_fds close_fds

lemma VConsole_connect_fds:
  assumes "VConsole_connect os ip port vc w = (ok, vc', w')"
  shows "if ok then clientSocket vc' \<noteq> INVALID_SOCKET \<and> clientSocket vc' \<notin> fds w
             \<and> fds w' = insert (clientSocket vc') (fds w)
         else clientSocket vc' = INVALID_SOCKET \<and> fds w' = fds w"
proof (cases "os_socket os w")
  case (Pair fd w1)
  obtain r w2 where con: "os_connect os fd (sin_addr os ip) (htons (of_int port)) w1 = (r, w2)" by fastforce
  show ?thesis
  proof (cases "fd = INVALID_SOCKET")
    case True
    then show ?thesis using assms Pair fds_socket_failed by (auto simp: VConsole_connect_def)
  next
    case False
    then have "fd \<notin> fds w" "fds w2 = insert fd (fds w)"
      using Pair fds_socket_ok fds_connect [OF con] by simp_all
    then show ?thesis
      using assms False unfolding VConsole_connect_def Pair Let_def prod.case con
      by (cases "r = SOCKET_ERROR") (simp_all add: close_fds, (elim conjE, hypsubst, simp add: close_fds)+)
  qed
qed

lemma VConsole_disconnect_fds:
  "onDisconnected vc = None \<Longrightarrow>
     fds (fst (snd (VConsole_disconnect os vc e))) = fds (fst e) - {clientSocket vc}"
  using invalid_fds [of "fst e"]
  by (cases e) (auto simp: VConsole_disconnect_def fds_simps)

end

sublocale kernel \<subseteq> game: connection_slot "vc_dial os" "vc_hangup os" vc_sock
  "\<lambda>s. fds (fst (snd s))" vc_inv
proof
  fix s s' :: "('w, 'c) vc_state" and x
  assume inv: "vc_inv s"
  obtain ok vc w where con: "VConsole_connect os (fst x) (snd x) (fst s) (fst (snd s)) = (ok, vc, w)"
    by (metis prod_cases3)
  have keep: "onDisconnected vc = None"
    using connect_callbacks [OF con] inv by (simp add: vc_inv_def)
  note facts = VConsole_connect_fds [OF con] keep con
  have st: "vc_dial os x s = (ok, (vc, (w, snd (snd s))))" by (simp add: vc_dial_def con)
  show "vc_dial os x s = (True, s') \<Longrightarrow> vc_sock s' \<noteq> INVALID_SOCKET \<and> vc_sock s' \<notin> fds (fst (snd s))
      \<and> fds (fst (snd s')) = insert (vc_sock s') (fds (fst (snd s))) \<and> vc_inv s'"
  proof -
    assume "vc_dial os x s = (True, s')"
    then have "ok" "s' = (vc, (w, snd (snd s)))" by (simp_all add: st)
    then show ?thesis using facts by (simp add: vc_sock_def vc_inv_def)
  qed
  show "vc_dial os x s = (False, s') \<Longrightarrow> vc_sock s' = INVALID_SOCKET \<and> fds (fst (snd s')) = fds (fst (snd s)) \<and> vc_inv s'"
  proof -
    assume "vc_dial os x s = (False, s')"
    then have "\<not> ok" "s' = (vc, (w, snd (snd s)))" by (simp_all add: st)
    then show ?thesis using facts by (simp add: vc_sock_def vc_inv_def)
  qed
  show "vc_sock (vc_hangup os s) = INVALID_SOCKET \<and> fds (fst (snd (vc_hangup os s))) = fds (fst (snd s)) - {vc_sock s}
      \<and> vc_inv (vc_hangup os s)"
    using VConsole_disconnect_fds [of "fst s" "snd s"] inv
    by (simp add: vc_hangup_def vc_sock_def vc_inv_def)
qed

section \<open>The simulated kernel is one\<close>

definition sim_fds :: "sim \<Rightarrow> int set" where
  "sim_fds w = {fd \<in> set (sim_open w). fd < sim_next w \<and> fd \<noteq> INVALID_SOCKET}"

lemma sim_fds_recv: "sim_fds (snd (sim_recv fd n peek w)) = sim_fds w"
  by (simp add: sim_recv_def sim_fds_def split: list.split)

interpretation sim: kernel sim_os sim_fds
proof
  fix w w' fd
  show "os_socket sim_os w = (fd, w') \<Longrightarrow>
      if fd = INVALID_SOCKET then sim_fds w' = sim_fds w else fd \<notin> sim_fds w \<and> sim_fds w' = insert fd (sim_fds w)"
    by (auto simp: sim_os_def sim_fds_def)
qed (auto simp: sim_os_def sim_fds_def sim_fds_recv [unfolded sim_fds_def])

section \<open>Properties of the VConsole connection\<close>

definition vc_session :: "'w os \<Rightarrow> string \<times> int \<Rightarrow> ('w, 'c) vc_state \<Rightarrow> ('w, 'c) vc_state" where
  "vc_session os x s = (case vc_dial os x s of (ok, s') \<Rightarrow> if ok then vc_hangup os s' else s')"

context kernel
begin

lemma vc_sessions_no_leak:
  "vc_inv (s :: ('w, 'c) vc_state) \<Longrightarrow> fds (fst (snd (fold (vc_session os) xs s))) = fds (fst (snd s))"
proof -
  assume "vc_inv s"
  moreover have "(game.session :: _ \<Rightarrow> ('w, 'c) vc_state \<Rightarrow> _) = vc_session os" by (intro ext) (simp add: game.session_def vc_session_def)
  ultimately show ?thesis using game.sessions_no_leak [of s xs] by simp
qed

lemmas vc_redial_leaks = game.redial_leaks

end

text \<open>
  Connecting and disconnecting leaks nothing. Over every kernel that keeps a descriptor
  table, after any number of rounds of \<open>connect\<close>, each followed by \<open>disconnect\<close> when it
  succeeded, to whatever addresses and with whatever failures in between, the open
  descriptors are those of the start.
\<close>

theorem vconsole_sessions_no_leak:
  assumes "kernel os fds" and "onDisconnected vc = None"
  shows "fds (fst (snd (fold (vc_session os) addresses (vc, (w, c))))) = fds w"
  using kernel.vc_sessions_no_leak [OF assms(1), of "(vc, (w, c))" addresses] assms(2)
  by (simp add: vc_inv_def)

theorem vconsole_sessions_no_leak_witness:
  "sim_fds (fst (snd (fold (vc_session sim_os) [(''127.0.0.1'', 29000), (''x'', 1)]
      (VConsole_new, (sim_init, ()))))) = {}"
proof -
  have "onDisconnected (VConsole_new :: (sim \<times> unit) vconsole) = None" by (simp add: VConsole_new_def)
  from vconsole_sessions_no_leak [OF sim.kernel_axioms this, of "[(''127.0.0.1'', 29000), (''x'', 1)]" sim_init "()"]
  have "sim_fds (fst (snd (fold (vc_session sim_os) [(''127.0.0.1'', 29000), (''x'', 1)]
      (VConsole_new, (sim_init, ()))))) = sim_fds sim_init" .
  also have "\<dots> = {}" by (simp add: sim_fds_def sim_init_def)
  finally show ?thesis .
qed

text \<open>
  \<open>connect\<close> on an object that is still connected leaks the old descriptor: the field
  is overwritten, the old socket stays open, and a later \<open>disconnect\<close> closes another one.
\<close>

theorem reconnect_leaks_socket:
  assumes "kernel os fds" and "onDisconnected vc = None"
    and "clientSocket vc \<in> fds w" and "VConsole_connect os ip port vc w = (True, vc', w')"
  shows "clientSocket vc' \<noteq> clientSocket vc
         \<and> clientSocket vc \<in> fds (fst (snd (VConsole_disconnect os vc' (w', c))))"
proof -
  have "vc_dial os (ip, port) (vc, (w, c)) = (True, (vc', (w', c)))" by (simp add: vc_dial_def assms(4))
  from kernel.vc_redial_leaks [OF assms(1) _ _ this] assms(2,3)
  show ?thesis by (simp add: vc_inv_def vc_sock_def vc_hangup_def)
qed

theorem reconnect_leaks_socket_witness:
  "let (ok, vc1, w1) = VConsole_connect sim_os ''127.0.0.1'' 29000 VConsole_new sim_init;
       (ok2, vc2, w2) = VConsole_connect sim_os ''127.0.0.1'' 29000 vc1 w1
   in clientSocket vc2 \<noteq> clientSocket vc1
      \<and> clientSocket vc1 \<in> sim_fds (fst (snd (VConsole_disconnect sim_os vc2 (w2, ()))))"
proof -
  let ?vc1 = "(VConsole_new :: (sim \<times> unit) vconsole)\<lparr>clientSocket := 3\<rparr>" let ?w1 = "sim_init\<lparr>sim_next := 4, sim_open := [3]\<rparr>"
  let ?vc2 = "(VConsole_new :: (sim \<times> unit) vconsole)\<lparr>clientSocket := 4\<rparr>" let ?w2 = "sim_init\<lparr>sim_next := 5, sim_open := [4, 3]\<rparr>"
  have 1: "VConsole_connect sim_os ''127.0.0.1'' 29000 (VConsole_new :: (sim \<times> unit) vconsole) sim_init = (True, ?vc1, ?w1)"
    by (simp add: VConsole_connect_def sim_os_def sim_init_def INVALID_SOCKET_def SOCKET_ERROR_def)
  have 2: "VConsole_connect sim_os ''127.0.0.1'' 29000 ?vc1 ?w1 = (True, ?vc2, ?w2)"
    by (simp add: VConsole_connect_def sim_os_def sim_init_def INVALID_SOCKET_def SOCKET_ERROR_def
        VConsole_new_def)
  have "clientSocket ?vc2 \<noteq> clientSocket ?vc1
      \<and> clientSocket ?vc1 \<in> sim_fds (fst (snd (VConsole_disconnect sim_os ?vc2 (?w2, ()))))"
    by (rule reconnect_leaks_socket [OF sim.kernel_axioms _ _ 2])
      (simp_all add: VConsole_new_def sim_fds_def INVALID_SOCKET_def)
  with 1 2 show ?thesis by simp
qed

end
