(* ===== verification/Client_Sessions.thy ===== *)
theory Client_Sessions
  imports Client_Remote Descriptors
begin

text \<open>
  Properties of the client's two connections: the descriptors they use, what forwarding
  does to a text, the result codes, and what cleanup leaves.
\<close>

section \<open>The relay connection is a connection slot\<close>

definition relay_dial :: "'w os \<Rightarrow> unit \<Rightarrow> 'w env \<Rightarrow> bool \<times> 'w env" where
  "relay_dial os _ e = connectToRemoteServer os e"

definition relay_session :: "'w os \<Rightarrow> unit \<Rightarrow> 'w env \<Rightarrow> 'w env" where
  "relay_session os x e = (case relay_dial os x e of (ok, e') \<Rightarrow> if ok then cleanupRemoteServer_stop os e' else e')"

context kernel
begin

lemma connectToRemoteServer_fds:
  assumes "connectToRemoteServer os (w, c) = (ok, (w', c'))"
  shows "if ok then remoteServerSock c' \<noteq> INVALID_SOCKET \<and> remoteServerSock c' \<notin> fds w
             \<and> fds w' = insert (remoteServerSock c') (fds w)
         else remoteServerSock c' = INVALID_SOCKET \<and> fds w' = fds w"
proof (cases "os_socket os w")
  case (Pair fd w1)
  let ?ip = "Config_get (config_map c) ''remote_server_ip'' ''127.0.0.1''"
  let ?port = "Config_getInt (config_map c) ''remote_server_port'' 42069"
  obtain r w2 where con: "os_connect os fd (sin_addr os ?ip) (htons (of_int ?port)) w1 = (r, w2)" by fastforce
  show ?thesis
  proof (cases "fd = INVALID_SOCKET")
    case True
    have "ok = False" "w' = w1" "remoteServerSock c' = INVALID_SOCKET"
      using assms True unfolding connectToRemoteServer_def Let_def prod.case Pair by auto
    then show ?thesis using Pair True fds_socket_failed by simp
  next
    case False
    then have fd: "fd \<notin> fds w" "fds w2 = insert fd (fds w)"
      using Pair fds_socket_ok fds_connect [OF con] by simp_all
    show ?thesis
    proof (cases "r = SOCKET_ERROR")
      case True
      have "ok = False" "w' = os_close os fd w2" "remoteServerSock c' = INVALID_SOCKET"
        using assms False True unfolding connectToRemoteServer_def Let_def prod.case Pair con by auto
      then show ?thesis using fd by (simp add: close_fds)
    next
      case ok: False
      have "ok" "w' = w2" "remoteServerSock c' = fd"
        using assms False ok unfolding connectToRemoteServer_def Let_def prod.case Pair con by auto
      then show ?thesis using fd False by simp
    qed
  qed
qed

lemma cleanupRemoteServer_stop_fds:
  "remoteServerSock (snd (cleanupRemoteServer_stop os e)) = INVALID_SOCKET
   \<and> fds (fst (cleanupRemoteServer_stop os e)) = fds (fst e) - {remoteServerSock (snd e)}"
  using invalid_fds [of "fst e"]
  by (cases e) (simp add: cleanupRemoteServer_stop_def close_fds Let_def)

end

sublocale kernel \<subseteq> relay: connection_slot "relay_dial os" "cleanupRemoteServer_stop os"
  "\<lambda>e. remoteServerSock (snd e)" "\<lambda>e. fds (fst e)" "\<lambda>_. True"
proof
  fix s s' :: "'w env" and x :: unit
  note dial = connectToRemoteServer_fds [of "fst s" "snd s" _ "fst s'" "snd s'"]
  show "relay_dial os x s = (True, s') \<Longrightarrow> remoteServerSock (snd s') \<noteq> INVALID_SOCKET
      \<and> remoteServerSock (snd s') \<notin> fds (fst s) \<and> fds (fst s') = insert (remoteServerSock (snd s')) (fds (fst s)) \<and> True"
    using dial [of True] by (simp add: relay_dial_def)
  show "relay_dial os x s = (False, s') \<Longrightarrow> remoteServerSock (snd s') = INVALID_SOCKET \<and> fds (fst s') = fds (fst s) \<and> True"
    using dial [of False] by (simp add: relay_dial_def)
  show "remoteServerSock (snd (cleanupRemoteServer_stop os s)) = INVALID_SOCKET
      \<and> fds (fst (cleanupRemoteServer_stop os s)) = fds (fst s) - {remoteServerSock (snd s)} \<and> True"
    using cleanupRemoteServer_stop_fds by simp
qed

context kernel
begin

lemma relay_sessions_no_leak: "fds (fst (fold (relay_session os) xs e)) = fds (fst e)"
proof -
  have "relay.session = relay_session os" by (intro ext) (simp add: relay.session_def relay_session_def)
  then show ?thesis using relay.sessions_no_leak [of xs e] by simp
qed

text \<open>A poll of the game's socket that finds nothing changes no descriptor and no field.\<close>

lemma processIncomingData_idle:
  "processIncomingData os vc e = Inr (False, vc', e') \<Longrightarrow>
     vc' = vc \<and> snd e' = snd e \<and> fds (fst e') = fds (fst e)"
proof -
  assume idle: "processIncomingData os vc e = Inr (False, vc', e')"
  have read: "fds w' = fds w" if chunk: "readChunk os vc w = Inr (n, buf, w')" for n buf w w'
  proof -
    obtain r w1 where r1: "os_recv os (clientSocket vc) 12 False w = (r, w1)"
        and "w' = w1 \<or> (\<exists>m p. os_recv os (clientSocket vc) m False w1 = (p, w'))"
      using readChunk_world [OF chunk] by blast
    then show ?thesis using fds_recv [OF r1] fds_recv by metis
  qed
  show ?thesis
  proof (cases "readChunk os vc (fst e)")
    case (Inl f)
    then show ?thesis using idle by (simp add: processIncomingData_def)
  next
    case (Inr a)
    obtain n buf w where a: "a = (n, buf, w)" by (metis prod_cases3)
    have "n \<le> 0"
    proof (rule ccontr)
      assume "\<not> n \<le> 0"
      then show False
        using idle unfolding processIncomingData_def Inr a
        by (cases "processPacket (take 4 buf) buf vc (w, snd e)") (auto simp: Let_def)
    qed
    then have "processIncomingData os vc e = Inr (False, vc, (w, snd e))"
      by (simp add: processIncomingData_def Inr a)
    with idle have "vc' = vc \<and> e' = (w, snd e)" by (metis Inr_inject prod.inject)
    then show ?thesis using read [of "fst e" n buf w] Inr a by simp
  qed
qed

lemma isConnected_fds: "isConnected os vc w = (alive, w') \<Longrightarrow> fds w' = fds w"
  using fds_recv by (auto simp: isConnected_def split: prod.splits if_splits)

end

section \<open>Descriptors across the two loops\<close>

text \<open>
  The relay connection leaks nothing over whole sessions: after any number of rounds of
  connecting and cleaning up, successful or not, the open descriptors are those of the
  start, and \<open>remoteServerSock\<close> holds a descriptor only while \<open>connectToRemoteServer\<close>
  answered true.
\<close>

theorem relay_sessions_keep_descriptors:
  assumes "kernel os fds"
  shows "fds (fst (fold (relay_session os) rounds e)) = fds (fst e)
    \<and> (fst (connectToRemoteServer os e) = (remoteServerSock (snd (snd (connectToRemoteServer os e))) \<noteq> INVALID_SOCKET))"
proof -
  obtain w c where e: "e = (w, c)" by fastforce
  obtain ok w' c' where con: "connectToRemoteServer os (w, c) = (ok, (w', c'))" by (metis prod_cases3)
  show ?thesis
    using kernel.relay_sessions_no_leak [OF assms, of rounds e]
      kernel.connectToRemoteServer_fds [OF assms con] con e
    by (cases ok) simp_all
qed

theorem relay_sessions_keep_descriptors_witness:
  "sim_fds (fst (fold (relay_session sim_os) [(), ()] (sim_init, client_init False))) = {}"
proof -
  have "sim_fds sim_init = {}" by (simp add: sim_fds_def sim_init_def)
  then show ?thesis
    using relay_sessions_keep_descriptors [OF sim.kernel_axioms, of "[(), ()]" "(sim_init, client_init False)"]
    by (simp only: fst_conv)
qed

text \<open>
  C21: A lost game connection leaks its socket. When the listener loop gives up because the
  connection is gone, it clears the flags but leaves the VConsole object connected; if the
  connector comes round before it has noticed the loss itself, it dials again over the old
  socket, which stays open and is no longer referenced.
\<close>

theorem lost_connection_leaks_socket:
  assumes "kernel os fds" and "onDisconnected vc = None" and "clientSocket vc \<in> fds w"
    and "cs2_listener_step os (vc, (w, c)) = Inr (False, (vc1, (w1, c1)))"
    and "cs2_connector_top os now l (vc1, (w1, c1\<lparr>cs2ListenerThread := Finished\<rparr>)) = Join (l', (vc2, (w2, c2)))"
  shows "clientSocket vc2 \<noteq> clientSocket vc \<and> clientSocket vc \<in> fds w2
    \<and> clientSocket vc \<in> fds (fst (snd (VConsole_disconnect os vc2 (w2, c2))))"
proof -
  have exit: "vc1 = vc \<and> fds w1 = fds w \<and> \<not> cs2ConsoleConnected c1"
  proof (cases "listeningCS2 c \<and> running c")
    case False
    then show ?thesis using assms(4) by (auto simp: cs2_listener_step_def cs2_listener_exit_def set_flags_def)
  next
    case True
    then obtain vc' w' c' alive w'' where
        idle: "processIncomingData os vc (w, c) = Inr (False, vc', (w', c'))"
        and "isConnected os vc' w' = (alive, w'')" "vc1 = vc'" "w1 = w''" "\<not> cs2ConsoleConnected c1"
      using assms(4)
      by (auto simp: cs2_listener_step_def cs2_listener_exit_def set_flags_def bindE_eq_Inr_iff
          split: if_splits prod.splits)
    then show ?thesis
      using kernel.processIncomingData_idle [OF assms(1) idle] by (auto dest: kernel.isConnected_fds [OF assms(1)])
  qed
  let ?c1 = "c1\<lparr>cs2ListenerThread := Finished\<rparr>"
  obtain ip port where dial: "VConsole_connect os ip port vc w1 = (True, vc2, w2)"
    using assms(5) exit
    by (auto simp: cs2_connector_top_def connectToCS2Console_def set_flags_def Let_def
        split: prod.splits if_splits)
  have "onDisconnected vc2 = None" using connect_callbacks [OF dial] assms(2) by simp
  moreover have "clientSocket vc2 \<noteq> clientSocket vc
      \<and> clientSocket vc \<in> fds (fst (snd (VConsole_disconnect os vc2 (w2, c2))))"
    by (rule reconnect_leaks_socket [OF assms(1,2) _ dial]) (use assms(3) exit in simp)
  ultimately show ?thesis using kernel.VConsole_disconnect_fds [OF assms(1), of vc2 "(w2, c2)"] by simp
qed

definition lost_world :: sim where
  "lost_world = sim_init\<lparr>sim_open := [3], sim_next := 4, sim_eof := [3]\<rparr>"

definition lost_vconsole :: "(sim env) vconsole" where
  "lost_vconsole = VConsole_new\<lparr>clientSocket := 3\<rparr>"

definition listening_client :: client where
  "listening_client = (client_init False)\<lparr>listeningCS2 := True, cs2ConsoleConnected := True\<rparr>"

theorem lost_connection_leaks_socket_witness:
  "\<forall>l. case cs2_listener_step sim_os (lost_vconsole, (lost_world, listening_client)) of
     Inr (False, (vc1, (w1, c1))) \<Rightarrow>
       (case cs2_connector_top sim_os 0 l (vc1, (w1, c1\<lparr>cs2ListenerThread := Finished\<rparr>)) of
          Join (_, (vc2, (w2, c2))) \<Rightarrow> clientSocket vc2 \<noteq> 3 \<and> 3 \<in> sim_fds w2
        | _ \<Rightarrow> False)
   | _ \<Rightarrow> False"
proof (rule allI)
  fix l
  let ?st = "(lost_vconsole, (lost_world, listening_client))"
  let ?c1 = "(listening_client\<lparr>listeningCS2 := False, cs2ConsoleConnected := False\<rparr>)"
  have idle: "processIncomingData sim_os lost_vconsole (lost_world, listening_client)
      = Inr (False, lost_vconsole, (lost_world, listening_client))"
    by (simp add: processIncomingData_def readChunk_def lost_vconsole_def lost_world_def sim_os_def sim_recv_def
        sim_init_def read_error_def EWOULDBLOCK_def Let_def)
  have alive: "isConnected sim_os lost_vconsole lost_world = (False, lost_world)"
    by (simp add: isConnected_def lost_vconsole_def lost_world_def sim_os_def sim_recv_def sim_init_def INVALID_SOCKET_def)
  obtain c1 where step: "cs2_listener_step sim_os ?st = Inr (False, (lost_vconsole, (lost_world, c1)))"
      and c1: "\<not> cs2ConsoleConnected c1"
    using idle alive
    by (simp add: cs2_listener_step_def cs2_listener_exit_def set_flags_def listening_client_def)
  obtain l' vc2 w2 c2 where top: "cs2_connector_top sim_os 0 l (lost_vconsole, (lost_world, c1\<lparr>cs2ListenerThread := Finished\<rparr>))
      = Join (l', (vc2, (w2, c2)))"
    using c1
    by (simp add: cs2_connector_top_def connectToCS2Console_def VConsole_connect_def sim_os_def lost_world_def
        sim_init_def INVALID_SOCKET_def SOCKET_ERROR_def set_flags_def Let_def)
  have "onDisconnected lost_vconsole = None" "clientSocket lost_vconsole = 3" "3 \<in> sim_fds lost_world"
    by (simp_all add: lost_vconsole_def VConsole_new_def lost_world_def sim_fds_def INVALID_SOCKET_def)
  then show "case cs2_listener_step sim_os (lost_vconsole, (lost_world, listening_client)) of
     Inr (False, (vc1, (w1, c1))) \<Rightarrow>
       (case cs2_connector_top sim_os 0 l (vc1, (w1, c1\<lparr>cs2ListenerThread := Finished\<rparr>)) of
          Join (_, (vc2, (w2, c2))) \<Rightarrow> clientSocket vc2 \<noteq> 3 \<and> 3 \<in> sim_fds w2
        | _ \<Rightarrow> False)
   | _ \<Rightarrow> False"
    using lost_connection_leaks_socket [OF sim.kernel_axioms _ _ step top] step top by simp
qed

section \<open>Forwarding, result codes, cleanup\<close>

text \<open>
  C6: What the relay server sends becomes game commands, one per read. When both connections
  are up, a read of the relay socket that returns bytes makes the listener send the game one
  command frame with exactly these bytes up to the first NUL, and nothing else; so texts
  that arrive in one read are one command, and a text cut by the 1023-byte buffer is two.
\<close>

theorem relay_read_becomes_one_command:
  assumes "listeningRemoteServer c" and "running c" and "cs2ConsoleConnected c"
    and "os_recv os (remoteServerSock c) 1023 False w = (Some bs, w1)" and "bs \<noteq> []"
  shows "\<exists>c'. remote_listener_step os vc (w, c)
      = (True, (snd (os_send os (clientSocket vc) (createCommandPayload (c_str bs)) w1), c'))
    \<and> log_file c' = log_file c @ [log_entry Info (''[RemoteServerConnection] Received '' @ [CHR 0x27]
         @ c_str bs @ [CHR 0x27] @ '' from remote server'')]"
proof -
  obtain n w2 where send: "os_send os (clientSocket vc) (createCommandPayload (c_str bs)) w1 = (n, w2)" by fastforce
  have log: "log_file (spd Info p c) = log_file c @ [log_entry Info p]" for p
    by (simp add: spd_eq tui_sink_callback_def addConsoleMessage_def Let_def)
  have "0 < length bs" using assms(5) by simp
  then show ?thesis
    using assms
    by (simp add: remote_listener_step_def remote_buffer_size_def sendPayloadToCS2Console_def sendCmd_def send log Let_def)
qed

definition relay_world :: "bytes list \<Rightarrow> sim" where
  "relay_world segments = sim_init\<lparr>sim_open := [3, 4], sim_next := 5, sim_in := (\<lambda>_. [])(4 := segments)\<rparr>"

definition relayed_client :: client where
  "relayed_client = (client_init False)\<lparr>listeningRemoteServer := True, remoteServerConnected := True,
     cs2ConsoleConnected := True, remoteServerSock := 4\<rparr>"

theorem relay_read_becomes_one_command_witness:
  "sim_sent (fst (snd (remote_listener_step sim_os lost_vconsole (relay_world [''say a'' @ ''quit''], relayed_client))))
     = [(3, createCommandPayload ''say aquit'')]"
proof -
  let ?w = "relay_world [''say a'' @ ''quit'']"
  have "os_recv sim_os (remoteServerSock relayed_client) 1023 False ?w = (Some ''say aquit'', relay_world [])"
    by (simp add: sim_os_def sim_recv_def relay_world_def relayed_client_def)
  from relay_read_becomes_one_command [OF _ _ _ this, of lost_vconsole]
  have "fst (snd (remote_listener_step sim_os lost_vconsole (?w, relayed_client)))
      = snd (os_send sim_os 3 (createCommandPayload ''say aquit'') (relay_world []))"
    by (auto simp: relayed_client_def lost_vconsole_def)
  then show ?thesis by (simp add: sim_os_def relay_world_def sim_init_def)
qed

text \<open>
  The result of \<open>sendPayloadToCS2Console\<close> does not tell success from failure. With no
  connection nothing is sent and the result is 1; with a connection whose send succeeds the
  result is also 1, the result of \<open>sendCmd\<close> as an integer; 0 means that the send failed.
\<close>

theorem sendPayload_code_is_ambiguous:
  assumes "os_send os (clientSocket vc) (createCommandPayload payload) w = (n, w')"
  shows "fst (sendPayloadToCS2Console os payload vc (w, c\<lparr>cs2ConsoleConnected := False\<rparr>)) = 1
    \<and> fst (snd (sendPayloadToCS2Console os payload vc (w, c\<lparr>cs2ConsoleConnected := False\<rparr>))) = w
    \<and> sendPayloadToCS2Console os payload vc (w, c\<lparr>cs2ConsoleConnected := True\<rparr>)
        = (if n = SOCKET_ERROR then 0 else 1, (w', c\<lparr>cs2ConsoleConnected := True\<rparr>))"
  using assms by (simp add: sendPayloadToCS2Console_def sendCmd_def)

theorem sendPayload_code_is_ambiguous_witness:
  "fst (sendPayloadToCS2Console sim_os ''x'' lost_vconsole (relay_world [], relayed_client\<lparr>cs2ConsoleConnected := True\<rparr>)) = 1
   \<and> fst (sendPayloadToCS2Console sim_os ''x'' lost_vconsole (relay_world [], relayed_client\<lparr>cs2ConsoleConnected := False\<rparr>)) = 1"
proof -
  have "fst (os_send sim_os (clientSocket lost_vconsole) (createCommandPayload ''x'') (relay_world [])) \<noteq> SOCKET_ERROR"
    by (simp add: sim_os_def lost_vconsole_def relay_world_def SOCKET_ERROR_def)
  then show ?thesis
    using sendPayload_code_is_ambiguous [OF surjective_pairing, where os = sim_os and vc = lost_vconsole
        and payload = "''x''" and w = "relay_world []" and c = relayed_client]
    by simp
qed

text \<open>
  Cleanup is complete and can run twice. After both stop routines all connection flags
  are clear, both sockets are invalid and their descriptors closed, whatever the state
  before; a second run of both changes nothing, neither the state nor the kernel.
\<close>

theorem cleanup_complete_and_idempotent:
  assumes "kernel os fds" and "onDisconnected vc = None"
    and "cleanupCS2Console_stop os (vc, e) = (vc1, e1)" and "cleanupRemoteServer_stop os e1 = e2"
  shows "\<not> running (snd e2) \<and> \<not> listeningCS2 (snd e2) \<and> \<not> cs2ConsoleConnected (snd e2)
    \<and> \<not> listeningRemoteServer (snd e2) \<and> \<not> remoteServerConnected (snd e2)
    \<and> clientSocket vc1 = INVALID_SOCKET \<and> remoteServerSock (snd e2) = INVALID_SOCKET
    \<and> fds (fst e2) = fds (fst e) - {clientSocket vc, remoteServerSock (snd e)}
    \<and> cleanupCS2Console_stop os (vc1, e2) = (vc1, e2) \<and> cleanupRemoteServer_stop os e2 = e2"
proof -
  obtain w c where e: "e = (w, c)" by fastforce
  let ?c = "c\<lparr>running := False, listeningCS2 := False, cs2ConsoleConnected := False\<rparr>"
  have dis: "VConsole_disconnect os vc (w, ?c) = (vc1, e1)"
    using assms(3) by (simp add: cleanupCS2Console_stop_def e)
  have vc1: "clientSocket vc1 = INVALID_SOCKET" "onDisconnected vc1 = None"
    using disconnect_socket [of os vc "(w, ?c)"] disconnect_callbacks [of os vc "(w, ?c)"] dis assms(2) by simp_all
  have e1: "snd e1 = ?c" "fds (fst e1) = fds w - {clientSocket vc}"
    using kernel.VConsole_disconnect_fds [OF assms(1,2), of "(w, ?c)"]
      disconnect_env [OF assms(2), of os "(w, ?c)"] by (simp_all add: dis)
  have e2: "remoteServerSock (snd e2) = INVALID_SOCKET"
      "fds (fst e2) = fds w - {clientSocket vc} - {remoteServerSock c}"
    using kernel.cleanupRemoteServer_stop_fds [OF assms(1), of e1] assms(4) e1 by simp_all
  have flags: "snd e2 = ?c\<lparr>listeningRemoteServer := False, remoteServerConnected := False,
      remoteServerSock := INVALID_SOCKET\<rparr>"
    using e1(1) unfolding assms(4) [symmetric]
    by (cases e1; cases c) (simp add: cleanupRemoteServer_stop_def Let_def)
  have same: "VConsole_disconnect os vc1 e = (vc1, e)" for e
    using vc1 by (simp add: disconnect_invalid)
  have "cleanupCS2Console_stop os (vc1, e2) = (vc1, e2)"
    using flags by (cases e2) (simp add: cleanupCS2Console_stop_def same Let_def)
  moreover have "cleanupRemoteServer_stop os e2 = e2"
    using flags by (cases e2) (simp add: cleanupRemoteServer_stop_def Let_def)
  moreover have "fds (fst e2) = fds (fst e) - {clientSocket vc, remoteServerSock (snd e)}"
    unfolding e2(2) e by auto
  ultimately show ?thesis using vc1 e2 flags by simp
qed

theorem cleanup_complete_and_idempotent_witness:
  "case cleanupCS2Console_stop sim_os (lost_vconsole, (relay_world [], relayed_client)) of (vc1, e1) \<Rightarrow>
     sim_fds (fst (cleanupRemoteServer_stop sim_os e1)) = {}"
proof -
  obtain vc1 e1 where stop: "cleanupCS2Console_stop sim_os (lost_vconsole, (relay_world [], relayed_client)) = (vc1, e1)"
    by (metis surj_pair)
  have "onDisconnected lost_vconsole = None" by (simp add: lost_vconsole_def VConsole_new_def)
  from cleanup_complete_and_idempotent [OF sim.kernel_axioms this stop refl]
  have "sim_fds (fst (cleanupRemoteServer_stop sim_os e1)) = sim_fds (relay_world []) - {3, 4}"
    by (simp add: lost_vconsole_def relayed_client_def)
  also have "\<dots> = {}" by (auto simp: sim_fds_def relay_world_def)
  finally show ?thesis by (simp add: stop)
qed

end
