(* ===== verification/Client_Main.thy ===== *)
theory Client_Main
  imports Client_Sessions
begin

text \<open>
  The client's \<open>main.cpp\<close>: the VConsole callbacks, the command callback of the interface,
  the start of the program, the signal handler and the shutdown; and \<open>setupApplicationSockets\<close>
  of \<open>utils.cpp\<close>.

  \<open>terminal\<close> output (\<open>std::cout\<close> and \<open>std::cerr\<close>) is appended to \<open>std_out\<close>.
\<close>

section \<open>The player's name\<close>

text \<open>
  \<open>std::regex_search\<close> for \<open>name = (.+)\<close>: the leftmost match, the group as long as possible;
  a dot matches every character but newline and carriage return.
\<close>

definition regex_dot :: "char \<Rightarrow> bool" where
  "regex_dot c \<longleftrightarrow> c \<noteq> CHR 0x0A \<and> c \<noteq> CHR 0x0D"

fun regex_search_name :: "string \<Rightarrow> string option" where
  "regex_search_name [] = None"
| "regex_search_name (c # s) =
     (let group = takeWhile regex_dot (drop 7 (c # s)) in
      if take 7 (c # s) = ''name = '' \<and> group \<noteq> [] then Some group else regex_search_name s)"

definition print_line :: "string \<Rightarrow> 'w env \<Rightarrow> 'w env" where
  "print_line line = apsnd (\<lambda>c. c\<lparr>std_out := std_out c @ [line]\<rparr>)"

definition handlePRNT :: "'w os \<Rightarrow> PRNT \<Rightarrow> 'w env \<Rightarrow> 'w env" where
  "handlePRNT os prnt e =
     (case regex_search_name (prnt_message prnt) of
        None \<Rightarrow> e
      | Some name \<Rightarrow>
          let e = apsnd (\<lambda>c. c\<lparr>clientName := name\<rparr>) e;
              e = print_line (''Player name updated: '' @ name) e
          in case sendMessageToRemoteServer os (player_message name) e of (sent, e) \<Rightarrow>
            if sent then print_line ''Sent player name to remote server.'' e
            else print_line ''Failed to send player name to remote server.'' e)"

section \<open>The callbacks\<close>

definition on_CHAN :: "curses \<Rightarrow> CHAN \<Rightarrow> 'w env \<Rightarrow> 'w env" where
  "on_CHAN env chan = apsnd (fold (\<lambda>channel.
     registerChannel env (spd Warn) (sint (channel_id channel)) (c_str (channel_name channel))
       (text_RGBA_override channel) 0) (channels chan))"

definition on_PRNT :: "'w os \<Rightarrow> PRNT \<Rightarrow> 'w env \<Rightarrow> 'w env" where
  "on_PRNT os prnt e =
     (let e = apsnd (\<lambda>c. addConsoleMessage (system_now c) (sint (prnt_channelID prnt))
                           (prnt_message prnt) (prnt_color prnt) c) e
      in if clientName (snd e) = '''' then handlePRNT os prnt e else e)"

text \<open>
  The command callback works on the kernel's world too. The interface is parametric in what
  its record is extended with, so the world travels in the extension of \<open>client\<close>.
\<close>

definition attach :: "'w env \<Rightarrow> 'w client_scheme" where
  "attach e = client.extend (snd e) (fst e)"

definition detach :: "'w client_scheme \<Rightarrow> 'w env" where
  "detach x = (client.more x, client.truncate x)"

lemma detach_attach [simp]: "detach (attach e) = e"
  by (cases e) (simp add: attach_def detach_def client.defs)

definition command_callback :: "'w os \<Rightarrow> ('w env) vconsole \<Rightarrow> string \<Rightarrow> 'w client_scheme \<Rightarrow> 'w client_scheme" where
  "command_callback os vconsole command x =
     attach (snd (sendPayloadToCS2Console os command vconsole (detach x)))"

definition main_iteration ::
  "'w os \<Rightarrow> ('w env) vconsole \<Rightarrow> curses \<times> key option \<times> int \<Rightarrow> 'w env \<Rightarrow> 'w env" where
  "main_iteration os vconsole inp e =
     detach (run_iteration (Some (command_callback os vconsole)) inp (attach e))"

section \<open>main\<close>

definition setupApplicationSockets :: "'w env \<Rightarrow> bool \<times> 'w env" where
  "setupApplicationSockets e =
     (if \<not> platformSocketInit then (False, print_line ''[Main] Socket initialization failed'' e) else (True, e))"

definition file_log :: "level \<times> string \<Rightarrow> client \<Rightarrow> client" where
  "file_log m c = snd (logger_log (fst m) (snd m) file_logger c)"

definition main_callbacks :: "'w os \<Rightarrow> curses \<Rightarrow> ('w env) vconsole \<Rightarrow> ('w env) vconsole" where
  "main_callbacks os env vconsole = setOnPRNTReceived (on_PRNT os) (setOnCHANReceived (on_CHAN env) vconsole)"

text \<open>The left side is the exit code of a start that failed.\<close>

definition main_start ::
  "'w os \<Rightarrow> curses \<Rightarrow> (string \<rightharpoonup> string) \<Rightarrow> string option \<Rightarrow> 'w cs2 \<Rightarrow> int + 'w cs2" where
  "main_start os env files getcwd st =
     (let (vconsole, (w, c)) = st;
          (loaded, cfg, logs) = setupConfig files getcwd (config_map c);
          c = fold file_log logs (c\<lparr>config_map := cfg\<rparr>)
      in if \<not> loaded then Inl 1
         else case setupApplicationSockets (w, c) of (ok, (w, c)) \<Rightarrow>
           if \<not> ok then Inl 1
           else
             let c = tui_init env c;
                 c = registerChannel env (spd Warn) APPLICATION_SPECIAL_CHANNEL_ID ''Log'' 0xD0D0D0FF 0x2D0034FF c;
                 vconsole = main_callbacks os env vconsole;
                 c = spd Info (''[Main] Starting '' @ application_name) c;
                 c = c\<lparr>cs2ConnectorThread := Running\<rparr>;
                 c = (if Config_getInt (config_map c) ''remote_server_enabled'' 0 = 1
                      then c\<lparr>remoteServerConnectorThread := Running\<rparr> else c)
             in Inr (vconsole, (w, c)))"

definition signalHandler :: "int \<Rightarrow> client \<Rightarrow> client" where
  "signalHandler signum c =
     (spd Info (''[Main] Interrupt signal '' @ show_int signum @ '' received.'') c)
       \<lparr>m_running := False, running := False\<rparr>"

text \<open>
  \<open>gracefulShutdown\<close> with the joins of the two cleanup routines: \<open>game_threads\<close> and
  \<open>relay_threads\<close> are what the threads do between the stop and the join; \<open>None\<close> when a join
  would wait for ever.
\<close>

definition gracefulShutdown ::
  "'w os \<Rightarrow> ('w cs2 \<Rightarrow> 'w cs2) \<Rightarrow> ('w cs2 \<Rightarrow> 'w cs2) \<Rightarrow> 'w cs2 \<Rightarrow> 'w cs2 option" where
  "gracefulShutdown os game_threads relay_threads st =
     (let st = apsnd (say Info ''Initiating graceful shutdown...'') st;
          st = apsnd (apsnd (\<lambda>c. c\<lparr>m_running := False\<rparr>)) st;
          (vconsole, (w, c)) = game_threads (cleanupCS2Console_stop os st)
      in case cleanupCS2Console_join c of
           None \<Rightarrow> None
         | Some c \<Rightarrow>
             (case relay_threads (vconsole, cleanupRemoteServer_stop os (w, c)) of (vconsole, (w, c)) \<Rightarrow>
                case cleanupRemoteServer_join c of
                  None \<Rightarrow> None
                | Some c \<Rightarrow> Some (vconsole, print_line ''CS2RemoteConsole shutdown complete. Bye-bye!...''
                              (platformSocketCleanup w, c))))"

section \<open>Properties\<close>

lemma regex_search_name_here:
  "name \<noteq> [] \<Longrightarrow> \<forall>c \<in> set name. regex_dot c \<Longrightarrow> (case rest of [] \<Rightarrow> True | c # _ \<Rightarrow> \<not> regex_dot c) \<Longrightarrow>
     regex_search_name (''name = '' @ name @ rest) = Some name"
  by (cases rest) (simp_all add: takeWhile_append2 takeWhile_eq_all_conv [THEN iffD2] Let_def)

lemma regex_search_name_printable:
  "regex_search_name s = Some name \<Longrightarrow> name \<noteq> [] \<and> set name \<subseteq> set s \<and> (\<forall>c \<in> set name. regex_dot c)"
proof (induction s)
  case Nil
  then show ?case by simp
next
  case (Cons c s)
  let ?g = "takeWhile regex_dot (drop 7 (c # s))"
  have g: "set ?g \<subseteq> set (c # s)" "\<forall>x \<in> set ?g. regex_dot x"
    by (auto simp del: drop_Suc_Cons dest!: set_takeWhileD in_set_dropD)
  show ?case
  proof (cases "take 7 (c # s) = ''name = '' \<and> ?g \<noteq> []")
    case True
    then have "name = ?g" using Cons.prems unfolding regex_search_name.simps Let_def by simp
    then show ?thesis using g True by simp
  next
    case False
    then have "regex_search_name s = Some name"
      using Cons.prems unfolding regex_search_name.simps Let_def by (simp only: if_False)
    then show ?thesis using Cons.IH by auto
  qed
qed

lemma attach_simps [simp]:
  "m_inputBuffer (attach e) = m_inputBuffer (snd e)"
  "m_consoleMessages (attach e) = m_consoleMessages (snd e)"
  "cs2ConsoleConnected (attach e) = cs2ConsoleConnected (snd e)"
  "client.more (attach e) = fst e"
  "tui_out (attach e) = tui_out (snd e)"
  by (simp_all add: attach_def client.defs)

lemma detach_simps [simp]:
  "fst (detach x) = client.more x"
  "m_inputBuffer (snd (detach x)) = m_inputBuffer x"
  "cs2ConsoleConnected (snd (detach x)) = cs2ConsoleConnected x"
  by (simp_all add: detach_def client.defs)

lemma tui_more_client:
  "tui.more x = tui.more y \<Longrightarrow> client.more (x :: 'w client_scheme) = client.more y
     \<and> cs2ConsoleConnected x = cs2ConsoleConnected y"
  by (cases x; cases y) simp

lemma sendPayload_inputBuffer:
  "m_inputBuffer (snd (snd (sendPayloadToCS2Console os payload vc e))) = m_inputBuffer (snd e)"
  by (cases e) (simp add: sendPayloadToCS2Console_def split: prod.split)

lemma command_callback_inputBuffer: "m_inputBuffer (command_callback os vc line u) = m_inputBuffer u"
  by (simp add: command_callback_def sendPayload_inputBuffer)


definition playing_client :: client where
  "playing_client = (client_init False)\<lparr>cs2ConsoleConnected := True, remoteServerSock := 4\<rparr>"


text \<open>
  The player's name is learnt once and announced once. While no name is known, a console
  message that contains \<open>name = \<close> and a rest of line sets the name to that rest and, with a
  relay socket, sends the relay exactly \<open>PLAYERNAME:\<close> and the name; once a name is known no
  console message changes it or makes the client send anything.
\<close>

theorem player_name_learnt_once:
  assumes "regex_search_name (prnt_message prnt) = Some name"
    and "os_send os (remoteServerSock c) (player_message name) w = (n, w')" and "n \<noteq> SOCKET_ERROR"
    and "clientName c = ''''" and "remoteServerSock c \<noteq> INVALID_SOCKET" and "known \<noteq> ''''"
  shows "fst (on_PRNT os prnt (w, c)) = w' \<and> clientName (snd (on_PRNT os prnt (w, c))) = name
    \<and> fst (on_PRNT os prnt (w, c\<lparr>clientName := known\<rparr>)) = w
    \<and> clientName (snd (on_PRNT os prnt (w, c\<lparr>clientName := known\<rparr>))) = known"
  using assms
  by (simp add: on_PRNT_def handlePRNT_def print_line_def sendMessageToRemoteServer_def
      addConsoleMessage_def Let_def)

theorem player_name_learnt_once_witness:
  "clientName (snd (on_PRNT sim_os
      \<lparr>prnt_channelID = 0, prnt_unknown = [], prnt_color = 0, prnt_message = ''cfg name = bob''\<rparr>
      (relay_world [], playing_client))) = ''bob''"
proof -
  have "regex_search_name ''cfg name = bob'' = Some ''bob''" by code_simp
  moreover have "clientName playing_client = ''''" "remoteServerSock playing_client = 4"
    by (simp_all add: playing_client_def)
  moreover have "os_send sim_os 4 (player_message ''bob'') (relay_world [])
      = (14, (relay_world [])\<lparr>sim_sent := [(4, player_message ''bob'')]\<rparr>)"
    by (simp add: sim_os_def relay_world_def sim_init_def player_message_def)
  ultimately show ?thesis
    using player_name_learnt_once [where prnt = "\<lparr>prnt_channelID = 0, prnt_unknown = [], prnt_color = 0,
          prnt_message = ''cfg name = bob''\<rparr>" and os = sim_os and c = playing_client
        and w = "relay_world []" and name = "''bob''" and known = "''x''"]
    by (simp add: SOCKET_ERROR_def INVALID_SOCKET_def)
qed

text \<open>
  The program starts exactly when it finds a configuration. With none in either place the
  exit code is 1; otherwise the game connector runs, the relay connector runs exactly when
  \<open>remote_server_enabled\<close> reads as 1 (it is off by default), the PRNT and CHAN callbacks are
  installed, and no callback for a lost connection is.
\<close>

theorem main_start_outcome:
  "case main_start os env files getcwd (VConsole_new, (w, client_init u)) of
     Inl code \<Rightarrow> code = 1 \<and> \<not> fst (setupConfig files getcwd Map.empty)
   | Inr (vconsole, (w', c)) \<Rightarrow>
       fst (setupConfig files getcwd Map.empty)
       \<and> cs2ConnectorThread c = Running
       \<and> (remoteServerConnectorThread c = Running) = (Config_getInt (config_map c) ''remote_server_enabled'' 0 = 1)
       \<and> onPRNTReceived vconsole \<noteq> None \<and> onCHANReceived vconsole \<noteq> None
       \<and> onDisconnected vconsole = None \<and> w' = w"
proof -
  obtain loaded cfg logs where cfg: "setupConfig files getcwd Map.empty = (loaded, cfg, logs)"
    by (metis prod_cases3)
  have flog: "remoteServerConnectorThread (fold file_log logs c) = remoteServerConnectorThread c" for c
  proof (induction logs arbitrary: c)
    case (Cons m logs)
    have "remoteServerConnectorThread (file_log m c) = remoteServerConnectorThread c"
      by (simp add: file_log_def file_logger_def logger_log_def logger_log_it_def logger_new_def backtracer_new_def
          logger_sink_it_def logger_flush_def file_sink_def sink_should_log_def base_sink_log_def Let_def)
    with Cons show ?case by simp
  qed simp
  have more: "tui.more x = tui.more y \<Longrightarrow> remoteServerConnectorThread x = remoteServerConnectorThread y" for x y :: client
    by (cases x; cases y) simp
  have color: "remoteServerConnectorThread (registerChannel env (spd Warn) i n col b c) = remoteServerConnectorThread c" for i n col b c
    using more [OF initializeColor_frame(9) [of col b c]]
    by (cases "initializeColor col b c") (auto simp: registerChannel_def split: option.split)
  have ini: "remoteServerConnectorThread (tui_init env c) = remoteServerConnectorThread c" for c
    by (simp add: tui_init_def createWindows_def emit_def Let_def split: prod.split)
  show ?thesis
  proof (cases loaded)
    case False
    then show ?thesis by (simp add: main_start_def cfg)
  next
    case True
    then show ?thesis
      by (simp add: main_start_def cfg setupApplicationSockets_def platformSocketInit_def main_callbacks_def
          setOnPRNTReceived_def setOnCHANReceived_def VConsole_new_def flog color ini Let_def)
  qed
qed

end
