(* ===== verification/Time_Text.thy ===== *)
theory Time_Text
  imports Number_Text
begin

text \<open>
  Calendar time as the C library hands it to the program, and its text: \<open>struct tm\<close> and
  \<open>getFormattedTime\<close> of \<open>CS2RemoteConsole-server/src/utils.cpp\<close>. The conversion of a time
  point to \<open>struct tm\<close> depends on the system's time zone and is a parameter.
\<close>

record tm =
  tm_sec :: int
  tm_min :: int
  tm_hour :: int
  tm_mday :: int
  tm_mon :: int
  tm_year :: int
  tm_wday :: int
  tm_yday :: int

definition zero_pad :: "nat \<Rightarrow> string \<Rightarrow> string" where
  "zero_pad width s = replicate (width - length s) (CHR ''0'') @ s"

lemma length_zero_pad [simp]: "length (zero_pad n s) = max n (length s)"
  by (simp add: zero_pad_def)

definition two_digits :: "int \<Rightarrow> string" where
  "two_digits n = zero_pad 2 (show_int n)"

text \<open>\<open>std::put_time(\<dots>, "%Y-%m-%d %X")\<close>; \<open>%X\<close> is \<open>%H:%M:%S\<close> in the C locale.\<close>

definition put_time_date_time :: "tm \<Rightarrow> string" where
  "put_time_date_time t =
     show_int (tm_year t + 1900) @ ''-'' @ two_digits (tm_mon t + 1) @ ''-'' @ two_digits (tm_mday t) @ '' ''
     @ two_digits (tm_hour t) @ '':'' @ two_digits (tm_min t) @ '':'' @ two_digits (tm_sec t)"

definition getFormattedTime :: "(int \<Rightarrow> tm) \<Rightarrow> int \<Rightarrow> string" where
  "getFormattedTime localtime in_time_t = put_time_date_time (localtime in_time_t)"

end
