(* ===== verification/Server_State.thy ===== *)
theory Server_State
  imports Os_Api Time_Text
begin

text \<open>
  The relay server's state (\<open>CS2RemoteConsole-server/src/server.h\<close>, \<open>client_handler.h\<close>,
  \<open>utils.h\<close>): the client record, the class \<open>Server\<close>, and the vector of clients with the
  references that the handler threads hold into it.

  \<open>acceptClients\<close> starts a detached thread with \<open>std::ref(m_clients.back())\<close>. A reference is
  modelled by the allocation it points into and its index there: it can be used while that
  allocation is the vector's current one and the index is below the size; any other use is
  the fault \<open>DanglingReference\<close>. The vector grows as in libstdc++, from 0 to 1 and then by
  doubling.
\<close>

record ClientInfo =
  ci_name :: string
  ci_socket :: int
  ci_ip :: string
  ci_port :: u16
  ci_connectionTime :: int

definition ClientInfo_new :: "int \<Rightarrow> int \<Rightarrow> string \<Rightarrow> u16 \<Rightarrow> ClientInfo" where
  "ClientInfo_new now s i p =
     \<lparr>ci_name = '''', ci_socket = s, ci_ip = i, ci_port = p, ci_connectionTime = now\<rparr>"

record server =
  m_initialPort :: u16
  m_port :: u16
  m_listenSocket :: int
  m_clients :: "ClientInfo list"
  vec_buffer :: nat
  vec_capacity :: nat
  m_srv_running :: bool
  m_acceptThread :: bool
  handlers :: "(nat \<times> nat) list"
  srv_out :: "string list"

type_synonym client_ref = "nat \<times> nat"

definition Server_new :: "u16 \<Rightarrow> bool \<Rightarrow> server" where
  "Server_new initialPort run =
     \<lparr>m_initialPort = initialPort, m_port = initialPort, m_listenSocket = INVALID_SOCKET, m_clients = [],
      vec_buffer = 0, vec_capacity = 0, m_srv_running = run, m_acceptThread = False, handlers = [], srv_out = []\<rparr>"

definition getCurrentPort :: "server \<Rightarrow> u16" where "getCurrentPort s = m_port s"

section \<open>The vector\<close>

definition deref :: "client_ref \<Rightarrow> server \<Rightarrow> fault + ClientInfo" where
  "deref r s =
     (if fst r = vec_buffer s \<and> snd r < length (m_clients s) then Inr (m_clients s ! snd r)
      else Inl DanglingReference)"

definition vec_growth :: "nat \<Rightarrow> nat" where
  "vec_growth n = (if n = 0 then 1 else 2 * n)"

definition emplace_back :: "ClientInfo \<Rightarrow> server \<Rightarrow> server" where
  "emplace_back c s =
     (let s = (if length (m_clients s) = vec_capacity s
               then s\<lparr>vec_buffer := vec_buffer s + 1, vec_capacity := vec_growth (vec_capacity s)\<rparr>
               else s)
      in s\<lparr>m_clients := m_clients s @ [c]\<rparr>)"

definition back_ref :: "server \<Rightarrow> client_ref" where
  "back_ref s = (vec_buffer s, length (m_clients s) - 1)"

definition erase_at :: "nat \<Rightarrow> server \<Rightarrow> server" where
  "erase_at i s = s\<lparr>m_clients := take i (m_clients s) @ drop (Suc i) (m_clients s)\<rparr>"

definition vec_clear :: "server \<Rightarrow> server" where
  "vec_clear s = s\<lparr>m_clients := []\<rparr>"

text \<open>What every reachable vector satisfies: the size never exceeds the capacity.\<close>

definition vec_inv :: "server \<Rightarrow> bool" where
  "vec_inv s \<longleftrightarrow> length (m_clients s) \<le> vec_capacity s"

lemma vec_inv_emplace_back: "vec_inv s \<Longrightarrow> vec_inv (emplace_back c s)"
  by (auto simp: vec_inv_def emplace_back_def vec_growth_def Let_def)

lemma vec_inv_erase: "vec_inv s \<Longrightarrow> vec_inv (erase_at i s)"
  by (auto simp: vec_inv_def erase_at_def)

lemma deref_back: "deref (back_ref (emplace_back c s)) (emplace_back c s) = Inr c"
  by (simp add: deref_def back_ref_def emplace_back_def Let_def nth_append)

section \<open>Terminal output\<close>

definition ANSI_COLOR_COMMON :: string where "ANSI_COLOR_COMMON = CHR 0x1B # ''[38;5;251m''"
definition ANSI_COLOR_ID :: string where "ANSI_COLOR_ID = CHR 0x1B # ''[38;5;220m''"
definition ANSI_COLOR_USERNAME :: string where "ANSI_COLOR_USERNAME = CHR 0x1B # ''[38;5;39m''"
definition ANSI_COLOR_IP_PORT :: string where "ANSI_COLOR_IP_PORT = CHR 0x1B # ''[38;5;208m''"
definition ANSI_COLOR_TIMESTAMP :: string where "ANSI_COLOR_TIMESTAMP = CHR 0x1B # ''[38;5;71m''"
definition ANSI_COLOR_RESET :: string where "ANSI_COLOR_RESET = CHR 0x1B # ''[0m''"

definition cout :: "string \<Rightarrow> server \<Rightarrow> server" where
  "cout line s = s\<lparr>srv_out := srv_out s @ [line]\<rparr>"

lemma cout_simps [simp]:
  "m_clients (cout l s) = m_clients s" "vec_buffer (cout l s) = vec_buffer s"
  "vec_capacity (cout l s) = vec_capacity s" "m_srv_running (cout l s) = m_srv_running s"
  "m_listenSocket (cout l s) = m_listenSocket s" "handlers (cout l s) = handlers s"
  "m_port (cout l s) = m_port s" "m_initialPort (cout l s) = m_initialPort s"
  "deref r (cout l s) = deref r s"
  by (simp_all add: cout_def deref_def)

text \<open>A client's address as the messages show it, in colour and plain.\<close>

definition show_port :: "u16 \<Rightarrow> string" where "show_port p = show_int (uint p)"

definition addr_text :: "ClientInfo \<Rightarrow> string" where
  "addr_text c = ci_ip c @ '':'' @ show_port (ci_port c)"

definition addr_color :: "ClientInfo \<Rightarrow> string" where
  "addr_color c = ANSI_COLOR_IP_PORT @ addr_text c @ ANSI_COLOR_RESET"

end
