(* ===== verification/Server.thy ===== *)
theory Server
  imports Server_State
begin

text \<open>
  The relay server's operations (\<open>CS2RemoteConsole-server/src/server.cpp\<close>, \<open>utils.cpp\<close>,
  \<open>main.cpp\<close>). Each loop body is one step; a handler thread is identified by the reference it
  was started with. Formatting of times is the argument \<open>ft\<close>.
\<close>

type_synonym 'w srv = "'w \<times> server"

abbreviation say_out :: "string \<Rightarrow> 'w srv \<Rightarrow> 'w srv" where
  "say_out line e \<equiv> apsnd (cout line) e"

section \<open>Sockets\<close>

definition setNonBlocking :: "'w os \<Rightarrow> int \<Rightarrow> 'w srv \<Rightarrow> 'w srv" where
  "setNonBlocking os sock e =
     (case os_fcntl_getfl os sock (fst e) of (flags, w) \<Rightarrow>
        if flags = -1 then say_out ''Failed to get socket flags.'' (w, snd e)
        else case os_fcntl_setfl os sock (flags OR O_NONBLOCK) w of (r, w) \<Rightarrow>
          if r = -1 then say_out ''Failed to set socket to non-blocking mode.'' (w, snd e)
          else (w, snd e))"

definition close_socket :: "'w os \<Rightarrow> int \<Rightarrow> 'w \<Rightarrow> 'w" where
  "close_socket os sock w = os_close os sock (os_shutdown os sock w)"

definition cleanupSockets :: "'w os \<Rightarrow> 'w srv \<Rightarrow> 'w srv" where
  "cleanupSockets os e =
     (let (w, s) = e;
          w = fold (\<lambda>c. close_socket os (ci_socket c)) (m_clients s) w;
          s = vec_clear s;
          (w, s) = (if m_listenSocket s \<noteq> INVALID_SOCKET
                    then (close_socket os (m_listenSocket s) w, s\<lparr>m_listenSocket := INVALID_SOCKET\<rparr>)
                    else (w, s))
      in say_out ''All sockets have been closed and cleaned up.'' (w, s))"

section \<open>start\<close>

text \<open>
  The port search. \<open>m_port\<close> is a \<open>uint16_t\<close>, so both tests against \<open>MAX_PORT\<close> are
  written as the code has them and the increment wraps. \<open>Inl\<close> is a return of false from
  inside the loop, \<open>Inr\<close> leaves it; \<open>None\<close> means that the loop does not end.
\<close>

definition MAX_PORT :: int where "MAX_PORT = 65535"

partial_function (option) start_search :: "'w os \<Rightarrow> 'w srv \<Rightarrow> ('w srv + 'w srv) option" where
  "start_search os e =
     (if uint (m_port (snd e)) \<le> MAX_PORT then
        let e = say_out (''Attempting to bind to port '' @ show_port (m_port (snd e)) @ ''...'') e in
        case os_socket os (fst e) of (fd, w) \<Rightarrow>
          let s = (snd e)\<lparr>m_listenSocket := fd\<rparr> in
          if fd = INVALID_SOCKET then
            Some (Inl (say_out (''Error creating socket: '' @ show_int (os_errno os w)) (w, s)))
          else case os_setsockopt os fd w of (r, w) \<Rightarrow>
            if r < 0 then
              Some (Inl (cleanupSockets os
                (say_out (''setsockopt(SO_REUSEADDR) failed: '' @ show_int (os_errno os w)) (w, s))))
            else case os_bind os fd (htons (m_port s)) w of (r, w) \<Rightarrow>
              if r = SOCKET_ERROR then
                let e = cleanupSockets os (say_out (''Bind failed on port '' @ show_port (m_port s) @ '': ''
                          @ show_int (os_errno os w)) (w, s));
                    e = apsnd (\<lambda>s. s\<lparr>m_port := m_port s + 1\<rparr>) e
                in if uint (m_port (snd e)) > MAX_PORT then
                     Some (Inl (say_out ''Exhausted all available ports. Failed to start server.'' e))
                   else start_search os e
              else Some (Inr (w, s))
      else Some (Inr e))"

definition Server_start :: "'w os \<Rightarrow> 'w srv \<Rightarrow> (bool \<times> 'w srv) option" where
  "Server_start os e =
     (case start_search os e of
        None \<Rightarrow> None
      | Some (Inl e) \<Rightarrow> Some (False, e)
      | Some (Inr (w, s)) \<Rightarrow>
          (case os_listen os (m_listenSocket s) w of (r, w) \<Rightarrow>
             if r = SOCKET_ERROR then
               Some (False, cleanupSockets os (say_out (''Listen failed: '' @ show_int (os_errno os w)) (w, s)))
             else
               let e = setNonBlocking os (m_listenSocket s) (w, s);
                   e = say_out (''Server is listening on port '' @ show_port (m_port (snd e))) e;
                   e = (if m_port (snd e) \<noteq> m_initialPort (snd e)
                        then say_out ''Note: The server is using a different port than initially specified.'' e
                        else e)
               in Some (True, e)))"

section \<open>Accepting clients\<close>

definition accept_step :: "'w os \<Rightarrow> (int \<Rightarrow> string) \<Rightarrow> int \<Rightarrow> 'w srv \<Rightarrow> 'w srv" where
  "accept_step os ft now e =
     (case os_accept os (m_listenSocket (snd e)) (fst e) of ((clientSocket, addr, port), w) \<Rightarrow>
        if clientSocket = INVALID_SOCKET then
          (if os_errno os w \<noteq> EWOULDBLOCK \<and> os_errno os w \<noteq> EAGAIN
           then say_out (''accept failed with error: '' @ show_int (os_errno os w)) (w, snd e)
           else (w, snd e))
        else
          let (w, s) = setNonBlocking os clientSocket (w, snd e);
              client = ClientInfo_new now clientSocket (os_inet_ntop os addr) (ntohs port);
              s = emplace_back client s;
              s = cout (CHR 0x0A # ''New client connected: '' @ addr_color client @ '' at ''
                    @ ANSI_COLOR_TIMESTAMP @ ft (ci_connectionTime client) @ ANSI_COLOR_RESET) s;
              s = s\<lparr>handlers := handlers s @ [back_ref s]\<rparr>
          in (w, s))"

section \<open>Handling a client\<close>

text \<open>\<open>broadcastToClients\<close>; \<open>exclude\<close> is the socket read through \<open>excludeClient\<close>, if any.\<close>

definition send_to :: "'w os \<Rightarrow> string \<Rightarrow> ClientInfo \<Rightarrow> 'w srv \<Rightarrow> 'w srv" where
  "send_to os message c e =
     (case os_send os (ci_socket c) message (fst e) of (r, w) \<Rightarrow>
        if r = SOCKET_ERROR then
          say_out (''send failed for client '' @ addr_text c @ '' with error: '' @ show_int (os_errno os w)) (w, snd e)
        else (w, snd e))"

definition broadcast_all :: "'w os \<Rightarrow> string \<Rightarrow> int option \<Rightarrow> 'w srv \<Rightarrow> 'w srv" where
  "broadcast_all os message exclude e =
     fold (\<lambda>c e. if exclude = Some (ci_socket c) then e else send_to os message c e) (m_clients (snd e)) e"

definition broadcastToClients :: "'w os \<Rightarrow> string \<Rightarrow> client_ref option \<Rightarrow> 'w srv \<Rightarrow> fault + 'w srv" where
  "broadcastToClients os message excludeClient e =
     (case excludeClient of
        None \<Rightarrow> Inr (broadcast_all os message None e)
      | Some r \<Rightarrow>
          if m_clients (snd e) = [] then Inr e
          else bindE (deref r (snd e)) (\<lambda>c. Inr (broadcast_all os message (Some (ci_socket c)) e)))"

definition set_name :: "client_ref \<Rightarrow> string \<Rightarrow> server \<Rightarrow> fault + server" where
  "set_name r name s =
     bindE (deref r s) (\<lambda>c. Inr (s\<lparr>m_clients := (m_clients s)[snd r := c\<lparr>ci_name := name\<rparr>]\<rparr>))"

definition find_colon :: "string \<Rightarrow> nat option" where
  "find_colon message =
     (let n = length (takeWhile (\<lambda>c. c \<noteq> CHR '':'') message)
      in if n < length message then Some n else None)"

definition handleClientMessage :: "'w os \<Rightarrow> client_ref \<Rightarrow> string \<Rightarrow> 'w srv \<Rightarrow> fault + 'w srv" where
  "handleClientMessage os r message e =
     bindE (deref r (snd e)) (\<lambda>client.
       case find_colon message of
         None \<Rightarrow> Inr (say_out (''Received invalid message format from client '' @ addr_color client @ '': '' @ message) e)
       | Some colonPos \<Rightarrow>
           let command = take colonPos message; content = drop (colonPos + 1) message in
           if command = ''PLAYERNAME'' then
             bindE (set_name r content (snd e)) (\<lambda>s.
               let s = cout (''Updated player name for client '' @ addr_color client @ '' to: ''
                         @ ANSI_COLOR_USERNAME @ content @ ANSI_COLOR_RESET) s
               in broadcastToClients os (''Player '' @ content @ '' has joined the game.'') (Some r) (fst e, s))
           else Inr (say_out (''Received from client '' @ addr_color client @ '': '' @ message) e))"

text \<open>
  \<open>removeClient\<close> compares every element with the socket read through the reference, so an
  empty vector is not a fault.
\<close>

definition find_socket :: "int \<Rightarrow> ClientInfo list \<Rightarrow> nat option" where
  "find_socket sock cs =
     (let n = length (takeWhile (\<lambda>c. ci_socket c \<noteq> sock) cs) in if n < length cs then Some n else None)"

definition removeClient :: "'w os \<Rightarrow> client_ref \<Rightarrow> 'w srv \<Rightarrow> fault + 'w srv" where
  "removeClient os r e =
     (if m_clients (snd e) = [] then Inr e
      else bindE (deref r (snd e)) (\<lambda>client.
        case find_socket (ci_socket client) (m_clients (snd e)) of
          None \<Rightarrow> Inr e
        | Some i \<Rightarrow> Inr (close_socket os (ci_socket (m_clients (snd e) ! i)) (fst e), erase_at i (snd e))))"

text \<open>One iteration of a handler; \<open>False\<close> means that the thread has ended.\<close>

definition handler_step :: "'w os \<Rightarrow> client_ref \<Rightarrow> 'w srv \<Rightarrow> fault + (bool \<times> 'w srv)" where
  "handler_step os r e =
     (let finish = (\<lambda>e. bindE (removeClient os r e) (\<lambda>e. Inr (False, e))) in
      if m_srv_running (snd e) then
        bindE (deref r (snd e)) (\<lambda>client.
          case os_recv os (ci_socket client) 1023 False (fst e) of (received, w) \<Rightarrow>
            let e = (w, snd e) in
            if recv_count received > 0 then
              bindE (handleClientMessage os r (c_str (recv_bytes received)) e) (\<lambda>e. Inr (True, e))
            else if recv_count received = 0 then
              finish (say_out (''Client '' @ addr_color client @ '' disconnected.'') e)
            else if os_errno os w \<noteq> EWOULDBLOCK \<and> os_errno os w \<noteq> EAGAIN then
              finish (say_out (''recv failed for client '' @ addr_text client @ '' with error: ''
                         @ show_int (os_errno os w)) e)
            else Inr (True, e))
      else finish e)"

section \<open>The operator's console\<close>

fun list_lines :: "(int \<Rightarrow> string) \<Rightarrow> nat \<Rightarrow> ClientInfo list \<Rightarrow> string list" where
  "list_lines ft index [] = []"
| "list_lines ft index (c # cs) =
     (ANSI_COLOR_ID @ ''['' @ show_nat index @ '']'' @ ANSI_COLOR_RESET @ '' ''
        @ ANSI_COLOR_USERNAME @ (if ci_name c = [] then ''Unknown'' else ci_name c) @ ANSI_COLOR_RESET @ '' - ''
        @ addr_color c @ '' - '' @ ANSI_COLOR_TIMESTAMP @ ft (ci_connectionTime c) @ ANSI_COLOR_RESET)
      # list_lines ft (index + 1) cs"

text \<open>
  One iteration of \<open>userInputHandler\<close>: \<open>None\<close> is a \<open>getline\<close> that leaves \<open>std::cin\<close> not
  good, \<open>alive\<close> is what \<open>m_running\<close> reads as after the \<open>getline\<close>.
\<close>

definition user_step :: "'w os \<Rightarrow> (int \<Rightarrow> string) \<Rightarrow> string option \<Rightarrow> bool \<Rightarrow> 'w srv \<Rightarrow> 'w srv" where
  "user_step os ft inp alive e =
     (let e = say_out (ANSI_COLOR_COMMON @ ''Enter command to send to clients (or '' @ [CHR 0x27] @ ''/quit''
                @ [CHR 0x27] @ '' to exit): '' @ ANSI_COLOR_RESET) e;
          stop = apsnd (\<lambda>s. s\<lparr>m_srv_running := False\<rparr>)
      in case inp of
           None \<Rightarrow> stop e
         | Some line \<Rightarrow>
             if \<not> alive then stop e
             else if line = ''/quit'' then stop e
             else if line = ''/list'' then
               apsnd (\<lambda>s. fold cout (''Connected clients:'' # list_lines ft 0 (m_clients s)) s) e
             else
               let e = broadcast_all os line None e
               in say_out (ANSI_COLOR_COMMON @ ''Command sent to '' @ ANSI_COLOR_RESET @ ANSI_COLOR_ID
                    @ show_nat (length (m_clients (snd e))) @ ANSI_COLOR_RESET @ ANSI_COLOR_COMMON
                    @ '' clients.'' @ ANSI_COLOR_RESET) e)"

text \<open>\<open>run\<close> before and after the operator's loop, and the destructor.\<close>

definition run_begin :: "server \<Rightarrow> server" where
  "run_begin s = s\<lparr>m_acceptThread := True\<rparr>"

definition run_end :: "'w os \<Rightarrow> 'w srv \<Rightarrow> 'w srv" where
  "run_end os e =
     apsnd (\<lambda>s. s\<lparr>m_acceptThread := False\<rparr>) (cleanupSockets os (say_out ''Shutting down server...'' e))"

definition Server_destroy :: "'w os \<Rightarrow> 'w srv \<Rightarrow> 'w srv" where
  "Server_destroy os e = cleanupSockets os e"

section \<open>main\<close>

definition default_port :: u16 where "default_port = 42069"

text \<open>The argument loop; a port text whose value is outside \<open>int\<close> is undefined in \<open>atoi\<close>.\<close>

fun parse_args :: "string list \<Rightarrow> u16 \<Rightarrow> fault + u16" where
  "parse_args [] port = Inr port"
| "parse_args [arg] port = Inr port"
| "parse_args (arg # val # rest) port =
     (if arg = ''-p'' \<or> arg = ''--port''
      then bindE (atoi val) (\<lambda>n. parse_args rest (of_int n))
      else parse_args (val # rest) port)"

definition server_signalHandler :: "int \<Rightarrow> server \<Rightarrow> server" where
  "server_signalHandler signum s =
     (cout (CHR 0x0A # ''Interrupt signal ('' @ show_int signum @ '') received. Initiating shutdown...'') s)
       \<lparr>m_srv_running := False\<rparr>"

definition server_main_start :: "'w os \<Rightarrow> string list \<Rightarrow> 'w \<Rightarrow> fault + (bool \<times> 'w srv) option" where
  "server_main_start os args w =
     bindE (parse_args args default_port) (\<lambda>port. Inr (Server_start os (w, Server_new port True)))"

end
