(* ===== verification/Server_Ports.thy ===== *)
theory Server_Ports
  imports Server
begin

text \<open>
  The port search of \<open>Server::start\<close>: it finds the first port that can be bound, counting
  modulo 65536, and it does not end when there is none; and the command line that chooses
  where it starts.
\<close>

section \<open>The search\<close>

text \<open>
  A kernel that hands out sockets and refuses \<open>bind\<close> exactly for the ports of \<open>busy\<close>.
\<close>

definition bind_policy :: "'w os \<Rightarrow> (u16 \<Rightarrow> bool) \<Rightarrow> bool" where
  "bind_policy os busy \<longleftrightarrow>
     (\<forall>w. fst (os_socket os w) \<noteq> INVALID_SOCKET)
     \<and> (\<forall>fd w. 0 \<le> fst (os_setsockopt os fd w))
     \<and> (\<forall>fd port w. (fst (os_bind os fd (htons port) w) = SOCKET_ERROR) = busy port)
     \<and> (\<forall>fd w. fst (os_listen os fd w) \<noteq> SOCKET_ERROR)"

lemma uint_u16_le: "uint (p :: u16) \<le> MAX_PORT"
  using uint_bounded [of p] by (simp add: MAX_PORT_def)

lemma not_above_max [simp]: "\<not> MAX_PORT < uint (p :: u16)"
  using uint_u16_le [of p] by simp

lemma cleanupSockets_port [simp]:
  "m_port (snd (cleanupSockets os e)) = m_port (snd e)"
  "m_initialPort (snd (cleanupSockets os e)) = m_initialPort (snd e)"
  "m_clients (snd (cleanupSockets os e)) = []"
  "m_listenSocket (snd (cleanupSockets os e)) = INVALID_SOCKET"
  by (cases e; simp add: cleanupSockets_def vec_clear_def Let_def)+

lemma setNonBlocking_frame [simp]:
  "m_port (snd (setNonBlocking os fd e)) = m_port (snd e)"
  "m_initialPort (snd (setNonBlocking os fd e)) = m_initialPort (snd e)"
  "m_listenSocket (snd (setNonBlocking os fd e)) = m_listenSocket (snd e)"
  "m_clients (snd (setNonBlocking os fd e)) = m_clients (snd e)"
  "vec_buffer (snd (setNonBlocking os fd e)) = vec_buffer (snd e)"
  "vec_capacity (snd (setNonBlocking os fd e)) = vec_capacity (snd e)"
  "handlers (snd (setNonBlocking os fd e)) = handlers (snd e)"
  "m_srv_running (snd (setNonBlocking os fd e)) = m_srv_running (snd e)"
  by (simp_all add: setNonBlocking_def split: prod.split)

text \<open>One round: a busy port leads to the next one, a free port ends the search.\<close>

lemma start_search_busy:
  assumes "bind_policy os busy" "busy (m_port (snd e))"
  shows "\<exists>e'. start_search os e = start_search os e' \<and> m_port (snd e') = m_port (snd e) + 1
    \<and> m_initialPort (snd e') = m_initialPort (snd e)"
proof -
  obtain fd w where so: "os_socket os (fst e) = (fd, w)" by fastforce
  obtain r w1 where opt: "os_setsockopt os fd w = (r, w1)" by fastforce
  obtain b w2 where bnd: "os_bind os fd (htons (m_port (snd e))) w1 = (b, w2)" by fastforce
  have "fd \<noteq> INVALID_SOCKET" "0 \<le> r" "b = SOCKET_ERROR"
    using assms so opt bnd unfolding bind_policy_def by (metis fst_conv)+
  then show ?thesis
    by (subst start_search.simps)
      (simp add: so opt bnd uint_u16_le Let_def del: split_paired_Ex, rule exI, rule conjI, rule refl, simp)
qed

lemma start_search_free:
  assumes "bind_policy os busy" "\<not> busy (m_port (snd e))"
  shows "\<exists>e'. start_search os e = Some (Inr e') \<and> m_port (snd e') = m_port (snd e)
    \<and> m_initialPort (snd e') = m_initialPort (snd e) \<and> m_listenSocket (snd e') \<noteq> INVALID_SOCKET"
proof -
  obtain fd w where so: "os_socket os (fst e) = (fd, w)" by fastforce
  obtain r w1 where opt: "os_setsockopt os fd w = (r, w1)" by fastforce
  obtain b w2 where bnd: "os_bind os fd (htons (m_port (snd e))) w1 = (b, w2)" by fastforce
  have "fd \<noteq> INVALID_SOCKET" "0 \<le> r" "b \<noteq> SOCKET_ERROR"
    using assms so opt bnd unfolding bind_policy_def by (metis fst_conv)+
  then show ?thesis
    by (subst start_search.simps) (simp add: so opt bnd uint_u16_le Let_def)
qed

lemma start_search_finds:
  assumes "bind_policy os busy"
  shows "(\<forall>i < k. busy (m_port (snd e) + of_nat i)) \<Longrightarrow> \<not> busy (m_port (snd e) + of_nat k) \<Longrightarrow>
    \<exists>e'. start_search os e = Some (Inr e') \<and> m_port (snd e') = m_port (snd e) + of_nat k
      \<and> m_initialPort (snd e') = m_initialPort (snd e) \<and> m_listenSocket (snd e') \<noteq> INVALID_SOCKET"
proof (induction k arbitrary: e)
  case 0
  then show ?case using start_search_free [OF assms, of e] by simp
next
  case (Suc k)
  have "busy (m_port (snd e))" using Suc.prems(1) [rule_format, of 0] by simp
  then obtain e' where e': "start_search os e = start_search os e'" "m_port (snd e') = m_port (snd e) + 1"
      "m_initialPort (snd e') = m_initialPort (snd e)"
    using start_search_busy [OF assms] by blast
  have shift: "m_port (snd e') + of_nat i = m_port (snd e) + of_nat (Suc i)" for i
    using e'(2) by simp
  have "\<forall>i<k. busy (m_port (snd e') + of_nat i)" "\<not> busy (m_port (snd e') + of_nat k)"
    unfolding shift using Suc.prems by auto
  from Suc.IH [OF this] show ?case unfolding shift using e' by auto
qed

text \<open>
  C14: The server starts on the first free port at or after the one it is given, counting
  modulo 65536: if the first \<open>k\<close> ports are busy and the next is free, \<open>start\<close> returns true
  with that port and a valid listening socket. The search does not stop at 65535 but wraps
  to port 0 and the low ports: the two tests against \<open>MAX_PORT\<close> can never fire.
\<close>

theorem start_finds_first_free_port:
  assumes "bind_policy os busy" and "\<forall>i < k. busy (m_port s + of_nat i)" and "\<not> busy (m_port s + of_nat k)"
  shows "\<exists>e'. Server_start os (w, s) = Some (True, e') \<and> m_port (snd e') = m_port s + of_nat k
    \<and> m_listenSocket (snd e') \<noteq> INVALID_SOCKET"
proof -
  obtain e1 where e1: "start_search os (w, s) = Some (Inr e1)" "m_port (snd e1) = m_port s + of_nat k"
      "m_listenSocket (snd e1) \<noteq> INVALID_SOCKET"
    using start_search_finds [OF assms(1), of k "(w, s)"] assms(2,3) by auto
  obtain w1 s1 where p: "e1 = (w1, s1)" by fastforce
  obtain r w2 where l: "os_listen os (m_listenSocket s1) w1 = (r, w2)" by fastforce
  have "r \<noteq> SOCKET_ERROR" using assms(1) l unfolding bind_policy_def by (metis fst_conv)
  then show ?thesis using e1 by (simp add: Server_start_def p l Let_def)
qed


definition ports_os :: "u16 list \<Rightarrow> bytes os" where
  "ports_os busy = queue_os\<lparr>os_bind := (\<lambda>fd p w. (if ntohs p \<in> set busy then -1 else 0, w))\<rparr>"

lemma ports_os_policy: "bind_policy (ports_os busy) (\<lambda>p. p \<in> set busy)"
  by (simp add: bind_policy_def ports_os_def queue_os_def INVALID_SOCKET_def SOCKET_ERROR_def)

theorem start_finds_first_free_port_witness:
  "\<exists>e'. Server_start (ports_os [65535]) ([], Server_new 65535 True) = Some (True, e') \<and> m_port (snd e') = 0"
proof -
  have s: "m_port (Server_new 65535 True) = 65535" by (simp add: Server_new_def)
  have "(65535 :: u16) + of_nat 1 = 0" by simp
  then show ?thesis
    using start_finds_first_free_port [OF ports_os_policy, of 1 "Server_new 65535 True" "[65535]" "[]"]
    by (auto simp: s)
qed

lemma start_search_none:
  "start_search os e = Some r \<Longrightarrow> \<not> bind_policy os (\<lambda>_. True)"
proof (induction os e r rule: start_search.raw_induct [rotated 1, consumes 1, case_names step])
  case (step f os e r)
  show ?case
  proof
  assume pol: "bind_policy os (\<lambda>_. True)"
  obtain fd w where so: "os_socket os (fst e) = (fd, w)" by fastforce
  obtain r1 w1 where opt: "os_setsockopt os fd w = (r1, w1)" by fastforce
  obtain b w2 where bnd: "os_bind os fd (htons (m_port (snd e))) w1 = (b, w2)" by fastforce
  have "fd \<noteq> INVALID_SOCKET" "0 \<le> r1" "b = SOCKET_ERROR"
    using pol so opt bnd unfolding bind_policy_def by (metis fst_conv)+
  then show False
    using step(1) [of os] step(2) pol by (simp add: so opt bnd uint_u16_le Let_def)
qed
qed

text \<open>
  C15: With no port to bind, \<open>start\<close> never returns. If every \<open>bind\<close> fails, whatever the
  reason, the search has no result: the message about exhausted ports is never printed and
  \<open>main\<close> never gets its exit code.
\<close>

theorem start_never_returns_without_port:
  assumes "bind_policy os (\<lambda>_. True)"
  shows "Server_start os e = None"
proof (cases "start_search os e")
  case (Some r)
  then show ?thesis using start_search_none assms by blast
qed (simp add: Server_start_def)

theorem start_never_returns_without_port_witness:
  "Server_start (queue_os\<lparr>os_bind := (\<lambda>fd p w. (-1, w))\<rparr>) ([], Server_new 42069 True) = None"
  by (rule start_never_returns_without_port)
    (simp add: bind_policy_def queue_os_def INVALID_SOCKET_def SOCKET_ERROR_def)

section \<open>The command line\<close>

text \<open>
  \<open>-p\<close> and \<open>--port\<close> set the starting port to their value modulo 65536 and the last one
  wins; other arguments are skipped and an option at the end without a value is ignored.
\<close>

theorem parse_args_port:
  assumes "opt \<in> {''-p'', ''--port''}" and "0 \<le> n" and "n \<le> INT_MAX" and "arg \<notin> {''-p'', ''--port''}"
  shows "parse_args (opt # show_int n # rest) port = parse_args rest (of_int n)
    \<and> parse_args (arg # rest) port = parse_args rest port
    \<and> parse_args [opt, show_int n, opt] port = Inr (of_int n)"
proof -
  have "atoi (show_int n) = Inr n" using atoi_show [of n "[]"] assms(2,3) by (simp add: INT_MIN_def)
  moreover have "parse_args (arg # rest) port = parse_args rest port"
    using assms(4) by (cases rest) auto
  ultimately show ?thesis using assms(1) by auto
qed

theorem parse_args_port_witness:
  "parse_args [''-v'', ''-p'', ''65537''] default_port = Inr 1"
proof -
  have digits: "show_int 65537 = ''65537''"
    by (simp add: show_int_def show_nat.simps)
  have "parse_args [''-v'', ''-p'', ''65537''] default_port = parse_args [''-p'', show_int 65537] default_port"
    using parse_args_port [of "''-p''" 0 "''-v''" "[''-p'', ''65537'']" default_port] by (simp add: digits INT_MAX_def)
  also have "\<dots> = Inr (of_int 65537)"
    using parse_args_port [of "''-p''" 65537 "''-v''" "[]" default_port] by (simp add: INT_MAX_def)
  finally show ?thesis by simp
qed

end
