(* ===== verification/Server_Clients.thy ===== *)
theory Server_Clients
  imports Server_Ports
begin

text \<open>
  What the server does with one message and one client: the name protocol, broadcasts,
  removal, and the references of the other handlers when the vector changes; and the free
  function \<open>handleClient\<close> of \<open>client_handler.cpp\<close>, an older copy of the handler that nothing
  calls.
\<close>

section \<open>Broadcasts\<close>

definition sends :: "'w os \<Rightarrow> string \<Rightarrow> ClientInfo list \<Rightarrow> 'w \<Rightarrow> 'w" where
  "sends os message cs w = fold (\<lambda>c w. snd (os_send os (ci_socket c) message w)) cs w"

text \<open>Everything of the server but the terminal output.\<close>

definition same_server :: "server \<Rightarrow> server \<Rightarrow> bool" where
  "same_server s s' \<longleftrightarrow> s' = s\<lparr>srv_out := srv_out s'\<rparr>"

lemma same_server_refl [simp]: "same_server s s"
  by (simp add: same_server_def)

lemma same_server_cout [simp]: "same_server s (cout l s') = same_server s s'"
  by (cases s; cases s') (simp add: same_server_def cout_def)

lemma same_serverD:
  "same_server s s' \<Longrightarrow> m_clients s' = m_clients s \<and> vec_buffer s' = vec_buffer s
     \<and> vec_capacity s' = vec_capacity s \<and> handlers s' = handlers s \<and> m_srv_running s' = m_srv_running s
     \<and> m_listenSocket s' = m_listenSocket s \<and> m_port s' = m_port s \<and> deref r s' = deref r s"
  by (cases s; cases s') (simp add: same_server_def deref_def)

lemma send_to_eq:
  "fst (send_to os message c e) = snd (os_send os (ci_socket c) message (fst e))
   \<and> same_server s (snd (send_to os message c e)) = same_server s (snd e)"
  by (simp add: send_to_def split: prod.split)

lemma broadcast_fold:
  "fst (fold (\<lambda>c e. if exclude = Some (ci_socket c) then e else send_to os message c e) cs e)
     = sends os message (filter (\<lambda>c. exclude \<noteq> Some (ci_socket c)) cs) (fst e)
   \<and> same_server s (snd (fold (\<lambda>c e. if exclude = Some (ci_socket c) then e else send_to os message c e) cs e))
     = same_server s (snd e)"
  by (induction cs arbitrary: e) (simp_all add: sends_def send_to_eq)

text \<open>
  C4: A broadcast sends the text once to every connected client but the excluded one, in the
  order they connected, each byte as it is and without a terminator, and changes nothing of
  the server but its terminal output; a client whose send fails does not stop the others.
\<close>

theorem broadcast_reaches_every_other_client:
  "fst (broadcast_all os message exclude (w, s))
     = sends os message (filter (\<lambda>c. exclude \<noteq> Some (ci_socket c)) (m_clients s)) w
   \<and> same_server s (snd (broadcast_all os message exclude (w, s)))"
  using broadcast_fold [of exclude os message "m_clients s" "(w, s)" s]
  by (simp add: broadcast_all_def)

section \<open>The name protocol\<close>

lemma find_colon_prefix: "CHR '':'' \<notin> set p \<Longrightarrow> find_colon (p @ CHR '':'' # r) = Some (length p)"
  by (simp add: find_colon_def takeWhile_neq_append Let_def)

lemma find_colon_None: "find_colon m = None \<longleftrightarrow> CHR '':'' \<notin> set m"
  by (auto simp: find_colon_def length_takeWhile_less_iff Let_def)

lemma deref_update:
  "deref r s = Inr c \<Longrightarrow> deref r (s\<lparr>m_clients := (m_clients s)[snd r := c']\<rparr>) = Inr c'"
  by (auto simp: deref_def split: if_splits)

text \<open>
  C5: A client announces its name with \<open>PLAYERNAME:\<close> and any text, colons included: the
  server stores exactly the text behind the first colon as that client's name, leaves every
  other client alone, and tells all clients with another socket \<open>Player <name> has joined
  the game.\<close>
\<close>

theorem playername_sets_name_and_tells_others:
  assumes "deref r s = Inr c"
  shows "\<exists>s'. handleClientMessage os r (''PLAYERNAME:'' @ name) (w, s) = Inr
      (sends os (''Player '' @ name @ '' has joined the game.'')
         (filter (\<lambda>d. ci_socket d \<noteq> ci_socket c) ((m_clients s)[snd r := c\<lparr>ci_name := name\<rparr>])) w, s')
    \<and> m_clients s' = (m_clients s)[snd r := c\<lparr>ci_name := name\<rparr>] \<and> deref r s' = Inr (c\<lparr>ci_name := name\<rparr>)"
proof -
  let ?s = "s\<lparr>m_clients := (m_clients s)[snd r := c\<lparr>ci_name := name\<rparr>]\<rparr>"
  let ?t = "cout (''Updated player name for client '' @ addr_color c @ '' to: ''
              @ ANSI_COLOR_USERNAME @ name @ ANSI_COLOR_RESET) ?s"
  let ?m = "''Player '' @ name @ '' has joined the game.''"
  have r: "deref r ?t = Inr (c\<lparr>ci_name := name\<rparr>)" using assms by (simp add: deref_update)
  have ne: "m_clients ?t \<noteq> []" using assms by (auto simp: deref_def split: if_splits)
  obtain w' s' where b: "broadcast_all os ?m (Some (ci_socket c)) (w, ?t) = (w', s')" by fastforce
  have "find_colon (''PLAYERNAME'' @ CHR '':'' # name) = Some 10" by (subst find_colon_prefix) simp_all
  then have "handleClientMessage os r (''PLAYERNAME:'' @ name) (w, s) = Inr (w', s')"
    using assms r ne b by (simp add: handleClientMessage_def set_name_def broadcastToClients_def Let_def)
  moreover have "w' = sends os ?m (filter (\<lambda>d. Some (ci_socket c) \<noteq> Some (ci_socket d)) (m_clients ?t)) w"
      and "same_server ?t s'"
    using broadcast_reaches_every_other_client [of os ?m "Some (ci_socket c)" w ?t] b by simp_all
  ultimately show ?thesis using r same_serverD [of ?t s' r] by (auto simp: eq_commute)
qed

definition two_clients :: server where
  "two_clients = (Server_new 42069 True)
     \<lparr>m_clients := [ClientInfo_new 0 5 ''1.1.1.1'' 10, ClientInfo_new 0 6 ''2.2.2.2'' 20],
      vec_capacity := 2, vec_buffer := 2, handlers := [(1, 0), (2, 1)]\<rparr>"

lemma two_clients_simps:
  "m_clients two_clients = [ClientInfo_new 0 5 ''1.1.1.1'' 10, ClientInfo_new 0 6 ''2.2.2.2'' 20]"
  "vec_buffer two_clients = 2" "vec_capacity two_clients = 2" "handlers two_clients = [(1, 0), (2, 1)]"
  "m_srv_running two_clients" "m_listenSocket two_clients = INVALID_SOCKET"
  by (simp_all add: two_clients_def Server_new_def)

definition relay_net :: sim where
  "relay_net = sim_init\<lparr>sim_open := [6, 5, 3], sim_next := 7\<rparr>"

theorem playername_sets_name_and_tells_others_witness:
  "\<exists>s'. handleClientMessage sim_os (2, 1) ''PLAYERNAME:a:b'' (relay_net, two_clients)
     = Inr (relay_net\<lparr>sim_sent := [(5, ''Player a:b has joined the game.'')]\<rparr>, s')
   \<and> map ci_name (m_clients s') = ['''', ''a:b'']"
proof -
  have "deref (2, 1) two_clients = Inr (ClientInfo_new 0 6 ''2.2.2.2'' 20)"
    by (simp add: deref_def two_clients_def)
  from playername_sets_name_and_tells_others [OF this, of sim_os "''a:b''" relay_net]
  show ?thesis
    by (auto simp: two_clients_def ClientInfo_new_def sends_def sim_os_def relay_net_def sim_init_def)
qed

text \<open>A message without a colon changes nothing but the output.\<close>

lemma message_without_colon:
  "deref r s = Inr c \<Longrightarrow> CHR '':'' \<notin> set m \<Longrightarrow>
     \<exists>l. handleClientMessage os r m (w, s) = Inr (w, cout l s)"
  by (rule exI [of _ "''Received invalid message format from client '' @ addr_color c @ '': '' @ m"])
    (simp add: handleClientMessage_def find_colon_None [THEN iffD2])

section \<open>Removal, and the older handler\<close>

text \<open>
  \<open>handleClient\<close> of \<open>client_handler.cpp\<close>: one iteration of its loop, and the lines after it.
\<close>

definition free_remove :: "'w os \<Rightarrow> client_ref \<Rightarrow> 'w srv \<Rightarrow> fault + 'w srv" where
  "free_remove os r e =
     (if m_clients (snd e) = [] then Inr e
      else bindE (deref r (snd e)) (\<lambda>client.
        case find_socket (ci_socket client) (m_clients (snd e)) of
          None \<Rightarrow> Inr e
        | Some i \<Rightarrow> Inr (close_socket os (ci_socket (m_clients (snd e) ! i)) (fst e), erase_at i (snd e))))"

definition free_handleClient_step :: "'w os \<Rightarrow> client_ref \<Rightarrow> 'w srv \<Rightarrow> fault + (bool \<times> 'w srv)" where
  "free_handleClient_step os r e =
     (let finish = (\<lambda>e. bindE (free_remove os r e) (\<lambda>e. Inr (False, e))) in
      if m_srv_running (snd e) then
        bindE (deref r (snd e)) (\<lambda>client.
          case os_recv os (ci_socket client) 1023 False (fst e) of (received, w) \<Rightarrow>
            let e = (w, snd e) in
            if recv_count received > 0 then
              Inr (True, say_out (''Received from client '' @ addr_text client @ '': ''
                     @ c_str (recv_bytes received)) e)
            else if recv_count received = 0 then
              finish (say_out (''Client '' @ addr_text client @ '' disconnected.'') e)
            else if os_errno os w \<noteq> EWOULDBLOCK \<and> os_errno os w \<noteq> EAGAIN then
              finish (say_out (''recv failed for client '' @ addr_text client @ '' with error: ''
                         @ show_int (os_errno os w)) e)
            else Inr (True, e))
      else finish e)"

definition quiet :: "bool \<times> 'w srv \<Rightarrow> bool \<times> 'w srv" where
  "quiet = (\<lambda>(go, (w, s)). (go, (w, s\<lparr>srv_out := []\<rparr>)))"

lemma quiet_cout [simp]: "quiet (go, (w, cout l s)) = quiet (go, (w, s))"
  by (simp add: quiet_def cout_def)

lemma erase_at_cout [simp]: "erase_at i (cout l s) = cout l (erase_at i s)"
  by (simp add: erase_at_def cout_def)

lemma removal_quiet:
  "map_sum id quiet (bindE (removeClient os r (w, cout l s)) (\<lambda>e. Inr (False, e)))
     = map_sum id quiet (bindE (free_remove os r (w, cout l' s)) (\<lambda>e. Inr (False, e)))"
  by (cases "deref r s") (simp_all add: removeClient_def free_remove_def split: option.split)

text \<open>
  The copy of the handler in \<open>client_handler.cpp\<close> does what the class's handler does,
  apart from the text on the terminal, as long as no message with a colon arrives: same
  answer whether to go on, same system calls, same change of the client vector, and the
  same undefined behaviour.
\<close>

theorem free_handler_agrees:
  assumes "\<And>c. deref r s = Inr c \<Longrightarrow> CHR '':'' \<notin> set (recv_bytes (fst (os_recv os (ci_socket c) 1023 False w)))"
  shows "map_sum id quiet (handler_step os r (w, s)) = map_sum id quiet (free_handleClient_step os r (w, s))"
proof (cases "m_srv_running s")
  case False
  then show ?thesis
    by (cases "deref r s") (simp_all add: handler_step_def free_handleClient_step_def removeClient_def
        free_remove_def Let_def split: option.split)
next
  case True
  show ?thesis
  proof (cases "deref r s")
    case (Inl f)
    then show ?thesis by (simp add: handler_step_def free_handleClient_step_def Let_def True)
  next
    case (Inr c)
    obtain rc w1 where recv: "os_recv os (ci_socket c) 1023 False w = (rc, w1)" by fastforce
    have "CHR '':'' \<notin> set (c_str (recv_bytes rc))"
      using assms [OF Inr] recv by (auto simp: c_str_def dest: set_takeWhileD)
    from message_without_colon [OF Inr this, of os w1]
    obtain l where msg: "handleClientMessage os r (c_str (recv_bytes rc)) (w1, s) = Inr (w1, cout l s)"
      by (elim exE)
    have run: "m_srv_running s = True" using True by simp
    note defs = handler_step_def free_handleClient_step_def Let_def fst_conv snd_conv run if_True
      Inr bindE_simps recv prod.case apsnd_conv
    consider (data) "recv_count rc > 0" | (closed) "recv_count rc = 0"
      | (error) "\<not> recv_count rc > 0" "recv_count rc \<noteq> 0" "os_errno os w1 \<noteq> EWOULDBLOCK \<and> os_errno os w1 \<noteq> EAGAIN"
      | (idle) "\<not> recv_count rc > 0" "recv_count rc \<noteq> 0" "\<not> (os_errno os w1 \<noteq> EWOULDBLOCK \<and> os_errno os w1 \<noteq> EAGAIN)"
      by linarith
    then show ?thesis
    proof cases
      case data
      then show ?thesis unfolding defs msg by simp
    next
      case closed
      show ?thesis unfolding defs closed
        by (simp only: less_irrefl simp_thms if_False if_True) (rule removal_quiet)
    next
      case error
      then show ?thesis unfolding defs by (simp only: if_False if_True simp_thms) (rule removal_quiet)
    next
      case idle
      then show ?thesis unfolding defs by (simp only: if_False simp_thms)
    qed
  qed
qed

theorem free_handler_agrees_witness:
  "map_sum id quiet (handler_step sim_os (2, 1) (relay_net, two_clients))
     = map_sum id quiet (free_handleClient_step sim_os (2, 1) (relay_net, two_clients))"
  by (rule free_handler_agrees) (simp add: sim_os_def sim_recv_def relay_net_def sim_init_def split: list.split)

section \<open>What a removal does to the other references\<close>

text \<open>
  Removing a client shifts the clients of other handlers. The handlers refer to positions
  of the vector: after the client at position \<open>i\<close> is erased, the handler started for the
  client at a later position \<open>j\<close> reads and names the client that was at \<open>j + 1\<close>, or uses a
  destroyed object when \<open>j\<close> was the last.
\<close>

theorem removal_shifts_other_handlers:
  assumes "i < j" and "j < length (m_clients s)" and "b = vec_buffer s"
  shows "deref (b, j) (erase_at i s)
    = (if Suc j < length (m_clients s) then Inr (m_clients s ! Suc j) else Inl DanglingReference)"
  using assms by (auto simp: deref_def erase_at_def nth_append)

theorem removal_shifts_other_handlers_witness:
  "deref (2, 1) (erase_at 0 two_clients) = Inl DanglingReference"
  using removal_shifts_other_handlers [of 0 1 two_clients 2] by (simp add: two_clients_simps)

end
