(* ===== verification/Server_Threads.thy ===== *)
theory Server_Threads
  imports Server_Clients Descriptors
begin

text \<open>
  The server's threads together: the acceptor, the operator's console, the signal handler and
  one handler per client take turns, one loop body at a time. What holds in every reachable
  state, and the state that goes wrong.
\<close>

section \<open>The step relation\<close>

definition end_handler :: "client_ref \<Rightarrow> 'w srv \<Rightarrow> 'w srv" where
  "end_handler r = apsnd (\<lambda>s. s\<lparr>handlers := remove1 r (handlers s)\<rparr>)"

inductive server_step :: "'w os \<Rightarrow> (int \<Rightarrow> string) \<Rightarrow> 'w srv \<Rightarrow> 'w srv \<Rightarrow> bool"
  for os :: "'w os" and ft :: "int \<Rightarrow> string" where
  Accept: "m_srv_running (snd e) \<Longrightarrow> server_step os ft e (accept_step os ft now e)"
| Handle: "r \<in> set (handlers (snd e)) \<Longrightarrow> handler_step os r e = Inr (True, e') \<Longrightarrow> server_step os ft e e'"
| Leave: "r \<in> set (handlers (snd e)) \<Longrightarrow> handler_step os r e = Inr (False, e') \<Longrightarrow>
    server_step os ft e (end_handler r e')"
| User: "m_srv_running (snd e) \<Longrightarrow> server_step os ft e (user_step os ft inp alive e)"
| Signal: "server_step os ft e (apsnd (server_signalHandler signum) e)"
| Shutdown: "\<not> m_srv_running (snd e) \<Longrightarrow> server_step os ft e (run_end os e)"

inductive server_reach :: "'w os \<Rightarrow> (int \<Rightarrow> string) \<Rightarrow> 'w srv \<Rightarrow> 'w srv \<Rightarrow> bool"
  for os :: "'w os" and ft :: "int \<Rightarrow> string" and e0 :: "'w srv" where
  Start: "server_reach os ft e0 e0"
| Step: "server_reach os ft e0 e \<Longrightarrow> server_step os ft e e' \<Longrightarrow> server_reach os ft e0 e'"

inductive_cases server_stepE: "server_step os ft e e'"

section \<open>The registry invariant\<close>

text \<open>
  The registry's sockets are pairwise distinct open descriptors, the listening socket is not
  one of them, and the vector fits its allocation.
\<close>

definition registry_inv :: "('w \<Rightarrow> int set) \<Rightarrow> 'w srv \<Rightarrow> bool" where
  "registry_inv fds e \<longleftrightarrow>
     distinct (map ci_socket (m_clients (snd e)))
     \<and> set (map ci_socket (m_clients (snd e))) \<subseteq> fds (fst e)
     \<and> m_listenSocket (snd e) \<notin> set (map ci_socket (m_clients (snd e)))
     \<and> (m_listenSocket (snd e) = INVALID_SOCKET \<or> m_listenSocket (snd e) \<in> fds (fst e))
     \<and> vec_inv (snd e)"

text \<open>What a search that ends has done last: socket, option and bind.\<close>

lemma start_search_result:
  "start_search os e = Some (Inr e') \<Longrightarrow> m_clients (snd e) = [] \<Longrightarrow>
     \<exists>v fd w w1 p. os_socket os v = (fd, w) \<and> fd \<noteq> INVALID_SOCKET \<and> w1 = snd (os_setsockopt os fd w)
       \<and> fst e' = snd (os_bind os fd p w1) \<and> m_listenSocket (snd e') = fd \<and> m_clients (snd e') = []"
proof (induction os e "Inr e' :: 'a srv + 'a srv" arbitrary: e'
    rule: start_search.raw_induct [rotated 1, consumes 1, case_names step])
  case (step f os e)
  obtain fd w where so: "os_socket os (fst e) = (fd, w)" by fastforce
  obtain r w1 where opt: "os_setsockopt os fd w = (r, w1)" by fastforce
  obtain b w2 where bnd: "os_bind os fd (htons (m_port (snd e))) w1 = (b, w2)" by fastforce
  show ?case
  proof (cases "fd \<noteq> INVALID_SOCKET \<and> \<not> r < 0 \<and> b \<noteq> SOCKET_ERROR")
    case True
    then have "fst e' = w2" "m_listenSocket (snd e') = fd" "m_clients (snd e') = []"
      using step(2,3) so opt bnd by (auto simp: uint_u16_le Let_def)
    then show ?thesis using so opt bnd True by (metis snd_conv)
  next
    case False
    then show ?thesis
      using step(1,2) so opt bnd by (auto simp: uint_u16_le Let_def split: if_splits)
  qed
qed

locale server_kernel = kernel os fds for os :: "'w os" and fds +
  assumes accept_fds: "os_accept os l w = ((fd, a, p), w') \<Longrightarrow>
      (if fd = INVALID_SOCKET then fds w' = fds w else fd \<notin> fds w \<and> fds w' = insert fd (fds w))"
    and getfl_fds: "fds (snd (os_fcntl_getfl os fd w)) = fds w"
    and setfl_fds: "fds (snd (os_fcntl_setfl os fd fl w)) = fds w"
    and setsockopt_fds: "fds (snd (os_setsockopt os fd w)) = fds w"
    and bind_fds: "fds (snd (os_bind os fd port w)) = fds w"
    and listen_fds: "fds (snd (os_listen os fd w)) = fds w"
begin

lemma registry_invI:
  assumes "registry_inv fds e" "map ci_socket (m_clients (snd e')) = map ci_socket (m_clients (snd e))"
    "fds (fst e') = fds (fst e)" "m_listenSocket (snd e') = m_listenSocket (snd e)"
    "vec_capacity (snd e') = vec_capacity (snd e)"
  shows "registry_inv fds e'"
  using assms map_eq_imp_length_eq [OF assms(2)] by (simp add: registry_inv_def vec_inv_def)

lemma sends_fds: "fds (sends os m cs w) = fds w"
  by (induction cs arbitrary: w) (simp_all add: sends_def send_fds)

lemma broadcast_inv: "registry_inv fds e \<Longrightarrow> registry_inv fds (broadcast_all os m ex e)"
proof -
  assume inv: "registry_inv fds e"
  obtain w s where e: "e = (w, s)" by fastforce
  have "fds (fst (broadcast_all os m ex e)) = fds (fst e)" "same_server s (snd (broadcast_all os m ex e))"
    using broadcast_reaches_every_other_client [of os m ex w s] by (simp_all add: e sends_fds)
  then show ?thesis using same_serverD [of s "snd (broadcast_all os m ex e)"] e
    by (intro registry_invI [OF inv]) simp_all
qed

lemma setNonBlocking_fds: "fds (fst (setNonBlocking os fd e)) = fds (fst e)"
  using getfl_fds [of fd "fst e"] setfl_fds [of fd]
  by (simp add: setNonBlocking_def split: prod.split) (metis snd_conv)

lemma accept_inv: "registry_inv fds e \<Longrightarrow> registry_inv fds (accept_step os ft now e)"
proof -
  assume inv: "registry_inv fds e"
  obtain fd a p w where acc: "os_accept os (m_listenSocket (snd e)) (fst e) = ((fd, a, p), w)"
    by (metis surj_pair)
  show ?thesis
  proof (cases "fd = INVALID_SOCKET")
    case True
    then have "fds w = fds (fst e)" using accept_fds [OF acc] by simp
    then show ?thesis using True by (intro registry_invI [OF inv]) (simp_all add: accept_step_def acc)
  next
    case False
    then have fd: "fd \<notin> fds (fst e)" "fds w = insert fd (fds (fst e))" using accept_fds [OF acc] by simp_all
    obtain w' s' where nb: "setNonBlocking os fd (w, snd e) = (w', s')" by fastforce
    have s': "m_clients s' = m_clients (snd e)" "m_listenSocket s' = m_listenSocket (snd e)"
        "vec_capacity s' = vec_capacity (snd e)"
      using setNonBlocking_frame [of os fd "(w, snd e)"] nb by simp_all
    have w': "fds w' = insert fd (fds (fst e))" using setNonBlocking_fds [of fd "(w, snd e)"] nb fd by simp
    have "fd \<noteq> m_listenSocket (snd e)" using inv fd(1) False by (auto simp: registry_inv_def)
    then show ?thesis
      using inv fd(1) w' s' False vec_inv_emplace_back [of s']
      by (auto simp: accept_step_def acc nb registry_inv_def emplace_back_def ClientInfo_new_def
          vec_inv_def vec_growth_def cout_def Let_def)
  qed
qed

lemma fds_close_socket: "fds (close_socket os fd w) = fds w - {fd}"
  by (simp add: close_socket_def close_fds shutdown_fds)

lemma fds_close_all: "fds (fold (\<lambda>c. close_socket os (ci_socket c)) cs w) = fds w - ci_socket ` set cs"
  by (induction cs arbitrary: w) (auto simp: fds_close_socket)

lemma cleanup_inv: "registry_inv fds e \<Longrightarrow> registry_inv fds (cleanupSockets os e)"
  by (cases e) (simp add: registry_inv_def cleanupSockets_def vec_clear_def vec_inv_def Let_def)

lemma set_name_inv:
  "registry_inv fds (w, s) \<Longrightarrow> set_name r n s = Inr s' \<Longrightarrow> registry_inv fds (w, s')"
  by (rule registry_invI)
    (auto simp: set_name_def bindE_eq_Inr_iff deref_def map_update list_update_same_conv split: if_splits)

lemma message_inv:
  assumes inv: "registry_inv fds e" and run: "handleClientMessage os r m e = Inr e'"
  shows "registry_inv fds e'"
proof -
  obtain w s where e: "e = (w, s)" by fastforce
  obtain c where c: "deref r s = Inr c"
    using run by (auto simp: handleClientMessage_def bindE_eq_Inr_iff e)
  have out: "registry_inv fds (w, cout l t) = registry_inv fds (w, t)" for l w t
    by (simp add: registry_inv_def vec_inv_def)
  have bc: "registry_inv fds (broadcast_all os b x (w, t))" if "registry_inv fds (w, t)" for b x t
    using broadcast_inv that .
  show ?thesis
  proof (cases "find_colon m")
    case None
    then show ?thesis using run inv by (auto simp: handleClientMessage_def c e out)
  next
    case (Some k)
    show ?thesis
    proof (cases "take k m = ''PLAYERNAME''")
      case False
      then show ?thesis using run inv Some by (auto simp: handleClientMessage_def c e out Let_def)
    next
      case True
      then obtain s' l b where "set_name r (drop (k + 1) m) s = Inr s'"
          "broadcastToClients os b (Some r) (w, cout l s') = Inr e'"
        using run Some by (auto simp: handleClientMessage_def c e bindE_eq_Inr_iff Let_def)
      then have "registry_inv fds (w, cout l s')" "e' = (w, cout l s') \<or> (\<exists>x. e' = broadcast_all os b x (w, cout l s'))"
        using set_name_inv [of w s r "drop (k + 1) m" s'] inv e
        by (auto simp: broadcastToClients_def bindE_eq_Inr_iff out split: if_splits)
      then show ?thesis using bc by blast
    qed
  qed
qed

lemma remove_inv:
  assumes inv: "registry_inv fds e" and run: "removeClient os r e = Inr e'"
  shows "registry_inv fds e'"
proof (cases "e' = e")
  case False
  then obtain c i where c: "deref r (snd e) = Inr c"
      and i: "find_socket (ci_socket c) (m_clients (snd e)) = Some i"
      and e': "e' = (close_socket os (ci_socket (m_clients (snd e) ! i)) (fst e), erase_at i (snd e))"
    using run by (auto simp: removeClient_def bindE_eq_Inr_iff split: if_splits option.splits)
  let ?cs = "m_clients (snd e)"
  have "i < length ?cs" using i by (auto simp: find_socket_def Let_def split: if_splits)
  then have cs: "?cs = take i ?cs @ ?cs ! i # drop (Suc i) ?cs" by (rule id_take_nth_drop)
  let ?rest = "take i ?cs @ drop (Suc i) ?cs"
  have "map ci_socket ?cs = map ci_socket (take i ?cs) @ ci_socket (?cs ! i) # map ci_socket (drop (Suc i) ?cs)"
    by (subst cs) simp
  moreover have "distinct (map ci_socket ?cs)" using inv by (simp add: registry_inv_def)
  ultimately have dist: "distinct (map ci_socket ?rest)" "ci_socket (?cs ! i) \<notin> set (map ci_socket ?rest)"
    and sub: "set (map ci_socket ?rest) \<subseteq> set (map ci_socket ?cs)" and mem: "ci_socket (?cs ! i) \<in> set (map ci_socket ?cs)"
    by auto
  have parts: "set (map ci_socket ?cs) \<subseteq> fds (fst e)" "m_listenSocket (snd e) \<notin> set (map ci_socket ?cs)"
      "m_listenSocket (snd e) = INVALID_SOCKET \<or> m_listenSocket (snd e) \<in> fds (fst e)" "vec_inv (snd e)"
    using inv by (simp_all add: registry_inv_def)
  show ?thesis
    unfolding registry_inv_def e' erase_at_def fst_conv snd_conv fds_close_socket
  proof (intro conjI)
    have rest: "m_clients (snd e\<lparr>m_clients := ?rest\<rparr>) = ?rest" by simp
    show "vec_inv (snd e\<lparr>m_clients := ?rest\<rparr>)"
      using vec_inv_erase [OF parts(4), of i] by (simp add: erase_at_def)
    show "distinct (map ci_socket (m_clients (snd e\<lparr>m_clients := ?rest\<rparr>)))" using dist(1) by simp
    show "set (map ci_socket (m_clients (snd e\<lparr>m_clients := ?rest\<rparr>))) \<subseteq> fds (fst e) - {ci_socket (?cs ! i)}"
      unfolding rest using sub parts(1) dist(2) by blast
    show "m_listenSocket (snd e\<lparr>m_clients := ?rest\<rparr>) \<notin> set (map ci_socket (m_clients (snd e\<lparr>m_clients := ?rest\<rparr>)))"
      using sub parts(2) by auto
    show "m_listenSocket (snd e\<lparr>m_clients := ?rest\<rparr>) = INVALID_SOCKET
        \<or> m_listenSocket (snd e\<lparr>m_clients := ?rest\<rparr>) \<in> fds (fst e) - {ci_socket (?cs ! i)}"
      using parts(2,3) mem by auto
  qed
next
  case True
  then show ?thesis using inv by simp
qed

end

context server_kernel
begin

lemma cout_inv: "registry_inv fds (w, cout l s) = registry_inv fds (w, s)"
  by (simp add: registry_inv_def vec_inv_def)

lemma recv_inv: "os_recv os fd n False w = (r, w') \<Longrightarrow> registry_inv fds (w, s) \<Longrightarrow> registry_inv fds (w', s)"
  using fds_recv [of fd n False w r w'] by (simp add: registry_inv_def)

lemma handler_inv:
  assumes inv: "registry_inv fds e" and run: "handler_step os r e = Inr (go, e')"
  shows "registry_inv fds e'"
proof -
  obtain w s where e: "e = (w, s)" by fastforce
  have fin: "registry_inv fds e'" if "bindE (removeClient os r (v, t)) (\<lambda>e. Inr (False, e)) = Inr (go, e')"
      "registry_inv fds (v, t)" for v t
  proof -
    have "removeClient os r (v, t) = Inr e'"
      using that(1) by (cases "removeClient os r (v, t)") simp_all
    then show ?thesis by (rule remove_inv [OF that(2)])
  qed
  show ?thesis
  proof (cases "m_srv_running s")
    case False
    then show ?thesis using run fin inv by (auto simp: handler_step_def e Let_def)
  next
    case True
    then obtain c where c: "deref r s = Inr c"
      using run by (auto simp: handler_step_def bindE_eq_Inr_iff e Let_def)
    obtain rc w1 where rc: "os_recv os (ci_socket c) 1023 False w = (rc, w1)" by fastforce
    have inv1: "registry_inv fds (w1, s)" using recv_inv [OF rc] inv e by simp
    consider (msg) "handleClientMessage os r (c_str (recv_bytes rc)) (w1, s) = Inr e'"
      | (fin) l where "bindE (removeClient os r (w1, cout l s)) (\<lambda>e. Inr (False, e)) = Inr (go, e')"
      | (idle) "e' = (w1, s)"
      using run True unfolding handler_step_def e Let_def fst_conv snd_conv c bindE_simps rc prod.case apsnd_conv
      by (auto simp: bindE_eq_Inr_iff split: if_split_asm)
    then show ?thesis
      using message_inv [OF inv1] fin inv1 by cases (simp_all add: cout_inv)
  qed
qed

lemma user_inv: "registry_inv fds e \<Longrightarrow> registry_inv fds (user_step os ft inp alive e)"
proof -
  assume inv: "registry_inv fds e"
  obtain w s where e: "e = (w, s)" by fastforce
  have list: "registry_inv fds (w, fold cout ls t) = registry_inv fds (w, t)" for ls t
    by (induction ls arbitrary: t) (simp_all add: cout_inv)
  have run: "registry_inv fds (w, t\<lparr>m_srv_running := b\<rparr>) = registry_inv fds (w, t)" for w t b
    by (simp add: registry_inv_def vec_inv_def)
  have bc: "registry_inv fds (broadcast_all os m None (w, cout l s))" for m l
    by (rule broadcast_inv) (use inv e in \<open>simp add: cout_inv\<close>)
  have out: "registry_inv fds (apsnd (cout l) x) = registry_inv fds x" for l x
    by (cases x) (simp add: cout_inv)
  show ?thesis
    using inv bc unfolding user_step_def e Let_def apsnd_conv
    by (cases inp) (simp_all add: run cout_inv list out)
qed

lemma step_inv: "server_step os ft e e' \<Longrightarrow> registry_inv fds e \<Longrightarrow> registry_inv fds e'"
proof (induction rule: server_step.induct)
  case (Leave r e e')
  then have "registry_inv fds e'" using handler_inv by blast
  then show ?case by (cases e') (simp add: end_handler_def registry_inv_def vec_inv_def)
next
  case (Signal e signum)
  then show ?case by (cases e) (simp add: server_signalHandler_def registry_inv_def vec_inv_def)
next
  case (Shutdown e)
  have "registry_inv fds (cleanupSockets os (say_out ''Shutting down server...'' e))"
    by (rule cleanup_inv) (use Shutdown in \<open>cases e; simp add: cout_inv\<close>)
  then show ?case
    by (cases "cleanupSockets os (say_out ''Shutting down server...'' e)")
      (simp add: run_end_def registry_inv_def vec_inv_def)
qed (simp_all add: accept_inv handler_inv user_inv)

lemma reach_inv: "server_reach os ft e0 e \<Longrightarrow> registry_inv fds e0 \<Longrightarrow> registry_inv fds e"
  by (induction rule: server_reach.induct) (simp_all add: step_inv)

lemma start_inv:
  assumes run: "Server_start os e = Some (True, e')" and empty: "m_clients (snd e) = []"
  shows "registry_inv fds e'"
proof -
  obtain e1 where e1: "start_search os e = Some (Inr e1)"
    using run by (auto simp: Server_start_def split: option.splits sum.splits)
  from start_search_result [OF this empty]
  obtain v fd w w1 p where so: "os_socket os v = (fd, w)" "fd \<noteq> INVALID_SOCKET"
    and opt: "w1 = snd (os_setsockopt os fd w)" and bnd: "fst e1 = snd (os_bind os fd p w1)"
    and ls: "m_listenSocket (snd e1) = fd" "m_clients (snd e1) = []"
    by (elim exE conjE)
  have mem: "fd \<in> fds (fst e1)"
    using socket_fds [OF so(1)] so(2) by (simp add: opt bnd setsockopt_fds bind_fds)
  obtain r w2 where l: "os_listen os fd (fst e1) = (r, w2)" by fastforce
  have w2: "fds w2 = fds (fst e1)" using listen_fds [of fd "fst e1"] l by simp
  obtain w3 s3 where nb: "setNonBlocking os fd (w2, snd e1) = (w3, s3)" by fastforce
  have frame: "fds w3 = fds (fst e1)" "m_listenSocket s3 = fd" "m_clients s3 = []"
    using setNonBlocking_fds [of fd "(w2, snd e1)"] setNonBlocking_frame [of os fd "(w2, snd e1)"] nb ls w2
    by simp_all
  have "r \<noteq> SOCKET_ERROR" using run e1 l ls by (cases e1) (auto simp: Server_start_def)
  then have "fst e' = w3" "m_clients (snd e') = []" "m_listenSocket (snd e') = fd"
    using run e1 l ls nb frame by (cases e1; auto simp: Server_start_def Let_def)+
  then show ?thesis using mem frame by (simp add: registry_inv_def vec_inv_def)
qed

end

section \<open>The simulated kernel, and the properties\<close>

lemma sim_fds_accept:
  "os_accept sim_os l w = ((fd, a, p), w') \<Longrightarrow>
     (if fd = INVALID_SOCKET then sim_fds w' = sim_fds w else fd \<notin> sim_fds w \<and> sim_fds w' = insert fd (sim_fds w))"
  by (auto simp: sim_os_def sim_fds_def INVALID_SOCKET_def split: list.splits)

interpretation sim_srv: server_kernel sim_os sim_fds
proof
  fix l w fd a p w'
  show "os_accept sim_os l w = ((fd, a, p), w') \<Longrightarrow>
     if fd = INVALID_SOCKET then sim_fds w' = sim_fds w else fd \<notin> sim_fds w \<and> sim_fds w' = insert fd (sim_fds w)"
    by (rule sim_fds_accept)
qed (simp_all add: sim_os_def sim_fds_def)

text \<open>
  C3: The registry stays sound under every interleaving. Over every kernel that keeps a
  descriptor table, in every state the server's threads can reach in any order, the sockets
  of the registered clients are pairwise distinct open descriptors, the listening socket is
  not one of them, and the vector fits its allocation.
\<close>

theorem registry_invariant:
  assumes "server_kernel os fds" and "Server_start os (w, Server_new port True) = Some (True, e0)"
    and "server_reach os ft e0 e"
  shows "registry_inv fds e"
  by (rule server_kernel.reach_inv [OF assms(1,3) server_kernel.start_inv [OF assms(1,2)]])
    (simp add: Server_new_def)

text \<open>A server that has started on a simulated kernel with two connections waiting.\<close>

definition two_pending :: sim where
  "two_pending = sim_init\<lparr>sim_pending := [(0, 0, []), (1, 1, [])]\<rparr>"

definition listening_sim :: sim where
  "listening_sim = two_pending\<lparr>sim_next := 4, sim_open := [3]\<rparr>"

lemma sim_started:
  "\<exists>s. Server_start sim_os (two_pending, Server_new 42069 True) = Some (True, (listening_sim, s))
     \<and> s = (Server_new 42069 True)\<lparr>m_listenSocket := 3, srv_out := srv_out s\<rparr>"
  by (subst Server_start_def, subst start_search.simps)
    (simp add: sim_os_def two_pending_def listening_sim_def sim_init_def Server_new_def MAX_PORT_def
      INVALID_SOCKET_def SOCKET_ERROR_def setNonBlocking_def cout_def Let_def)

theorem registry_invariant_witness:
  "\<exists>s. registry_inv sim_fds (accept_step sim_os (\<lambda>_. '''') 0 (listening_sim, s)) \<and> m_srv_running s"
proof -
  obtain s where s: "Server_start sim_os (two_pending, Server_new 42069 True) = Some (True, (listening_sim, s))"
      "s = (Server_new 42069 True)\<lparr>m_listenSocket := 3, srv_out := srv_out s\<rparr>"
    using sim_started by (elim exE conjE)
  have run: "m_srv_running s" by (subst s(2)) (simp add: Server_new_def)
  then have "server_reach sim_os (\<lambda>_. '''') (listening_sim, s) (accept_step sim_os (\<lambda>_. '''') 0 (listening_sim, s))"
    by (intro server_reach.Step [OF server_reach.Start] server_step.Accept) simp
  from registry_invariant [OF sim_srv.server_kernel_axioms s(1) this] run show ?thesis by blast
qed

end
