(* ===== verification/Server_Races.thy ===== *)
theory Server_Races
  imports Server_Threads
begin

text \<open>
  What the references of the handler threads mean in the reachable states: a vector that
  grows invalidates all of them, and after a shutdown every handler ends without touching
  the vector.
\<close>

section \<open>Which fields the steps leave alone\<close>

text \<open>The vector's allocation and the list of running handlers.\<close>

definition refs_of :: "server \<Rightarrow> nat \<times> nat \<times> client_ref list" where
  "refs_of s = (vec_buffer s, vec_capacity s, handlers s)"

lemma refs_of_cout [frame_simps]: "refs_of (cout l s) = refs_of s"
  by (simp add: refs_of_def)

lemma refs_of_broadcast [frame_simps]: "refs_of (snd (broadcast_all os m ex e)) = refs_of (snd e)"
proof -
  have "same_server (snd e) (snd (broadcast_all os m ex e))"
    using broadcast_fold [of ex os m "m_clients (snd e)" e "snd e"] by (simp add: broadcast_all_def)
  from same_serverD [OF this] show ?thesis by (simp add: refs_of_def)
qed

lemma refs_of_cleanup [frame_simps]: "refs_of (snd (cleanupSockets os e)) = refs_of (snd e)"
  by (cases e) (simp add: cleanupSockets_def vec_clear_def refs_of_def Let_def)

lemma refs_of_message: "handleClientMessage os r m e = Inr e' \<Longrightarrow> refs_of (snd e') = refs_of (snd e)"
proof -
  assume run: "handleClientMessage os r m e = Inr e'"
  obtain w s where e: "e = (w, s)" by fastforce
  obtain c where c: "deref r s = Inr c"
    using run by (auto simp: handleClientMessage_def bindE_eq_Inr_iff e)
  have name: "set_name r n s = Inr s' \<Longrightarrow> refs_of s' = refs_of s" for n s'
    by (auto simp: set_name_def bindE_eq_Inr_iff refs_of_def)
  have bc: "broadcastToClients os b (Some r) (v, t) = Inr e' \<Longrightarrow> refs_of (snd e') = refs_of t" for b v t
    by (auto simp: broadcastToClients_def bindE_eq_Inr_iff frame_simps split: if_splits)
  show ?thesis
  proof (cases "\<exists>k. find_colon m = Some k \<and> take k m = ''PLAYERNAME''")
    case True
    then obtain s' l b n where "set_name r n s = Inr s'" "broadcastToClients os b (Some r) (w, cout l s') = Inr e'"
      using run by (auto simp: handleClientMessage_def c e bindE_eq_Inr_iff Let_def)
    then show ?thesis using name [of n s'] bc [of b w "cout l s'"] e by (simp add: frame_simps)
  next
    case False
    then show ?thesis
      using run by (auto simp: handleClientMessage_def c e Let_def frame_simps split: option.splits)
  qed
qed

lemma refs_of_remove: "removeClient os r e = Inr e' \<Longrightarrow> refs_of (snd e') = refs_of (snd e)"
  by (auto simp: removeClient_def bindE_eq_Inr_iff erase_at_def refs_of_def split: if_splits option.splits)

lemma refs_of_handler:
  assumes "handler_step os r e = Inr (go, e')"
  shows "refs_of (snd e') = refs_of (snd e)"
proof -
  obtain w s where e: "e = (w, s)" by fastforce
  have fin: "refs_of (snd e') = refs_of t"
    if "bindE (removeClient os r (v, t)) (\<lambda>e. Inr (False, e)) = Inr (go, e')" for v t
  proof -
    have "removeClient os r (v, t) = Inr e'"
      using that by (cases "removeClient os r (v, t)") simp_all
    then show ?thesis using refs_of_remove by fastforce
  qed
  show ?thesis
  proof (cases "m_srv_running s")
    case False
    then show ?thesis using assms fin by (auto simp: handler_step_def e Let_def)
  next
    case True
    then obtain c where c: "deref r s = Inr c"
      using assms by (auto simp: handler_step_def bindE_eq_Inr_iff e Let_def)
    obtain rc w1 where rc: "os_recv os (ci_socket c) 1023 False w = (rc, w1)" by fastforce
    consider (msg) m where "handleClientMessage os r m (w1, s) = Inr e'"
      | (fin) l where "bindE (removeClient os r (w1, cout l s)) (\<lambda>e. Inr (False, e)) = Inr (go, e')"
      | (idle) "e' = (w1, s)"
      using assms True unfolding handler_step_def e Let_def fst_conv snd_conv c bindE_simps rc prod.case apsnd_conv
      by (auto simp: bindE_eq_Inr_iff split: if_split_asm)
    then show ?thesis
      using refs_of_message [of os r _ "(w1, s)" e'] fin e by cases (auto simp: frame_simps)
  qed
qed

lemma refs_of_user [frame_simps]: "refs_of (snd (user_step os ft inp alive e)) = refs_of (snd e)"
proof -
  have out: "refs_of (fold cout ls t) = refs_of t" for ls t
    by (induction ls arbitrary: t) (simp_all add: frame_simps)
  have run: "refs_of (t\<lparr>m_srv_running := b\<rparr>) = refs_of t" for b t by (simp add: refs_of_def)
  show ?thesis
    unfolding user_step_def Let_def
    by (cases e; cases inp) (simp_all add: frame_simps out run)
qed

section \<open>The references of the running handlers\<close>

definition refs_inv :: "server \<Rightarrow> bool" where
  "refs_inv s \<longleftrightarrow> (\<forall>r \<in> set (handlers s). fst r \<le> vec_buffer s)"

lemma refs_inv_cong: "refs_of s' = refs_of s \<Longrightarrow> refs_inv s' = refs_inv s"
  by (simp add: refs_of_def refs_inv_def)

text \<open>An accept that gets a socket appends to the vector, and one that does not changes nothing.\<close>

lemma accept_step_cases:
  "(let s = snd e; s' = snd (accept_step os ft now e) in
     if fst (fst (os_accept os (m_listenSocket s) (fst e))) = INVALID_SOCKET
     then refs_of s' = refs_of s \<and> m_clients s' = m_clients s
     else vec_buffer s' = (if length (m_clients s) = vec_capacity s then Suc (vec_buffer s) else vec_buffer s)
       \<and> (\<exists>c. m_clients s' = m_clients s @ [c]) \<and> m_srv_running s' = m_srv_running s
       \<and> handlers s' = handlers s @ [(vec_buffer s', length (m_clients s))])"
proof -
  obtain fd a p w where acc: "os_accept os (m_listenSocket (snd e)) (fst e) = ((fd, a, p), w)"
    by (metis surj_pair)
  obtain w' s' where nb: "setNonBlocking os fd (w, snd e) = (w', s')" by fastforce
  then show ?thesis
    using setNonBlocking_frame [of os fd "(w, snd e)"]
    by (simp add: accept_step_def acc emplace_back_def back_ref_def refs_of_def Let_def cout_def)
qed

lemma refs_inv_accept: "refs_inv (snd e) \<Longrightarrow> refs_inv (snd (accept_step os ft now e))"
  using accept_step_cases [of e os ft now]
  by (fastforce simp: refs_inv_def refs_of_def Let_def split: if_splits)

lemma refs_inv_step: "server_step os ft e e' \<Longrightarrow> refs_inv (snd e) \<Longrightarrow> refs_inv (snd e')"
proof (induction rule: server_step.induct)
  case (Accept e now)
  then show ?case by (simp add: refs_inv_accept)
next
  case (Handle r e e')
  then show ?case using refs_inv_cong refs_of_handler by blast
next
  case (Leave r e e')
  then have "refs_inv (snd e')" using refs_inv_cong refs_of_handler by blast
  then show ?case using set_remove1_subset [of r "handlers (snd e')"]
    by (cases e') (auto simp: end_handler_def refs_inv_def)
next
  case (User e inp alive)
  then show ?case using refs_inv_cong [OF refs_of_user] by blast
next
  case (Signal e signum)
  then show ?case by (cases e) (simp add: server_signalHandler_def refs_inv_def cout_def)
next
  case (Shutdown e)
  then show ?case
    using refs_inv_cong [OF refs_of_cleanup, of os "say_out ''Shutting down server...'' e"]
    by (cases e; cases "cleanupSockets os (say_out ''Shutting down server...'' e)")
      (simp add: run_end_def refs_inv_def cout_def)
qed

lemma refs_inv_reach: "server_reach os ft e0 e \<Longrightarrow> refs_inv (snd e0) \<Longrightarrow> refs_inv (snd e)"
  by (induction rule: server_reach.induct) (simp_all add: refs_inv_step)



section \<open>Shutdown\<close>

text \<open>
  After the shutdown every handler ends by itself, whatever its reference has become: the
  vector is empty, so \<open>removeClient\<close> returns before it looks at the client; nothing is closed
  a second time and no system call is made.
\<close>

theorem handlers_end_after_shutdown:
  assumes "\<not> m_srv_running (snd e)"
  shows "handler_step os r (run_end os e) = Inr (False, run_end os e)"
proof -
  obtain w s where e: "cleanupSockets os (say_out ''Shutting down server...'' e) = (w, s)" by fastforce
  have "m_srv_running (snd (cleanupSockets os (say_out ''Shutting down server...'' e))) = m_srv_running (snd e)"
    by (cases e) (simp add: cleanupSockets_def vec_clear_def cout_def Let_def)
  then have "\<not> m_srv_running s" "m_clients s = []"
    using assms cleanupSockets_port(3) [of os "say_out ''Shutting down server...'' e"] e by simp_all
  then show ?thesis by (simp add: handler_step_def run_end_def removeClient_def e)
qed

theorem handlers_end_after_shutdown_witness:
  "handler_step sim_os (1, 0) (run_end sim_os (relay_net, two_clients\<lparr>m_srv_running := False\<rparr>))
     = Inr (False, run_end sim_os (relay_net, two_clients\<lparr>m_srv_running := False\<rparr>))"
  by (rule handlers_end_after_shutdown) simp

end
