(* ===== verification/Fmt_Digits.thy ===== *)
theory Fmt_Digits
  imports Number_Text
begin

text \<open>
  Decimal output in the bundled fmt (\<open>spdlog/fmt/bundled/format.h\<close>): the three ways of
  counting decimal digits (division by 10000, a table over the bit length, and Willets' 32-bit
  table), the two-digits-at-a-time writer \<open>format_decimal\<close>, and \<open>format_int\<close>. Each is shown
  to agree with the schoolbook \<open>show_nat\<close>; the writers work on a buffer, and a write outside of
  it is the fault \<open>HeapOverflow\<close>.
\<close>

section \<open>The reference\<close>

definition ndigits :: "nat \<Rightarrow> nat" where
  "ndigits n = length (show_nat n)"

lemma ndigits_small [simp]: "n < 10 \<Longrightarrow> ndigits n = 1"
  by (simp add: ndigits_def show_nat.simps)

lemma ndigits_step: "10 \<le> n \<Longrightarrow> ndigits n = Suc (ndigits (n div 10))"
  unfolding ndigits_def by (subst show_nat.simps) simp

lemma ndigits_pos [simp]: "0 < ndigits n"
  by (cases "n < 10") (simp_all add: ndigits_step)

lemma ndigits_eqI: "n < 10 ^ d \<Longrightarrow> d \<noteq> 0 \<Longrightarrow> d = 1 \<or> 10 ^ (d - 1) \<le> n \<Longrightarrow> ndigits n = d"
proof (induction d arbitrary: n)
  case (Suc d)
  show ?case
  proof (cases "d = 0")
    case True
    then show ?thesis using Suc.prems by simp
  next
    case False
    then have low: "10 ^ d \<le> n" using Suc.prems by simp
    have ten: "(10 :: nat) * 10 ^ (d - 1) = 10 ^ d" using False by (cases d) simp_all
    have "10 ^ (d - 1) \<le> n div 10" using low ten by (simp add: less_eq_div_iff_mult_less_eq mult.commute)
    moreover have "n div 10 < 10 ^ d" using Suc.prems(1) by (simp add: div_less_iff_less_mult mult.commute)
    ultimately have "ndigits (n div 10) = d" using Suc.IH [of "n div 10"] False by simp
    moreover have "10 \<le> n"
    proof -
      have "(10 :: nat) ^ 1 \<le> 10 ^ d" using False by (intro power_increasing) simp_all
      then show ?thesis using low by simp
    qed
    ultimately show ?thesis by (simp add: ndigits_step)
  qed
qed simp

section \<open>Counting by division\<close>

function count_digits_fallback :: "nat \<Rightarrow> nat \<Rightarrow> nat" where
  "count_digits_fallback n count =
     (if n < 10 then count
      else if n < 100 then count + 1
      else if n < 1000 then count + 2
      else if n < 10000 then count + 3
      else count_digits_fallback (n div 10000) (count + 4))"
  by pat_completeness auto
termination
  by (relation "measure fst") auto

declare count_digits_fallback.simps [simp del]

lemma ndigits_10000: "10000 \<le> n \<Longrightarrow> ndigits n = ndigits (n div 10000) + 4"
proof -
  assume n: "10000 \<le> n"
  have "n div 10000 = n div 10 div 10 div 10 div 10" by (simp add: div_mult2_eq [symmetric])
  then show ?thesis
    using n ndigits_step [of n] ndigits_step [of "n div 10"] ndigits_step [of "n div 10 div 10"]
      ndigits_step [of "n div 10 div 10 div 10"]
    by (simp add: div_mult2_eq [symmetric])
qed

lemma count_digits_fallback_eq: "count_digits_fallback n (Suc count) = ndigits n + count"
proof (induction n "Suc count" arbitrary: count rule: count_digits_fallback.induct)
  case (1 n)
  consider "n < 10" | "10 \<le> n" "n < 100" | "100 \<le> n" "n < 1000" | "1000 \<le> n" "n < 10000" | "10000 \<le> n"
    by linarith
  then show ?case
  proof cases
    case 1
    then show ?thesis by (simp add: count_digits_fallback.simps)
  next
    case 2
    then have "ndigits n = 2" by (intro ndigits_eqI) simp_all
    with 2 show ?thesis by (simp add: count_digits_fallback.simps)
  next
    case 3
    then have "ndigits n = 3" by (intro ndigits_eqI) simp_all
    with 3 show ?thesis by (simp add: count_digits_fallback.simps)
  next
    case 4
    then have "ndigits n = 4" by (intro ndigits_eqI) simp_all
    with 4 show ?thesis by (simp add: count_digits_fallback.simps)
  next
    case 5
    then show ?thesis using 1 [of "count + 4"]
      by (subst count_digits_fallback.simps) (simp add: ndigits_10000)
  qed
qed

section \<open>Counting by tables\<close>

text \<open>
  \<open>bsr\<close> is the position of the highest set bit, \<open>clz w n\<close> what \<open>__builtin_clz\<close> answers for a
  number of \<open>w\<close> bits that is not 0.
\<close>

fun bsr :: "nat \<Rightarrow> nat" where
  "bsr n = (if n < 2 then 0 else Suc (bsr (n div 2)))"

declare bsr.simps [simp del]

definition clz :: "nat \<Rightarrow> nat \<Rightarrow> nat" where
  "clz w n = w - 1 - bsr n"

lemma bsr_bounds: "0 < n \<Longrightarrow> 2 ^ bsr n \<le> n \<and> n < 2 ^ (bsr n + 1)"
proof (induction n rule: bsr.induct)
  case (1 n)
  show ?case
  proof (cases "n < 2")
    case True
    then show ?thesis using 1(2) by (simp add: bsr.simps)
  next
    case False
    then have "2 ^ bsr (n div 2) \<le> n div 2 \<and> n div 2 < 2 ^ (bsr (n div 2) + 1)" using 1(1) by simp
    moreover have "bsr n = Suc (bsr (n div 2))" using False by (simp add: bsr.simps)
    ultimately show ?thesis by simp linarith
  qed
qed

lemma bsr_less: "0 < n \<Longrightarrow> n < 2 ^ w \<Longrightarrow> bsr n < w"
proof -
  assume "0 < n" "n < 2 ^ w"
  then have "(2 :: nat) ^ bsr n < 2 ^ w" using bsr_bounds [of n] by linarith
  then show ?thesis by simp
qed

lemma clz_xor_63: "0 < n \<Longrightarrow> n < 2 ^ 64 \<Longrightarrow> clz 64 n XOR 63 = bsr n"
proof -
  assume "0 < n" "n < 2 ^ 64"
  then have "bsr n < 64" by (rule bsr_less)
  moreover have "\<forall>k \<in> set [0..<64]. (63 - k) XOR 63 = (k :: nat)" by code_simp
  ultimately show ?thesis by (simp add: clz_def)
qed

lemma clz_xor_31: "0 < n \<Longrightarrow> n < 2 ^ 32 \<Longrightarrow> clz 32 n XOR 31 = bsr n"
proof -
  assume "0 < n" "n < 2 ^ 32"
  then have "bsr n < 32" by (rule bsr_less)
  moreover have "\<forall>k \<in> set [0..<32]. (31 - k) XOR 31 = (k :: nat)" by code_simp
  ultimately show ?thesis by (simp add: clz_def)
qed

lemma or_one_pos: "0 < n OR (1 :: nat)"
  using or_one_eq [of n] by (cases "even n") (auto dest: odd_pos)

text \<open>The range of \<open>n\<close> that the highest bit of \<open>n | 1\<close> gives.\<close>

lemma bsr_or_one:
  fixes n :: nat
  shows "n < 2 ^ (bsr (n OR 1) + 1) \<and> (bsr (n OR 1) = 0 \<or> 2 ^ bsr (n OR 1) \<le> n)"
proof -
  have m: "n OR 1 = n + of_bool (even n)" by (rule or_one_eq)
  have b: "2 ^ bsr (n OR 1) \<le> n OR 1" "n OR 1 < 2 ^ (bsr (n OR 1) + 1)"
    using bsr_bounds [OF or_one_pos] by blast+
  have "2 ^ bsr (n OR 1) \<le> n" if "bsr (n OR 1) \<noteq> 0"
  proof (cases "even n")
    case True
    have "even ((2 :: nat) ^ bsr (n OR 1))" using that by simp
    moreover have "odd (n + 1)" using True by simp
    ultimately have "(2 :: nat) ^ bsr (n OR 1) \<noteq> n + 1" by metis
    then show ?thesis using b(1) m True by simp
  qed (use b(1) m in simp)
  then show ?thesis using b(2) m by (cases "even n") auto
qed

definition bsr2log10 :: "nat list" where
  "bsr2log10 =
     [1,  1,  1,  2,  2,  2,  3,  3,  3,  4,  4,  4,  4,  5,  5,  5,
      6,  6,  6,  7,  7,  7,  7,  8,  8,  8,  9,  9,  9,  10, 10, 10,
      10, 11, 11, 11, 12, 12, 12, 13, 13, 13, 13, 14, 14, 14, 15, 15,
      15, 16, 16, 16, 16, 17, 17, 17, 18, 18, 18, 19, 19, 19, 19, 20]"

definition powers_of_10 :: "nat \<Rightarrow> nat list" where
  "powers_of_10 factor =
     [factor * 10, factor * 100, factor * 1000, factor * 10000, factor * 100000, factor * 1000000,
      factor * 10000000, factor * 100000000, factor * 1000000000]"

definition zero_or_powers_of_10 :: "nat list" where
  "zero_or_powers_of_10 = [0, 0] @ powers_of_10 1 @ powers_of_10 1000000000 @ [10000000000000000000]"

definition do_count_digits_64 :: "u64 \<Rightarrow> nat" where
  "do_count_digits_64 n =
     (let t = bsr2log10 ! (clz 64 (unat (n OR 1)) XOR 63)
      in t - of_bool (unat n < zero_or_powers_of_10 ! t))"

definition table_row :: "nat \<Rightarrow> nat \<Rightarrow> nat \<Rightarrow> bool" where
  "table_row k t p \<longleftrightarrow>
     (t = 1 \<or> 2 \<le> t \<and> 10 ^ (t - 2) \<le> (2 :: nat) ^ k) \<and> (2 :: nat) ^ (k + 1) \<le> 10 ^ t
     \<and> p = (if t = 1 then 0 else 10 ^ (t - 1)) \<and> (k = 0 \<longrightarrow> t = 1)"

lemma bsr2log10_rows:
  "list_all (\<lambda>(k, t). table_row k t (zero_or_powers_of_10 ! t)) (zip [0..<64] bsr2log10)"
  by (simp add: table_row_def bsr2log10_def zero_or_powers_of_10_def powers_of_10_def upt_rec)

lemma bsr2log10_row: "k < 64 \<Longrightarrow> table_row k (bsr2log10 ! k) (zero_or_powers_of_10 ! (bsr2log10 ! k))"
proof -
  assume "k < 64"
  moreover have "length bsr2log10 = 64" by (simp add: bsr2log10_def)
  ultimately have "zip [0..<64] bsr2log10 ! k = (k, bsr2log10 ! k)" "k < length (zip [0..<64] bsr2log10)"
    by simp_all
  then show ?thesis using bsr2log10_rows by (metis (mono_tags, lifting) case_prod_conv list_all_length)
qed

text \<open>The argument both tables rest on.\<close>

lemma digits_from_bits:
  assumes "n < 2 ^ (k + 1)" "k = 0 \<or> 2 ^ k \<le> n" "table_row k t p"
  shows "ndigits n = t - of_bool (n < p)"
proof (cases "t = 1")
  case True
  then have "n < 10" "p = 0" using assms(1,3) by (simp_all add: table_row_def)
  then show ?thesis using True by simp
next
  case False
  then have t: "2 \<le> t" "10 ^ (t - 2) \<le> n" "n < 10 ^ t" "p = 10 ^ (t - 1)"
    using assms by (auto simp: table_row_def)
  then show ?thesis
    using ndigits_eqI [of n t] ndigits_eqI [of n "t - 1"] by (cases "n < p") (auto simp: diff_diff_eq numeral_2_eq_2)
qed

lemma do_count_digits_64_eq: "do_count_digits_64 n = ndigits (unat n)"
proof -
  let ?m = "unat n OR 1"
  have or: "unat (n OR 1) = ?m" by (simp add: unsigned_or_eq)
  have "unat (n OR 1) < 2 ^ LENGTH(64)" by (rule unsigned_less)
  then have small: "?m < 2 ^ 64" unfolding or by simp
  note pos = or_one_pos [of "unat n"]
  define k where "k = bsr ?m"
  have k: "k < 64" using bsr_less [OF pos small] by (simp add: k_def)

  have "clz 64 (unat (n OR 1)) XOR 63 = k" using clz_xor_63 [OF pos small] or by (simp add: k_def)
  then have "do_count_digits_64 n = bsr2log10 ! k - of_bool (unat n < zero_or_powers_of_10 ! (bsr2log10 ! k))"
    by (simp add: do_count_digits_64_def Let_def)
  also have "\<dots> = ndigits (unat n)"
    using digits_from_bits [OF _ _ bsr2log10_row [OF k], of "unat n"]
      bsr_or_one [of "unat n"] unfolding k_def [symmetric] by simp
  finally show ?thesis .
qed

text \<open>
  The 32-bit table: the upper half of \<open>n + inc\<close> is the digit count, because adding \<open>T\<close>'s
  complement carries into it exactly from \<open>T\<close> on. \<open>sizeof(#T) - 1\<close> is the length of the
  numeral \<open>T\<close>.
\<close>

definition fmt_inc :: "nat \<Rightarrow> u64" where
  "fmt_inc T = push_bit 32 (of_nat (ndigits T)) - of_nat T"

definition willets_thresholds :: "nat list" where
  "willets_thresholds =
     [0, 0, 0, 10, 10, 10, 100, 100, 100, 1000, 1000, 1000, 10000, 10000, 10000, 100000, 100000, 100000,
      1000000, 1000000, 1000000, 10000000, 10000000, 10000000, 100000000, 100000000, 100000000,
      1000000000, 1000000000, 1000000000, 1000000000, 1000000000]"

definition do_count_digits_32 :: "u32 \<Rightarrow> nat" where
  "do_count_digits_32 n =
     (let inc = fmt_inc (willets_thresholds ! (clz 32 (unat (n OR 1)) XOR 31))
      in unat (drop_bit 32 (ucast n + inc)))"

lemma willets_rows:
  "list_all (\<lambda>(k, T). table_row k (ndigits T) T \<and> ndigits T \<le> 10 \<and> T < 2 ^ 32) (zip [0..<32] willets_thresholds)"
  by (simp add: table_row_def willets_thresholds_def upt_rec ndigits_step)

lemma willets_row:
  "k < 32 \<Longrightarrow> let T = willets_thresholds ! k in table_row k (ndigits T) T \<and> ndigits T \<le> 10 \<and> T < 2 ^ 32"
proof -
  assume "k < 32"
  moreover have "length willets_thresholds = 32" by (simp add: willets_thresholds_def)
  ultimately have "zip [0..<32] willets_thresholds ! k = (k, willets_thresholds ! k)"
      "k < length (zip [0..<32] willets_thresholds)"
    by simp_all
  then show ?thesis using willets_rows unfolding Let_def by (metis (mono_tags, lifting) case_prod_conv list_all_length)
qed

lemma add_fmt_inc:
  assumes "n < 2 ^ 32" "T < 2 ^ 32" "ndigits T \<le> 10"
  shows "unat (drop_bit 32 (of_nat n + fmt_inc T)) = ndigits T - of_bool (n < T)"
proof -
  define d where "d = ndigits T"
  have d: "0 < d" "d \<le> 10" using assms(3) by (simp_all add: d_def)
  have "of_nat n + fmt_inc T = (of_nat (n + d * 2 ^ 32 - T) :: u64)"
  proof -
    have "T \<le> d * 2 ^ 32" using assms(2) d by (cases d) simp_all
    then have "(of_nat (n + d * 2 ^ 32 - T) :: u64) = of_nat n + of_nat d * of_nat (2 ^ 32) - of_nat T"
      by (simp only: of_nat_diff of_nat_add of_nat_mult trans_le_add2)
    then show ?thesis by (simp add: fmt_inc_def d_def push_bit_eq_mult mult.commute)
  qed
  moreover have "n + d * 2 ^ 32 - T < 2 ^ 64" using assms(1) d by simp
  then have "unat (of_nat (n + d * 2 ^ 32 - T) :: u64) = n + d * 2 ^ 32 - T" by (simp add: unat_of_nat)
  moreover have "(n + d * 2 ^ 32 - T) div 2 ^ 32 = d - of_bool (n < T)"
  proof (cases "n < T")
    case True
    then have "n + d * 2 ^ 32 - T = (2 ^ 32 - (T - n)) + (d - 1) * 2 ^ 32"
      using assms(2) d(1) by (cases d) simp_all
    then show ?thesis using True assms(2) d(1) by simp
  next
    case False
    then have "n + d * 2 ^ 32 - T = (n - T) + d * 2 ^ 32" by simp
    then show ?thesis using False assms(1) by simp
  qed
  ultimately show ?thesis by (simp add: drop_bit_eq_div unat_div d_def)
qed

lemma do_count_digits_32_eq: "do_count_digits_32 n = ndigits (unat n)"
proof -
  have or: "unat (n OR 1) = unat n OR 1" by (simp add: unsigned_or_eq)
  have "unat (n OR 1) < 2 ^ LENGTH(32)" by (rule unsigned_less)
  then have small: "unat n OR 1 < 2 ^ 32" unfolding or by simp
  define k where "k = bsr (unat n OR 1)"
  have k: "k < 32" using bsr_less [OF or_one_pos small] by (simp add: k_def)
  define T where "T = willets_thresholds ! k"
  have T: "table_row k (ndigits T) T" "ndigits T \<le> 10" "T < 2 ^ 32"
    using willets_row [OF k] by (simp_all add: T_def Let_def)
  have "clz 32 (unat (n OR 1)) XOR 31 = k" using clz_xor_31 [OF or_one_pos small] or by (simp add: k_def)
  then have "do_count_digits_32 n = unat (drop_bit 32 (of_nat (unat n) + fmt_inc T))"
    by (simp add: do_count_digits_32_def T_def)
  also have "\<dots> = ndigits T - of_bool (unat n < T)"
  proof (rule add_fmt_inc [OF _ T(3,2)])
    have "unat n < 2 ^ LENGTH(32)" by (rule unsigned_less)
    then show "unat n < 2 ^ 32" by simp
  qed
  also have "\<dots> = ndigits (unat n)"
    using digits_from_bits [OF _ _ T(1), of "unat n"] bsr_or_one [of "unat n"] unfolding k_def [symmetric] by simp
  finally show ?thesis .
qed

text \<open>
  C25: The three digit counters agree: the loop that divides by 10000, the 64-bit table over
  the bit length and Willets' 32-bit table with its carry trick all answer the number of
  decimal digits, for every argument of their type, 0 and the largest included.
\<close>

theorem count_digits_agree:
  "do_count_digits_64 (n :: u64) = length (show_nat (unat n))
   \<and> do_count_digits_32 (m :: u32) = length (show_nat (unat m))
   \<and> count_digits_fallback k 1 = length (show_nat k)"
  using count_digits_fallback_eq [of k 0]
  by (simp add: do_count_digits_64_eq do_count_digits_32_eq ndigits_def)

section \<open>Writing digits\<close>

definition digits2_table :: string where
  "digits2_table =
     ''0001020304050607080910111213141516171819'' @
     ''2021222324252627282930313233343536373839'' @
     ''4041424344454647484950515253545556575859'' @
     ''6061626364656667686970717273747576777879'' @
     ''8081828384858687888990919293949596979899''"

definition digits2 :: "nat \<Rightarrow> string" where
  "digits2 v = take 2 (drop (v * 2) digits2_table)"

text \<open>A store at a position of a buffer that is counted downwards; below 0 it is outside.\<close>

definition store_before :: "nat \<Rightarrow> string \<Rightarrow> string \<Rightarrow> fault + nat \<times> string" where
  "store_before out bs buf =
     (if length bs \<le> out \<and> out \<le> length buf
      then Inr (out - length bs, take (out - length bs) buf @ bs @ drop out buf)
      else Inl HeapOverflow)"

text \<open>\<open>format_decimal\<close>: \<open>out\<close> starts at the size \<open>n\<close>; the result is \<open>begin\<close> and the buffer.\<close>

function format_decimal_loop :: "nat \<Rightarrow> nat \<Rightarrow> string \<Rightarrow> fault + nat \<times> string" where
  "format_decimal_loop v out buf =
     (if v \<ge> 100 then
        bindE (store_before out (digits2 (v mod 100)) buf)
          (\<lambda>(out, buf). format_decimal_loop (v div 100) out buf)
      else if v < 10 then store_before out [char_of (48 + v)] buf
      else store_before out (digits2 v) buf)"
  by pat_completeness auto
termination
  by (relation "measure fst") auto

declare format_decimal_loop.simps [simp del]

definition format_decimal :: "string \<Rightarrow> nat \<Rightarrow> nat \<Rightarrow> fault + nat \<times> string" where
  "format_decimal buf v n = format_decimal_loop v n buf"

lemma digits2_rows: "list_all (\<lambda>v. digits2 v = [char_of (48 + v div 10), char_of (48 + v mod 10)]) [0..<100]"
  by (simp add: digits2_def digits2_table_def upt_rec)

lemma digits2_eq: "v < 100 \<Longrightarrow> digits2 v = [char_of (48 + v div 10), char_of (48 + v mod 10)]"
  using digits2_rows by (simp add: list_all_iff)

lemma show_nat_100: "100 \<le> v \<Longrightarrow> show_nat v = show_nat (v div 100) @ digits2 (v mod 100)"
proof -
  assume v: "100 \<le> v"
  have "v mod 100 div 10 = v div 10 mod 10" "v mod 100 mod 10 = v mod 10" "v div 10 div 10 = v div 100"
    by (simp_all add: div_mult2_eq [symmetric] mod_mult2_eq [of v 10 10, simplified] mod_mod_cancel)
  moreover have "\<not> v div 10 < 10" using v by simp
  ultimately show ?thesis
    using v by (subst show_nat.simps, subst show_nat.simps) (simp add: digits2_eq)
qed

lemma show_nat_small: "v < 100 \<Longrightarrow> 10 \<le> v \<Longrightarrow> show_nat v = digits2 v"
proof -
  assume v: "v < 100" "10 \<le> v"
  then have "v div 10 < 10" by simp
  then show ?thesis using v by (subst show_nat.simps, subst show_nat.simps) (simp add: digits2_eq)
qed

lemma format_decimal_loop_eq:
  "out \<le> length buf \<Longrightarrow> format_decimal_loop v out buf = store_before out (show_nat v) buf"
proof (induction v out buf rule: format_decimal_loop.induct)
  case (1 v out buf)
  have two: "length (digits2 (v mod 100)) = 2" by (simp add: digits2_eq)
  show ?case
  proof (cases "100 \<le> v")
    case False
    then show ?thesis
      using show_nat_small [of v] show_nat.simps [of v]
      by (cases "v < 10") (simp_all add: format_decimal_loop.simps [of v])
  next
    case True
    show ?thesis
    proof (cases "2 \<le> out")
      case False
      then show ?thesis using True two
        by (subst format_decimal_loop.simps) (simp add: store_before_def show_nat_100)
    next
      case enough: True
      let ?b = "take (out - 2) buf @ digits2 (v mod 100) @ drop out buf"
      have st: "store_before out (digits2 (v mod 100)) buf = Inr (out - 2, ?b)"
        using enough 1(2) two by (simp add: store_before_def)
      have "format_decimal_loop (v div 100) (out - 2) ?b = store_before (out - 2) (show_nat (v div 100)) ?b"
        using 1(1) [OF True, of "out - 2" ?b] 1(2) enough two by simp
      then have "format_decimal_loop v out buf = store_before (out - 2) (show_nat (v div 100)) ?b"
        using True st by (subst format_decimal_loop.simps) simp
      also have "\<dots> = store_before out (show_nat v) buf"
        using enough 1(2) two by (auto simp: store_before_def show_nat_100 [OF True])
      finally show ?thesis .
    qed
  qed
qed

section \<open>format_int\<close>

text \<open>
  \<open>buffer_size\<close> is \<open>digits10\<close> of \<open>unsigned long long\<close> and 3: room for 20 digits, a sign and the
  terminator. The text runs from \<open>str_\<close> to the last position but one.
\<close>

definition buffer_size :: nat where "buffer_size = 19 + 3"

definition format_unsigned :: "u64 \<Rightarrow> fault + nat \<times> string" where
  "format_unsigned v = format_decimal (replicate buffer_size (CHR 0x00)) (unat v) (buffer_size - 1)"

definition format_signed :: "u64 \<Rightarrow> fault + nat \<times> string" where
  "format_signed v =
     (let negative = sint v < 0;
          abs_value = (if negative then 0 - v else v)
      in bindE (format_unsigned abs_value) (\<lambda>(begin, buf).
           if negative then store_before begin ''-'' buf else Inr (begin, buf)))"

definition format_int_data :: "nat \<times> string \<Rightarrow> string" where
  "format_int_data r = (case r of (str, buf) \<Rightarrow> take (buffer_size - 1 - str) (drop str buf))"

lemma ndigits_le: "n < 10 ^ d \<Longrightarrow> 0 < d \<Longrightarrow> ndigits n \<le> d"
proof (induction d arbitrary: n)
  case (Suc d)
  show ?case
  proof (cases "n < 10")
    case False
    then have "n div 10 < 10 ^ d" "0 < d"
      using Suc.prems by (simp_all add: div_less_iff_less_mult mult.commute) (cases d; simp)
    then show ?thesis using Suc.IH [of "n div 10"] False by (simp add: ndigits_step)
  qed simp
qed simp

lemma ndigits_u64: "ndigits (unat (v :: u64)) \<le> 20"
proof (rule ndigits_le)
  have "unat v < 2 ^ LENGTH(64)" by (rule unsigned_less)
  then show "unat v < 10 ^ 20" by simp
qed simp

lemma format_unsigned_eq:
  "format_unsigned v = store_before 21 (show_nat (unat v)) (replicate 22 (CHR 0x00))"
  by (simp add: format_unsigned_def format_decimal_def buffer_size_def format_decimal_loop_eq)

lemma unat_minus_negative: "sint (v :: u64) < 0 \<Longrightarrow> unat (0 - v) = nat (- sint v)"
proof -
  assume neg: "sint v < 0"
  have "sint v \<ge> - (2 ^ 63)" using sint_ge [of v] by simp
  then have "- sint v < 2 ^ 64" by simp
  then have "uint (word_of_int (- sint v) :: u64) = - sint v"
    using neg unfolding uint_word_of_int by simp
  moreover have "word_of_int (- sint v) = 0 - v" by simp
  ultimately have "uint (0 - v) = - sint v" by metis
  then show ?thesis by (metis unat_eq_nat_uint)
qed

text \<open>
  C26: \<open>format_int\<close> prints every 64-bit number in its 22-byte buffer. No store is outside the
  buffer, and the bytes from \<open>data()\<close> on are the decimal text of the number, for unsigned
  arguments and for signed ones, the smallest \<open>long long\<close> included, whose absolute value is
  computed by wrapping.
\<close>

theorem format_int_in_buffer:
  "map_sum id format_int_data (format_unsigned v) = Inr (show_nat (unat v))
   \<and> map_sum id format_int_data (format_signed v) = Inr (show_int (sint v))"
proof -
  have len: "length (show_nat (unat w)) \<le> 20" for w :: u64 using ndigits_u64 by (simp add: ndigits_def)
  have un: "map_sum id format_int_data (format_unsigned w) = Inr (show_nat (unat w))" for w
    using len [of w] by (simp add: format_unsigned_eq store_before_def format_int_data_def buffer_size_def)
  moreover have "map_sum id format_int_data (format_signed v) = Inr (show_int (sint v))"
  proof (cases "sint v < 0")
    case True
    define n where "n = length (show_nat (unat (0 - v)))"
    have n: "n \<le> 20" using len [of "0 - v"] by (simp add: n_def)
    show ?thesis
      using True n len [of "0 - v"] unat_minus_negative [OF True]
      by (auto simp: format_signed_def format_unsigned_eq store_before_def format_int_data_def buffer_size_def
          show_int_def Let_def)
  next
    case False
    have "sint v < 2 ^ 63" using sint_less [of v] by simp
    then have "uint (word_of_int (sint v) :: u64) = sint v" using False unfolding uint_word_of_int by simp
    moreover have "word_of_int (sint v) = v" by simp
    ultimately have "uint v = sint v" by metis
    then have "unat v = nat (sint v)" by (simp add: unat_eq_nat_uint)
    then show ?thesis using un [of v] False
      by (cases "format_unsigned v") (auto simp: format_signed_def show_int_def Let_def)
  qed
  ultimately show ?thesis by blast
qed

end
