(* ===== verification/Pattern_Flags.thy ===== *)
theory Pattern_Flags
  imports Spdlog Time_Text Fmt_Digits
begin

text \<open>
  The pieces of spdlog's line formatter: the number helpers of \<open>details/fmt_helper.h\<close>, the
  padder, and one function for each flag class of \<open>pattern_formatter-inl.h\<close>. A buffer is its
  content; a flag's \<open>format\<close> returns the buffer it appends to. Times are nanoseconds since
  the epoch, as in libstdc++'s \<open>system_clock\<close>.

  The padder works in the destructor of a local: cutting more bytes than the buffer holds
  asks for a buffer of nearly \<open>2 ^ 64\<close> bytes, which is the fault \<open>LengthError\<close>; a padding
  longer than the 64 spaces it is copied from is \<open>OutOfBoundsRead\<close>.
\<close>

section \<open>Messages\<close>

record source_loc =
  src_filename :: string
  src_line :: int
  src_funcname :: string

definition source_empty :: "source_loc \<Rightarrow> bool" where
  "source_empty loc \<longleftrightarrow> src_line loc \<le> 0"

definition no_source :: source_loc where
  "no_source = \<lparr>src_filename = '''', src_line = 0, src_funcname = ''''\<rparr>"

record log_record = log_msg +
  msg_time :: int
  msg_thread_id :: nat
  msg_source :: source_loc
  color_range_start :: nat
  color_range_end :: nat

definition log_record_new :: "nat \<Rightarrow> int \<Rightarrow> source_loc \<Rightarrow> string \<Rightarrow> level \<Rightarrow> string \<Rightarrow> log_record" where
  "log_record_new thread_id log_time loc name lvl msg =
     \<lparr>msg_logger_name = name, msg_level = lvl, msg_payload = msg, msg_time = log_time,
      msg_thread_id = thread_id, msg_source = loc, color_range_start = 0, color_range_end = 0\<rparr>"

definition short_level_names :: "string list" where
  "short_level_names = [''T'', ''D'', ''I'', ''W'', ''E'', ''C'', ''O'']"

definition to_short_c_str :: "level \<Rightarrow> string" where
  "to_short_c_str l = short_level_names ! level_num l"

section \<open>fmt_helper\<close>

definition append_string_view :: "string \<Rightarrow> string \<Rightarrow> string" where
  "append_string_view view dest = dest @ view"

definition append_int :: "int \<Rightarrow> string \<Rightarrow> string" where
  "append_int n dest = dest @ show_int n"

definition digit :: "nat \<Rightarrow> char" where
  "digit n = char_of (48 + n)"

text \<open>\<open>"{:02}"\<close> of fmt pads with zeros behind the sign, to a width of 2 with it.\<close>

definition format_02 :: "int \<Rightarrow> string" where
  "format_02 n = (if n < 0 then CHR ''-'' # zero_pad 1 (show_nat (nat (- n))) else zero_pad 2 (show_nat (nat n)))"

definition pad2 :: "int \<Rightarrow> string \<Rightarrow> string" where
  "pad2 n dest =
     (if n \<ge> 0 \<and> n < 100 then dest @ [digit (nat (n div 10))] @ [digit (nat (n mod 10))]
      else dest @ format_02 n)"

definition pad_uint :: "nat \<Rightarrow> nat \<Rightarrow> string \<Rightarrow> string" where
  "pad_uint n width dest = dest @ replicate (width - ndigits n) (CHR ''0'') @ show_nat n"

definition pad3 :: "nat \<Rightarrow> string \<Rightarrow> string" where
  "pad3 n dest =
     (if n < 1000 then dest @ [digit (n div 100)] @ [digit (n mod 100 div 10)] @ [digit (n mod 100 mod 10)]
      else dest @ show_nat n)"

definition pad6 :: "nat \<Rightarrow> string \<Rightarrow> string" where "pad6 n dest = pad_uint n 6 dest"
definition pad9 :: "nat \<Rightarrow> string \<Rightarrow> string" where "pad9 n dest = pad_uint n 9 dest"

text \<open>
  \<open>duration_cast\<close> truncates towards zero. A unit is its length in nanoseconds; a cast of a
  count to an unsigned type wraps.
\<close>

definition nanos_per_second :: int where "nanos_per_second = 1000000000"

definition secs_of :: "int \<Rightarrow> int" where
  "secs_of t = cdiv t nanos_per_second"

definition time_fraction :: "int \<Rightarrow> int \<Rightarrow> int" where
  "time_fraction unit t = cdiv t unit - secs_of t * (nanos_per_second div unit)"

definition to_u32 :: "int \<Rightarrow> nat" where "to_u32 n = unat (word_of_int n :: u32)"
definition to_size_t :: "int \<Rightarrow> nat" where "to_size_t n = unat (word_of_int n :: u64)"

section \<open>Padding\<close>

datatype pad_side = PadLeft | PadRight | PadCenter

record padding_info =
  pad_width :: nat
  pad_at :: pad_side
  pad_truncate :: bool
  pad_enabled :: bool

definition padding_none :: padding_info where
  "padding_none = \<lparr>pad_width = 0, pad_at = PadLeft, pad_truncate = False, pad_enabled = False\<rparr>"

definition padding_of :: "nat \<Rightarrow> pad_side \<Rightarrow> bool \<Rightarrow> padding_info" where
  "padding_of w s t = \<lparr>pad_width = w, pad_at = s, pad_truncate = t, pad_enabled = True\<rparr>"

definition spaces :: string where "spaces = replicate 64 (CHR '' '')"

definition pad_it :: "int \<Rightarrow> string \<Rightarrow> fault + string" where
  "pad_it count dest =
     (if count \<le> 64 then Inr (dest @ take (nat count) spaces) else Inl OutOfBoundsRead)"

text \<open>The constructor, which returns \<open>remaining_pad_\<close>, and the destructor.\<close>

definition scoped_padder_begin :: "nat \<Rightarrow> padding_info \<Rightarrow> string \<Rightarrow> fault + int \<times> string" where
  "scoped_padder_begin wrapped_size p dest =
     (let remaining = int (pad_width p) - int wrapped_size in
      if remaining \<le> 0 then Inr (remaining, dest)
      else case pad_at p of
        PadLeft \<Rightarrow> bindE (pad_it remaining dest) (\<lambda>dest. Inr (0, dest))
      | PadCenter \<Rightarrow>
          let half = remaining div 2; reminder = remaining mod 2
          in bindE (pad_it half dest) (\<lambda>dest. Inr (half + reminder, dest))
      | PadRight \<Rightarrow> Inr (remaining, dest))"

definition scoped_padder_end :: "int \<Rightarrow> padding_info \<Rightarrow> string \<Rightarrow> fault + string" where
  "scoped_padder_end remaining p dest =
     (if remaining \<ge> 0 then pad_it remaining dest
      else if pad_truncate p then
        let new_size = int (length dest) + remaining
        in if new_size < 0 then Inl LengthError else Inr (take (nat new_size) dest)
      else Inr dest)"

text \<open>
  The template argument: \<open>scoped_padder\<close> or \<open>null_scoped_padder\<close>, and a block that appends
  \<open>appended\<close> under a padder made for \<open>wrapped_size\<close> bytes.
\<close>

datatype padder = Scoped | Null

definition padder_count_digits :: "padder \<Rightarrow> nat \<Rightarrow> nat" where
  "padder_count_digits k n = (case k of Scoped \<Rightarrow> ndigits n | Null \<Rightarrow> 0)"

definition padded :: "padder \<Rightarrow> padding_info \<Rightarrow> nat \<Rightarrow> (string \<Rightarrow> string) \<Rightarrow> string \<Rightarrow> fault + string" where
  "padded k p wrapped_size appended dest =
     (case k of
        Null \<Rightarrow> Inr (appended dest)
      | Scoped \<Rightarrow> bindE (scoped_padder_begin wrapped_size p dest)
          (\<lambda>(remaining, dest). scoped_padder_end remaining p (appended dest)))"

section \<open>Names, levels and calendar fields\<close>

type_synonym out = "string \<Rightarrow> fault + string"

definition name_formatter :: "padder \<Rightarrow> padding_info \<Rightarrow> log_record \<Rightarrow> out" where
  "name_formatter k p msg = padded k p (length (msg_logger_name msg)) (append_string_view (msg_logger_name msg))"

definition level_formatter :: "padder \<Rightarrow> padding_info \<Rightarrow> log_record \<Rightarrow> out" where
  "level_formatter k p msg =
     (let level_name = to_string_view (msg_level msg)
      in padded k p (length level_name) (append_string_view level_name))"

definition short_level_formatter :: "padder \<Rightarrow> padding_info \<Rightarrow> log_record \<Rightarrow> out" where
  "short_level_formatter k p msg =
     (let level_name = to_short_c_str (msg_level msg)
      in padded k p (length level_name) (append_string_view level_name))"

definition ampm :: "tm \<Rightarrow> string" where
  "ampm t = (if tm_hour t \<ge> 12 then ''PM'' else ''AM'')"

definition to12h :: "tm \<Rightarrow> int" where
  "to12h t = (if tm_hour t > 12 then tm_hour t - 12 else tm_hour t)"

definition days :: "string list" where
  "days = [''Sun'', ''Mon'', ''Tue'', ''Wed'', ''Thu'', ''Fri'', ''Sat'']"

definition full_days :: "string list" where
  "full_days = [''Sunday'', ''Monday'', ''Tuesday'', ''Wednesday'', ''Thursday'', ''Friday'', ''Saturday'']"

definition months :: "string list" where
  "months = [''Jan'', ''Feb'', ''Mar'', ''Apr'', ''May'', ''Jun'', ''Jul'', ''Aug'', ''Sept'', ''Oct'', ''Nov'', ''Dec'']"

definition full_months :: "string list" where
  "full_months =
     [''January'', ''February'', ''March'', ''April'', ''May'', ''June'', ''July'', ''August'', ''September'',
      ''October'', ''November'', ''December'']"

text \<open>\<open>names[static_cast<size_t>(i)]\<close> of a \<open>std::array\<close>, undefined outside of it.\<close>

definition name_at :: "string list \<Rightarrow> int \<Rightarrow> fault + string" where
  "name_at names i = (if 0 \<le> i \<and> i < int (length names) then Inr (names ! nat i) else Inl OutOfBoundsRead)"

definition a_formatter :: "padder \<Rightarrow> padding_info \<Rightarrow> tm \<Rightarrow> out" where
  "a_formatter k p tm_time dest =
     bindE (name_at days (tm_wday tm_time)) (\<lambda>field_value.
       padded k p (length field_value) (append_string_view field_value) dest)"

definition A_formatter :: "padder \<Rightarrow> padding_info \<Rightarrow> tm \<Rightarrow> out" where
  "A_formatter k p tm_time dest =
     bindE (name_at full_days (tm_wday tm_time)) (\<lambda>field_value.
       padded k p (length field_value) (append_string_view field_value) dest)"

definition b_formatter :: "padder \<Rightarrow> padding_info \<Rightarrow> tm \<Rightarrow> out" where
  "b_formatter k p tm_time dest =
     bindE (name_at months (tm_mon tm_time)) (\<lambda>field_value.
       padded k p (length field_value) (append_string_view field_value) dest)"

definition B_formatter :: "padder \<Rightarrow> padding_info \<Rightarrow> tm \<Rightarrow> out" where
  "B_formatter k p tm_time dest =
     bindE (name_at full_months (tm_mon tm_time)) (\<lambda>field_value.
       padded k p (length field_value) (append_string_view field_value) dest)"

definition c_formatter :: "padder \<Rightarrow> padding_info \<Rightarrow> tm \<Rightarrow> out" where
  "c_formatter k p tm_time dest =
     bindE (name_at days (tm_wday tm_time)) (\<lambda>day. bindE (name_at months (tm_mon tm_time)) (\<lambda>month.
       padded k p 24 (\<lambda>dest.
         let dest = append_string_view day dest;
             dest = dest @ '' '';
             dest = append_string_view month dest;
             dest = dest @ '' '';
             dest = append_int (tm_mday tm_time) dest;
             dest = dest @ '' '';
             dest = pad2 (tm_hour tm_time) dest;
             dest = dest @ '':'';
             dest = pad2 (tm_min tm_time) dest;
             dest = dest @ '':'';
             dest = pad2 (tm_sec tm_time) dest;
             dest = dest @ '' ''
         in append_int (tm_year tm_time + 1900) dest) dest))"

text \<open>\<open>%\<close> of C++ takes the sign of the dividend.\<close>

definition cmod :: "int \<Rightarrow> int \<Rightarrow> int" where
  "cmod a b = a - cdiv a b * b"

definition C_formatter :: "padder \<Rightarrow> padding_info \<Rightarrow> tm \<Rightarrow> out" where
  "C_formatter k p tm_time = padded k p 2 (pad2 (cmod (tm_year tm_time) 100))"

definition short_date :: "tm \<Rightarrow> string \<Rightarrow> string" where
  "short_date tm_time dest =
     (let dest = pad2 (tm_mon tm_time + 1) dest;
          dest = dest @ ''/'';
          dest = pad2 (tm_mday tm_time) dest;
          dest = dest @ ''/''
      in pad2 (cmod (tm_year tm_time) 100) dest)"

definition D_formatter :: "padder \<Rightarrow> padding_info \<Rightarrow> tm \<Rightarrow> out" where
  "D_formatter k p tm_time = padded k p 10 (short_date tm_time)"

definition Y_formatter :: "padder \<Rightarrow> padding_info \<Rightarrow> tm \<Rightarrow> out" where
  "Y_formatter k p tm_time = padded k p 4 (append_int (tm_year tm_time + 1900))"

definition m_formatter :: "padder \<Rightarrow> padding_info \<Rightarrow> tm \<Rightarrow> out" where
  "m_formatter k p tm_time = padded k p 2 (pad2 (tm_mon tm_time + 1))"

definition d_formatter :: "padder \<Rightarrow> padding_info \<Rightarrow> tm \<Rightarrow> out" where
  "d_formatter k p tm_time = padded k p 2 (pad2 (tm_mday tm_time))"

definition H_formatter :: "padder \<Rightarrow> padding_info \<Rightarrow> tm \<Rightarrow> out" where
  "H_formatter k p tm_time = padded k p 2 (pad2 (tm_hour tm_time))"

definition I_formatter :: "padder \<Rightarrow> padding_info \<Rightarrow> tm \<Rightarrow> out" where
  "I_formatter k p tm_time = padded k p 2 (pad2 (to12h tm_time))"

definition M_formatter :: "padder \<Rightarrow> padding_info \<Rightarrow> tm \<Rightarrow> out" where
  "M_formatter k p tm_time = padded k p 2 (pad2 (tm_min tm_time))"

definition S_formatter :: "padder \<Rightarrow> padding_info \<Rightarrow> tm \<Rightarrow> out" where
  "S_formatter k p tm_time = padded k p 2 (pad2 (tm_sec tm_time))"

section \<open>Fractions and clock formats\<close>

definition e_formatter :: "padder \<Rightarrow> padding_info \<Rightarrow> log_record \<Rightarrow> out" where
  "e_formatter k p msg = padded k p 3 (pad3 (to_u32 (time_fraction 1000000 (msg_time msg))))"

definition f_formatter :: "padder \<Rightarrow> padding_info \<Rightarrow> log_record \<Rightarrow> out" where
  "f_formatter k p msg = padded k p 6 (pad6 (to_size_t (time_fraction 1000 (msg_time msg))))"

definition F_formatter :: "padder \<Rightarrow> padding_info \<Rightarrow> log_record \<Rightarrow> out" where
  "F_formatter k p msg = padded k p 9 (pad9 (to_size_t (time_fraction 1 (msg_time msg))))"

definition E_formatter :: "padder \<Rightarrow> padding_info \<Rightarrow> log_record \<Rightarrow> out" where
  "E_formatter k p msg = padded k p 10 (append_int (secs_of (msg_time msg)))"

definition p_formatter :: "padder \<Rightarrow> padding_info \<Rightarrow> tm \<Rightarrow> out" where
  "p_formatter k p tm_time = padded k p 2 (append_string_view (ampm tm_time))"

definition r_formatter :: "padder \<Rightarrow> padding_info \<Rightarrow> tm \<Rightarrow> out" where
  "r_formatter k p tm_time = padded k p 11 (\<lambda>dest.
     let dest = pad2 (to12h tm_time) dest;
         dest = dest @ '':'';
         dest = pad2 (tm_min tm_time) dest;
         dest = dest @ '':'';
         dest = pad2 (tm_sec tm_time) dest;
         dest = dest @ '' ''
     in append_string_view (ampm tm_time) dest)"

definition R_formatter :: "padder \<Rightarrow> padding_info \<Rightarrow> tm \<Rightarrow> out" where
  "R_formatter k p tm_time = padded k p 5 (\<lambda>dest.
     let dest = pad2 (tm_hour tm_time) dest;
         dest = dest @ '':''
     in pad2 (tm_min tm_time) dest)"

definition T_formatter :: "padder \<Rightarrow> padding_info \<Rightarrow> tm \<Rightarrow> out" where
  "T_formatter k p tm_time = padded k p 8 (\<lambda>dest.
     let dest = pad2 (tm_hour tm_time) dest;
         dest = dest @ '':'';
         dest = pad2 (tm_min tm_time) dest;
         dest = dest @ '':''
     in pad2 (tm_sec tm_time) dest)"

text \<open>
  The zone offset in minutes is cached for ten seconds: the arguments \<open>last_update\<close> and
  \<open>offset\<close> are the members, \<open>utc_minutes_offset\<close> the system's.
\<close>

definition z_cached_offset :: "(tm \<Rightarrow> int) \<Rightarrow> log_record \<Rightarrow> tm \<Rightarrow> int \<times> int \<Rightarrow> int \<times> int" where
  "z_cached_offset utc_minutes_offset msg tm_time c =
     (case c of (last_update, offset) \<Rightarrow>
        if msg_time msg - last_update \<ge> 10 * nanos_per_second then (msg_time msg, utc_minutes_offset tm_time)
        else (last_update, offset))"

definition z_formatter :: "(tm \<Rightarrow> int) \<Rightarrow> padder \<Rightarrow> padding_info \<Rightarrow> log_record \<Rightarrow> tm \<Rightarrow> int \<times> int \<Rightarrow> string
    \<Rightarrow> fault + (int \<times> int) \<times> string" where
  "z_formatter utc_minutes_offset k p msg tm_time c dest =
     (let c = z_cached_offset utc_minutes_offset msg tm_time c;
          total_minutes = snd c
      in bindE (padded k p 6 (\<lambda>dest.
           let (total_minutes, dest) =
                 (if total_minutes < 0 then (- total_minutes, dest @ ''-'') else (total_minutes, dest @ ''+''));
               dest = pad2 (cdiv total_minutes 60) dest;
               dest = dest @ '':''
           in pad2 (cmod total_minutes 60) dest) dest) (\<lambda>dest. Inr (c, dest)))"

section \<open>Identifiers, payload, literal text\<close>

definition t_formatter :: "padder \<Rightarrow> padding_info \<Rightarrow> log_record \<Rightarrow> out" where
  "t_formatter k p msg =
     padded k p (padder_count_digits k (msg_thread_id msg)) (append_int (int (msg_thread_id msg)))"

definition pid_formatter :: "nat \<Rightarrow> padder \<Rightarrow> padding_info \<Rightarrow> out" where
  "pid_formatter pid k p = padded k p (padder_count_digits k pid) (append_int (int pid))"

definition v_formatter :: "padder \<Rightarrow> padding_info \<Rightarrow> log_record \<Rightarrow> out" where
  "v_formatter k p msg = padded k p (length (msg_payload msg)) (append_string_view (msg_payload msg))"

definition ch_formatter :: "char \<Rightarrow> out" where
  "ch_formatter ch dest = Inr (dest @ [ch])"

definition aggregate_add_ch :: "char \<Rightarrow> string \<Rightarrow> string" where
  "aggregate_add_ch ch str = str @ [ch]"

definition aggregate_formatter :: "string \<Rightarrow> out" where
  "aggregate_formatter str dest = Inr (append_string_view str dest)"

definition color_start_formatter :: "log_record \<Rightarrow> string \<Rightarrow> log_record" where
  "color_start_formatter msg dest = msg\<lparr>color_range_start := length dest\<rparr>"

definition color_stop_formatter :: "log_record \<Rightarrow> string \<Rightarrow> log_record" where
  "color_stop_formatter msg dest = msg\<lparr>color_range_end := length dest\<rparr>"

section \<open>Source location\<close>

definition source_location_formatter :: "padder \<Rightarrow> padding_info \<Rightarrow> log_record \<Rightarrow> out" where
  "source_location_formatter k p msg dest =
     (let source = msg_source msg in
      if source_empty source then padded k p 0 (\<lambda>dest. dest) dest
      else
        let text_size = (if pad_enabled p
                         then length (src_filename source) + padder_count_digits k (nat (src_line source)) + 1
                         else 0)
        in padded k p text_size (\<lambda>dest.
             let dest = append_string_view (src_filename source) dest;
                 dest = dest @ '':''
             in append_int (src_line source) dest) dest)"

definition source_filename_formatter :: "padder \<Rightarrow> padding_info \<Rightarrow> log_record \<Rightarrow> out" where
  "source_filename_formatter k p msg dest =
     (let source = msg_source msg in
      if source_empty source then padded k p 0 (\<lambda>dest. dest) dest
      else padded k p (if pad_enabled p then length (src_filename source) else 0)
             (append_string_view (src_filename source)) dest)"

text \<open>\<open>basename\<close>: there is one separator on POSIX, so the branch with \<open>strrchr\<close>.\<close>

definition folder_seps :: string where "folder_seps = ''/''"

definition basename :: "string \<Rightarrow> string" where
  "basename filename =
     (let sep = hd folder_seps in
      if sep \<in> set filename then rev (takeWhile (\<lambda>c. c \<noteq> sep) (rev filename)) else filename)"

definition short_filename_formatter :: "padder \<Rightarrow> padding_info \<Rightarrow> log_record \<Rightarrow> out" where
  "short_filename_formatter k p msg dest =
     (let source = msg_source msg in
      if source_empty source then padded k p 0 (\<lambda>dest. dest) dest
      else
        let filename = basename (src_filename source)
        in padded k p (if pad_enabled p then length filename else 0) (append_string_view filename) dest)"

definition source_linenum_formatter :: "padder \<Rightarrow> padding_info \<Rightarrow> log_record \<Rightarrow> out" where
  "source_linenum_formatter k p msg dest =
     (let source = msg_source msg in
      if source_empty source then padded k p 0 (\<lambda>dest. dest) dest
      else padded k p (padder_count_digits k (nat (src_line source))) (append_int (src_line source)) dest)"

definition source_funcname_formatter :: "padder \<Rightarrow> padding_info \<Rightarrow> log_record \<Rightarrow> out" where
  "source_funcname_formatter k p msg dest =
     (let source = msg_source msg in
      if source_empty source then padded k p 0 (\<lambda>dest. dest) dest
      else padded k p (if pad_enabled p then length (src_funcname source) else 0)
             (append_string_view (src_funcname source)) dest)"

section \<open>Elapsed time and diagnostic context\<close>

text \<open>\<open>units\<close> is the length of the unit in nanoseconds; the result is the new \<open>last_message_time_\<close>.\<close>

definition elapsed_formatter :: "int \<Rightarrow> padder \<Rightarrow> padding_info \<Rightarrow> log_record \<Rightarrow> int \<Rightarrow> string \<Rightarrow> fault + int \<times> string" where
  "elapsed_formatter units k p msg last_message_time dest =
     (let delta = max (msg_time msg - last_message_time) 0;
          delta_units = cdiv delta units;
          delta_count = to_size_t delta_units
      in bindE (padded k p (padder_count_digits k delta_count) (append_int (int delta_count)) dest)
           (\<lambda>dest. Inr (msg_time msg, dest)))"

text \<open>The context is a \<open>std::map\<close>: its pairs in the order of the keys.\<close>

fun format_mdc :: "padder \<Rightarrow> padding_info \<Rightarrow> (string \<times> string) list \<Rightarrow> out" where
  "format_mdc k p [] dest = Inr dest"
| "format_mdc k p ((key, val) # rest) dest =
     (let content_size = length key + length val + 1;
          content_size = (if rest \<noteq> [] then content_size + 1 else content_size)
      in bindE (padded k p content_size (\<lambda>dest.
           let dest = append_string_view key dest;
               dest = append_string_view '':'' dest;
               dest = append_string_view val dest
           in if rest \<noteq> [] then append_string_view '' '' dest else dest) dest)
         (format_mdc k p rest))"

definition mdc_formatter :: "padder \<Rightarrow> padding_info \<Rightarrow> (string \<times> string) list \<Rightarrow> out" where
  "mdc_formatter k p mdc dest =
     (if mdc = [] then padded k p 0 (\<lambda>dest. dest) dest else format_mdc k p mdc dest)"

section \<open>The default line\<close>

text \<open>
  \<open>full_formatter\<close> keeps the text of the date and time for one second: \<open>cache\<close> is
  \<open>cache_timestamp_\<close> and \<open>cached_datetime_\<close>. It ignores its padding.
\<close>

definition full_datetime :: "tm \<Rightarrow> string" where
  "full_datetime tm_time =
     (let c = ''['';
          c = append_int (tm_year tm_time + 1900) c;
          c = c @ ''-'';
          c = pad2 (tm_mon tm_time + 1) c;
          c = c @ ''-'';
          c = pad2 (tm_mday tm_time) c;
          c = c @ '' '';
          c = pad2 (tm_hour tm_time) c;
          c = c @ '':'';
          c = pad2 (tm_min tm_time) c;
          c = c @ '':'';
          c = pad2 (tm_sec tm_time) c
      in c @ ''.'')"

definition full_cache :: "log_record \<Rightarrow> tm \<Rightarrow> int \<times> string \<Rightarrow> int \<times> string" where
  "full_cache msg tm_time cache =
     (let secs = secs_of (msg_time msg) in
      if fst cache \<noteq> secs \<or> length (snd cache) = 0 then (secs, full_datetime tm_time) else cache)"

definition full_formatter :: "(string \<times> string) list \<Rightarrow> log_record \<Rightarrow> tm \<Rightarrow> int \<times> string \<Rightarrow> string
    \<Rightarrow> fault + (int \<times> string) \<times> log_record \<times> string" where
  "full_formatter mdc msg tm_time cache dest =
     (let cache = full_cache msg tm_time cache;
          dest = dest @ snd cache;
          dest = pad3 (to_u32 (time_fraction 1000000 (msg_time msg))) dest;
          dest = dest @ ''] '';
          dest = (if length (msg_logger_name msg) > 0
                  then append_string_view (msg_logger_name msg) (dest @ ''['') @ ''] '' else dest);
          dest = dest @ ''['';
          msg = msg\<lparr>color_range_start := length dest\<rparr>;
          dest = append_string_view (to_string_view (msg_level msg)) dest;
          msg = msg\<lparr>color_range_end := length dest\<rparr>;
          dest = dest @ ''] '';
          dest = (if \<not> source_empty (msg_source msg)
                  then append_int (src_line (msg_source msg))
                         (append_string_view (basename (src_filename (msg_source msg))) (dest @ ''['') @ '':'') @ ''] ''
                  else dest)
      in bindE (if mdc \<noteq> [] then bindE (format_mdc Null padding_none mdc (dest @ ''['')) (\<lambda>dest. Inr (dest @ ''] ''))
                else Inr dest)
           (\<lambda>dest. Inr (cache, msg, append_string_view (msg_payload msg) dest)))"

end
