(* ===== verification/Pattern_Formatter.thy ===== *)
theory Pattern_Formatter
  imports Pattern_Flags
begin

text \<open>
  spdlog's \<open>pattern_formatter\<close> (\<open>pattern_formatter.h\<close>, \<open>pattern_formatter-inl.h\<close>): the compiler
  from a pattern to a list of flag formatters, and the interpreter that formats a message
  with it. What the system provides (process id, time zone, broken-down time, the diagnostic
  context of the thread) is the record \<open>log_env\<close>.
\<close>

section \<open>Flags as data\<close>

record log_env =
  env_pid :: nat
  env_utc_minutes_offset :: "tm \<Rightarrow> int"
  env_localtime :: "int \<Rightarrow> tm"
  env_gmtime :: "int \<Rightarrow> tm"
  env_mdc :: "(string \<times> string) list"

text \<open>A custom flag is the user's \<open>format\<close>, which is given its padding.\<close>

type_synonym custom_flag = "padding_info \<Rightarrow> log_record \<Rightarrow> tm \<Rightarrow> string \<Rightarrow> fault + string"

text \<open>
  One constructor per class, with its template argument, its padding and its mutable
  members: the cached time text, the cached zone offset, the time of the last message.
\<close>

datatype flag =
    Full "int \<times> string"
  | Name padder padding_info | Level padder padding_info | ShortLevel padder padding_info
  | ThreadId padder padding_info | Payload padder padding_info
  | Weekday padder padding_info | FullWeekday padder padding_info
  | Month padder padding_info | FullMonth padder padding_info
  | DateTime padder padding_info | Year2 padder padding_info | Year4 padder padding_info
  | ShortDate padder padding_info | MonthNum padder padding_info | MonthDay padder padding_info
  | Hour24 padder padding_info | Hour12 padder padding_info | Minute padder padding_info
  | Second padder padding_info | Millis padder padding_info | Micros padder padding_info
  | Nanos padder padding_info | EpochSecs padder padding_info | AmPm padder padding_info
  | Clock12 padder padding_info | Clock24 padder padding_info | IsoTime padder padding_info
  | Zone padder padding_info "int \<times> int" | Pid padder padding_info
  | ColorStart | ColorStop
  | SourceLocation padder padding_info | ShortFilename padder padding_info
  | SourceFilename padder padding_info | SourceLine padder padding_info | SourceFunc padder padding_info
  | Char char
  | Elapsed int padder padding_info int
  | Mdc padder padding_info
  | Text string
  | Custom custom_flag padding_info

definition keep :: "flag \<Rightarrow> log_record \<Rightarrow> fault + string \<Rightarrow> fault + flag \<times> log_record \<times> string" where
  "keep fl msg r = bindE r (\<lambda>dest. Inr (fl, msg, dest))"

text \<open>The virtual call \<open>f->format(msg, tm, dest)\<close>.\<close>

definition format_flag :: "log_env \<Rightarrow> tm \<Rightarrow> flag \<Rightarrow> log_record \<Rightarrow> string \<Rightarrow> fault + flag \<times> log_record \<times> string" where
  "format_flag env tm fl msg dest =
     (case fl of
        Full cache \<Rightarrow> bindE (full_formatter (env_mdc env) msg tm cache dest)
                        (\<lambda>(cache, msg, dest). Inr (Full cache, msg, dest))
      | Name k p \<Rightarrow> keep fl msg (name_formatter k p msg dest)
      | Level k p \<Rightarrow> keep fl msg (level_formatter k p msg dest)
      | ShortLevel k p \<Rightarrow> keep fl msg (short_level_formatter k p msg dest)
      | ThreadId k p \<Rightarrow> keep fl msg (t_formatter k p msg dest)
      | Payload k p \<Rightarrow> keep fl msg (v_formatter k p msg dest)
      | Weekday k p \<Rightarrow> keep fl msg (a_formatter k p tm dest)
      | FullWeekday k p \<Rightarrow> keep fl msg (A_formatter k p tm dest)
      | Month k p \<Rightarrow> keep fl msg (b_formatter k p tm dest)
      | FullMonth k p \<Rightarrow> keep fl msg (B_formatter k p tm dest)
      | DateTime k p \<Rightarrow> keep fl msg (c_formatter k p tm dest)
      | Year2 k p \<Rightarrow> keep fl msg (C_formatter k p tm dest)
      | Year4 k p \<Rightarrow> keep fl msg (Y_formatter k p tm dest)
      | ShortDate k p \<Rightarrow> keep fl msg (D_formatter k p tm dest)
      | MonthNum k p \<Rightarrow> keep fl msg (m_formatter k p tm dest)
      | MonthDay k p \<Rightarrow> keep fl msg (d_formatter k p tm dest)
      | Hour24 k p \<Rightarrow> keep fl msg (H_formatter k p tm dest)
      | Hour12 k p \<Rightarrow> keep fl msg (I_formatter k p tm dest)
      | Minute k p \<Rightarrow> keep fl msg (M_formatter k p tm dest)
      | Second k p \<Rightarrow> keep fl msg (S_formatter k p tm dest)
      | Millis k p \<Rightarrow> keep fl msg (e_formatter k p msg dest)
      | Micros k p \<Rightarrow> keep fl msg (f_formatter k p msg dest)
      | Nanos k p \<Rightarrow> keep fl msg (F_formatter k p msg dest)
      | EpochSecs k p \<Rightarrow> keep fl msg (E_formatter k p msg dest)
      | AmPm k p \<Rightarrow> keep fl msg (p_formatter k p tm dest)
      | Clock12 k p \<Rightarrow> keep fl msg (r_formatter k p tm dest)
      | Clock24 k p \<Rightarrow> keep fl msg (R_formatter k p tm dest)
      | IsoTime k p \<Rightarrow> keep fl msg (T_formatter k p tm dest)
      | Zone k p c \<Rightarrow> bindE (z_formatter (env_utc_minutes_offset env) k p msg tm c dest)
                        (\<lambda>(c, dest). Inr (Zone k p c, msg, dest))
      | Pid k p \<Rightarrow> keep fl msg (pid_formatter (env_pid env) k p dest)
      | ColorStart \<Rightarrow> Inr (fl, color_start_formatter msg dest, dest)
      | ColorStop \<Rightarrow> Inr (fl, color_stop_formatter msg dest, dest)
      | SourceLocation k p \<Rightarrow> keep fl msg (source_location_formatter k p msg dest)
      | ShortFilename k p \<Rightarrow> keep fl msg (short_filename_formatter k p msg dest)
      | SourceFilename k p \<Rightarrow> keep fl msg (source_filename_formatter k p msg dest)
      | SourceLine k p \<Rightarrow> keep fl msg (source_linenum_formatter k p msg dest)
      | SourceFunc k p \<Rightarrow> keep fl msg (source_funcname_formatter k p msg dest)
      | Char ch \<Rightarrow> keep fl msg (ch_formatter ch dest)
      | Elapsed units k p prev \<Rightarrow> bindE (elapsed_formatter units k p msg prev dest)
                                     (\<lambda>(prev, dest). Inr (Elapsed units k p prev, msg, dest))
      | Mdc k p \<Rightarrow> keep fl msg (mdc_formatter k p (env_mdc env) dest)
      | Text str \<Rightarrow> keep fl msg (aggregate_formatter str dest)
      | Custom f p \<Rightarrow> keep fl msg (f p msg tm dest))"

section \<open>Compiling a pattern\<close>

text \<open>
  The built-in flags: the formatters a flag character adds, and whether it needs the broken-down
  time. \<open>now\<close> is the clock an elapsed-time flag is built at. An unknown flag is shown as it
  is, unless its padding said to truncate: then the \<open>!\<close> is taken as the function name. The
  switch is cut in two: \<open>handle_detail_flag\<close> holds its cases from \<open>@\<close> on and the default.
\<close>

definition handle_detail_flag :: "int \<Rightarrow> padder \<Rightarrow> char \<Rightarrow> padding_info \<Rightarrow> flag list \<times> bool" where
  "handle_detail_flag now k c p =
     (if c = CHR ''@'' then ([SourceLocation k p], False)
      else if c = CHR ''s'' then ([ShortFilename k p], False)
      else if c = CHR ''g'' then ([SourceFilename k p], False)
      else if c = CHR ''#'' then ([SourceLine k p], False)
      else if c = CHR ''!'' then ([SourceFunc k p], False)
      else if c = CHR ''%'' then ([Char (CHR ''%'')], False)
      else if c = CHR ''u'' then ([Elapsed 1 k p now], False)
      else if c = CHR ''i'' then ([Elapsed 1000 k p now], False)
      else if c = CHR ''o'' then ([Elapsed 1000000 k p now], False)
      else if c = CHR ''O'' then ([Elapsed 1000000000 k p now], False)
      else if c = CHR ''&'' then ([Mdc k p], False)
      else if \<not> pad_truncate p then ([Text (aggregate_add_ch c (aggregate_add_ch (CHR ''%'') ''''))], False)
      else ([SourceFunc k (p\<lparr>pad_truncate := False\<rparr>), Text (aggregate_add_ch c '''')], False))"

definition handle_builtin_flag :: "int \<Rightarrow> padder \<Rightarrow> char \<Rightarrow> padding_info \<Rightarrow> flag list \<times> bool" where
  "handle_builtin_flag now k c p =
     (if c = CHR ''+'' then ([Full (0, '''')], True)
      else if c = CHR ''n'' then ([Name k p], False)
      else if c = CHR ''l'' then ([Level k p], False)
      else if c = CHR ''L'' then ([ShortLevel k p], False)
      else if c = CHR ''t'' then ([ThreadId k p], False)
      else if c = CHR ''v'' then ([Payload k p], False)
      else if c = CHR ''a'' then ([Weekday k p], True)
      else if c = CHR ''A'' then ([FullWeekday k p], True)
      else if c = CHR ''b'' \<or> c = CHR ''h'' then ([Month k p], True)
      else if c = CHR ''B'' then ([FullMonth k p], True)
      else if c = CHR ''c'' then ([DateTime k p], True)
      else if c = CHR ''C'' then ([Year2 k p], True)
      else if c = CHR ''Y'' then ([Year4 k p], True)
      else if c = CHR ''D'' \<or> c = CHR ''x'' then ([ShortDate k p], True)
      else if c = CHR ''m'' then ([MonthNum k p], True)
      else if c = CHR ''d'' then ([MonthDay k p], True)
      else if c = CHR ''H'' then ([Hour24 k p], True)
      else if c = CHR ''I'' then ([Hour12 k p], True)
      else if c = CHR ''M'' then ([Minute k p], True)
      else if c = CHR ''S'' then ([Second k p], True)
      else if c = CHR ''e'' then ([Millis k p], False)
      else if c = CHR ''f'' then ([Micros k p], False)
      else if c = CHR ''F'' then ([Nanos k p], False)
      else if c = CHR ''E'' then ([EpochSecs k p], False)
      else if c = CHR ''p'' then ([AmPm k p], True)
      else if c = CHR ''r'' then ([Clock12 k p], True)
      else if c = CHR ''R'' then ([Clock24 k p], True)
      else if c = CHR ''T'' \<or> c = CHR ''X'' then ([IsoTime k p], True)
      else if c = CHR ''z'' then ([Zone k p (0, 0)], True)
      else if c = CHR ''P'' then ([Pid k p], False)
      else if c = CHR ''^'' then ([ColorStart], False)
      else if c = CHR ''$'' then ([ColorStop], False)
      else handle_detail_flag now k c p)"

definition handle_flag :: "(char \<rightharpoonup> custom_flag) \<Rightarrow> int \<Rightarrow> padder \<Rightarrow> char \<Rightarrow> padding_info \<Rightarrow> flag list \<times> bool" where
  "handle_flag custom now k c p =
     (case custom c of
        Some f \<Rightarrow> ([Custom f p], False)
      | None \<Rightarrow> handle_builtin_flag now k c p)"

text \<open>
  \<open>handle_padspec_\<close>: an optional side, a width in digits, an optional \<open>!\<close>. The width is
  computed in \<open>size_t\<close>, which wraps, and then limited to 64; without digits there is no
  padding, and a side already read stays consumed.
\<close>

definition max_width :: u64 where "max_width = 64"

definition padspec_width :: "string \<Rightarrow> u64" where
  "padspec_width digits = fold (\<lambda>c width. width * 10 + (of_nat (of_char c) - of_nat (of_char CHR ''0''))) digits 0"

definition handle_padspec :: "string \<Rightarrow> padding_info \<times> string" where
  "handle_padspec it =
     (case it of
        [] \<Rightarrow> (padding_none, [])
      | c # cs \<Rightarrow>
          let (sd, it) = (if c = CHR ''-'' then (PadRight, cs) else if c = CHR ''='' then (PadCenter, cs)
                          else (PadLeft, it))
          in if it = [] \<or> \<not> isdigit (hd it) then (padding_none, it)
             else
               let wd = padspec_width (takeWhile isdigit it);
                   it = dropWhile isdigit it;
                   (trunc, it) = (if it \<noteq> [] \<and> hd it = CHR ''!'' then (True, tl it) else (False, it))
               in (padding_of (unat (min wd max_width)) sd trunc, it))"

text \<open>
  \<open>compile_pattern_\<close>: \<open>user_chars\<close> is the pending literal text, if any; the result is the
  formatters and the disjunction of the needs for broken-down time.
\<close>

definition flush_chars :: "string option \<Rightarrow> flag list" where
  "flush_chars user_chars = (case user_chars of None \<Rightarrow> [] | Some str \<Rightarrow> [Text str])"

lemma handle_padspec_length: "length (snd (handle_padspec it)) \<le> length it"
  by (auto simp: handle_padspec_def Let_def length_dropWhile_le le_SucI split: list.split)
    (metis length_dropWhile_le le_SucI length_tl diff_le_self order_trans list.size(4) add.commute plus_1_eq_Suc)+

function compile_loop ::
  "(char \<rightharpoonup> custom_flag) \<Rightarrow> int \<Rightarrow> string \<Rightarrow> string option \<Rightarrow> flag list \<times> bool" where
  "compile_loop custom now [] user_chars = (flush_chars user_chars, False)"
| "compile_loop custom now (c # cs) user_chars =
     (if c = CHR ''%'' then
        let (padding, it) = handle_padspec cs
        in (case it of
              [] \<Rightarrow> (flush_chars user_chars, False)
            | f # it' \<Rightarrow>
                let (fs, need) = handle_flag custom now (if pad_enabled padding then Scoped else Null) f padding;
                    (rest, need') = compile_loop custom now it' None
                in (flush_chars user_chars @ fs @ rest, need \<or> need'))
      else compile_loop custom now cs
             (Some (aggregate_add_ch c (case user_chars of None \<Rightarrow> '''' | Some str \<Rightarrow> str))))"
  by pat_completeness auto
termination
proof (relation "measure (\<lambda>(_, _, it, _). length it)", goal_cases)
  case (2 custom now c cs user_chars x padding it f it')
  then show ?case using handle_padspec_length [of cs] by (metis (no_types, lifting) in_measure
      case_prod_conv le_imp_less_Suc length_Cons less_SucI order_less_le_trans snd_conv lessI)
qed auto

definition compile_pattern :: "(char \<rightharpoonup> custom_flag) \<Rightarrow> int \<Rightarrow> string \<Rightarrow> flag list \<times> bool" where
  "compile_pattern custom now pattern = compile_loop custom now pattern None"

section \<open>The formatter\<close>

datatype pattern_time_type = Local | Utc

record pattern_formatter =
  pf_pattern :: string
  pf_eol :: string
  pf_time_type :: pattern_time_type
  pf_need_localtime :: bool
  pf_cached_tm :: tm
  pf_last_log_secs :: int
  pf_formatters :: "flag list"
  pf_custom :: "char \<rightharpoonup> custom_flag"

definition zero_tm :: tm where
  "zero_tm = \<lparr>tm_sec = 0, tm_min = 0, tm_hour = 0, tm_mday = 0, tm_mon = 0, tm_year = 0, tm_wday = 0, tm_yday = 0\<rparr>"

definition default_eol :: string where "default_eol = [CHR 0x0A]"

definition pattern_formatter_new ::
  "int \<Rightarrow> string \<Rightarrow> pattern_time_type \<Rightarrow> string \<Rightarrow> (char \<rightharpoonup> custom_flag) \<Rightarrow> pattern_formatter" where
  "pattern_formatter_new now pattern time_type eol custom =
     (let (fs, need) = compile_pattern custom now pattern
      in \<lparr>pf_pattern = pattern, pf_eol = eol, pf_time_type = time_type, pf_need_localtime = need,
          pf_cached_tm = zero_tm, pf_last_log_secs = 0, pf_formatters = fs, pf_custom = custom\<rparr>)"

definition pattern_formatter_default :: "pattern_time_type \<Rightarrow> string \<Rightarrow> pattern_formatter" where
  "pattern_formatter_default time_type eol =
     \<lparr>pf_pattern = ''%+'', pf_eol = eol, pf_time_type = time_type, pf_need_localtime = True,
      pf_cached_tm = zero_tm, pf_last_log_secs = 0, pf_formatters = [Full (0, '''')], pf_custom = Map.empty\<rparr>"

definition set_pattern :: "int \<Rightarrow> string \<Rightarrow> pattern_formatter \<Rightarrow> pattern_formatter" where
  "set_pattern now pattern pf =
     (let (fs, need) = compile_pattern (pf_custom pf) now pattern
      in pf\<lparr>pf_pattern := pattern, pf_need_localtime := need, pf_formatters := fs\<rparr>)"

definition need_localtime :: "bool \<Rightarrow> pattern_formatter \<Rightarrow> pattern_formatter" where
  "need_localtime need pf = pf\<lparr>pf_need_localtime := need\<rparr>"

definition add_flag :: "char \<Rightarrow> custom_flag \<Rightarrow> pattern_formatter \<Rightarrow> pattern_formatter" where
  "add_flag c f pf = pf\<lparr>pf_custom := (pf_custom pf)(c \<mapsto> f)\<rparr>"

text \<open>\<open>clone\<close> clones the custom flags, whose class has no state here.\<close>

definition formatter_clone :: "int \<Rightarrow> pattern_formatter \<Rightarrow> pattern_formatter" where
  "formatter_clone now pf =
     need_localtime (pf_need_localtime pf)
       (pattern_formatter_new now (pf_pattern pf) (pf_time_type pf) (pf_eol pf) (pf_custom pf))"

definition get_time :: "log_env \<Rightarrow> pattern_time_type \<Rightarrow> log_record \<Rightarrow> tm" where
  "get_time env time_type msg =
     (case time_type of
        Local \<Rightarrow> env_localtime env (secs_of (msg_time msg))
      | Utc \<Rightarrow> env_gmtime env (secs_of (msg_time msg)))"

fun format_flags :: "log_env \<Rightarrow> tm \<Rightarrow> flag list \<Rightarrow> log_record \<Rightarrow> string \<Rightarrow> fault + flag list \<times> log_record \<times> string" where
  "format_flags env tm [] msg dest = Inr ([], msg, dest)"
| "format_flags env tm (f # fs) msg dest =
     bindE (format_flag env tm f msg dest) (\<lambda>(f, msg, dest).
       bindE (format_flags env tm fs msg dest) (\<lambda>(fs, msg, dest). Inr (f # fs, msg, dest)))"

definition pf_time :: "log_env \<Rightarrow> log_record \<Rightarrow> pattern_formatter \<Rightarrow> pattern_formatter" where
  "pf_time env msg pf =
     (if pf_need_localtime pf then
        let secs = secs_of (msg_time msg)
        in if secs \<noteq> pf_last_log_secs pf
           then pf\<lparr>pf_cached_tm := get_time env (pf_time_type pf) msg, pf_last_log_secs := secs\<rparr>
           else pf
      else pf)"

definition pf_format :: "log_env \<Rightarrow> log_record \<Rightarrow> pattern_formatter \<Rightarrow> string \<Rightarrow> fault + pattern_formatter \<times> log_record \<times> string" where
  "pf_format env msg pf dest =
     (let pf = pf_time env msg pf
      in bindE (format_flags env (pf_cached_tm pf) (pf_formatters pf) msg dest)
           (\<lambda>(fs, msg, dest). Inr (pf\<lparr>pf_formatters := fs\<rparr>, msg, append_string_view (pf_eol pf) dest)))"

end
