(* ===== verification/Pattern_Lines.thy ===== *)
theory Pattern_Lines
  imports Pattern_Formatter
begin

text \<open>
  What spdlog's formatter prints: padding, literal text, the default line with and without its
  caches, the memory safety of every compiled pattern, and a flag whose announced size is not
  the size of its text.
\<close>

section \<open>Padding\<close>

lemma pad_it_eq: "count \<le> 64 \<Longrightarrow> pad_it count dest = Inr (dest @ replicate (nat count) (CHR '' ''))"
  by (simp add: pad_it_def spaces_def min_def)

lemma padded_Null [simp]: "padded Null p n f dest = Inr (f dest)"
  by (simp add: padded_def)

text \<open>What a field of a given width should look like.\<close>

definition pad_text :: "padding_info \<Rightarrow> string \<Rightarrow> string" where
  "pad_text p t =
     (let w = pad_width p; n = length t; sp = (\<lambda>k. replicate k (CHR '' '')) in
      if w \<le> n then (if pad_truncate p then take w t else t)
      else case pad_at p of
        PadLeft \<Rightarrow> sp (w - n) @ t
      | PadRight \<Rightarrow> t @ sp (w - n)
      | PadCenter \<Rightarrow> sp ((w - n) div 2) @ t @ sp (w - n - (w - n) div 2))"

lemma length_pad_text:
  "length (pad_text p t) = (if pad_truncate p then pad_width p else max (pad_width p) (length t))"
  by (auto simp: pad_text_def Let_def split: pad_side.split)

lemma half_rest: "(k :: int) div 2 + k mod 2 = k - k div 2"
  using div_mult_mod_eq [of k 2] by linarith

lemma padded_text:
  assumes w: "pad_width p \<le> 64"
  shows "padded Scoped p (length t) (append_string_view t) dest = Inr (dest @ pad_text p t)"
proof -
  define n where "n = length t"
  define r where "r = int (pad_width p) - int n"
  consider (cut) "r < 0" | (fits) "r = 0" | (pad) "0 < r" by linarith
  then show ?thesis
  proof cases
    case cut
    then have b: "scoped_padder_begin n p dest = Inr (r, dest)"
      by (simp add: scoped_padder_begin_def r_def Let_def)
    have "int (length (dest @ t)) + r = int (length dest + pad_width p)" by (simp add: r_def n_def)
    then have "take (nat (int (length (dest @ t)) + r)) (dest @ t) = dest @ take (pad_width p) t"
      by (simp only: nat_int) simp
    then show ?thesis
      using cut b by (auto simp: padded_def n_def [symmetric] scoped_padder_end_def append_string_view_def pad_text_def
          r_def Let_def)
  next
    case fits
    then show ?thesis
      by (simp add: padded_def scoped_padder_begin_def scoped_padder_end_def append_string_view_def pad_text_def
          pad_it_eq r_def n_def Let_def)
  next
    case pad
    have le: "r \<le> 64" using w by (simp add: r_def)
    have half: "r div 2 \<le> 64" "0 \<le> r div 2" "0 \<le> r - r div 2" "r - r div 2 \<le> 64" using pad le by linarith+
    have lt: "\<not> pad_width p \<le> n" using pad by (simp add: r_def)
    have n1: "nat r = pad_width p - n" using pad by (simp add: r_def nat_diff_distrib)
    have n2: "nat (r div 2) = (pad_width p - n) div 2" using n1 pad by (metis nat_div_distrib nat_numeral order_less_imp_le)
    have n3: "nat (r - r div 2) = pad_width p - n - (pad_width p - n) div 2"
      using half n1 n2 by (simp add: nat_diff_distrib)
    show ?thesis
      using pad le half n1 n2 n3 lt
      by (cases "pad_at p")
        (simp_all add: padded_def scoped_padder_begin_def scoped_padder_end_def append_string_view_def pad_text_def
          pad_it_eq half_rest r_def [symmetric] n_def [symmetric] Let_def del: length_0_conv)
  qed
qed

text \<open>
  A field takes the width its pattern asks for. With a width of at most 64, the message
  text is printed as it is, padded with spaces on the chosen side (in the middle, the odd
  space to the right) or, when it is longer, cut to the width exactly if the truncation mark
  was given; the buffer before it is never touched and nothing faults.
\<close>

theorem payload_field_width:
  assumes "pad_width p \<le> 64"
  shows "v_formatter Scoped p msg dest = Inr (dest @ pad_text p (msg_payload msg))
    \<and> length (pad_text p (msg_payload msg))
      = (if pad_truncate p then pad_width p else max (pad_width p) (length (msg_payload msg)))"
  by (simp add: v_formatter_def padded_text [OF assms] length_pad_text)

theorem payload_field_width_witness:
  "v_formatter Scoped (padding_of 6 PadCenter False) (log_record_new 1 0 no_source ''n'' Info ''abc'') ''>''
     = Inr ''> abc  ''"
proof -
  have "pad_text (padding_of 6 PadCenter False) ''abc'' = '' abc  ''" by code_simp
  then show ?thesis
    using payload_field_width [of "padding_of 6 PadCenter False" "log_record_new 1 0 no_source ''n'' Info ''abc''" "''>''"]
    by (simp add: padding_of_def log_record_new_def)
qed

section \<open>Literal text\<close>

fun escape :: "string \<Rightarrow> string" where
  "escape '''' = ''''"
| "escape (c # cs) = (if c = CHR ''%'' then ''%%'' @ escape cs else c # escape cs)"

text \<open>What a list of literal flags prints.\<close>

fun literal :: "flag \<Rightarrow> string option" where
  "literal (Text str) = Some str"
| "literal (Char c) = Some [c]"
| "literal _ = None"

lemma format_literal:
  "literal fl = Some t \<Longrightarrow> format_flag env tm fl msg dest = Inr (fl, msg, dest @ t)"
  by (cases fl) (auto simp: format_flag_def keep_def aggregate_formatter_def ch_formatter_def append_string_view_def)

lemma format_literals:
  "list_all (\<lambda>fl. literal fl \<noteq> None) fs \<Longrightarrow>
     format_flags env tm fs msg dest = Inr (fs, msg, dest @ concat (map (\<lambda>fl. the (literal fl)) fs))"
proof (induction fs arbitrary: dest)
  case (Cons f fs)
  then obtain t where "literal f = Some t" by auto
  then show ?case using Cons format_literal [of f t env tm msg dest] by simp
qed simp

lemma padding_none_off [simp]: "\<not> pad_enabled padding_none"
  by (simp add: padding_none_def)

lemma handle_padspec_percent: "handle_padspec (CHR ''%'' # cs) = (padding_none, CHR ''%'' # cs)"
  by (simp add: handle_padspec_def isdigit_def Let_def)

lemma compile_escape:
  assumes "custom (CHR ''%'') = None"
  shows "list_all (\<lambda>fl. literal fl \<noteq> None) (fst (compile_loop custom now (escape s) u))
    \<and> concat (map (\<lambda>fl. the (literal fl)) (fst (compile_loop custom now (escape s) u)))
      = (case u of None \<Rightarrow> '''' | Some t \<Rightarrow> t) @ s
    \<and> \<not> snd (compile_loop custom now (escape s) u)"
proof (induction s arbitrary: u)
  case Nil
  then show ?case by (cases u) (simp_all add: flush_chars_def)
next
  case (Cons c s)
  show ?case
  proof (cases "c = CHR ''%''")
    case True
    have flag: "handle_flag custom now Null (CHR ''%'') padding_none = ([Char (CHR ''%'')], False)"
      using assms by (simp add: handle_flag_def handle_builtin_flag_def handle_detail_flag_def)
    obtain rest need where r: "compile_loop custom now (escape s) None = (rest, need)" by fastforce
    then have "compile_loop custom now (escape (c # s)) u = (flush_chars u @ Char (CHR ''%'') # rest, need)"
      using True by (simp add: handle_padspec_percent flag Let_def)
    then show ?thesis using Cons.IH [of None] r True by (cases u) (simp_all add: flush_chars_def)
  next
    case False
    then show ?thesis using Cons.IH by (cases u) (simp_all add: aggregate_add_ch_def)
  qed
qed

text \<open>
  Literal text round-trips through a pattern. Whatever the text, the pattern in which each
  \<open>%\<close> is doubled prints exactly that text and the line end for every message, needs no
  broken-down time and never faults.
\<close>

theorem escaped_text_roundtrip:
  assumes "custom (CHR ''%'') = None"
  shows "map_sum id (snd \<circ> snd) (pf_format env msg (pattern_formatter_new now (escape s) tt eol custom) dest)
    = Inr (dest @ s @ eol)"
proof -
  obtain fs need where c: "compile_pattern custom now (escape s) = (fs, need)" by fastforce
  then have "list_all (\<lambda>fl. literal fl \<noteq> None) fs" "concat (map (\<lambda>fl. the (literal fl)) fs) = s" "\<not> need"
    using compile_escape [of custom now s None] assms by (simp_all add: compile_pattern_def)
  then show ?thesis
    by (simp add: pf_format_def pattern_formatter_new_def c pf_time_def format_literals append_string_view_def Let_def)
qed

definition plain_env :: log_env where
  "plain_env = \<lparr>env_pid = 1, env_utc_minutes_offset = (\<lambda>_. 0), env_localtime = (\<lambda>_. zero_tm),
     env_gmtime = (\<lambda>_. zero_tm), env_mdc = []\<rparr>"

theorem escaped_text_roundtrip_witness:
  "map_sum id (snd \<circ> snd) (pf_format plain_env (log_record_new 1 0 no_source ''n'' Info ''abc'')
     (pattern_formatter_new 0 ''100%% [%%v]'' Local default_eol Map.empty) '''') = Inr (''100% [%v]'' @ [CHR 0x0A])"
  using escaped_text_roundtrip [of Map.empty plain_env _ 0 "''100% [%v]''" Local default_eol]
  by (simp add: default_eol_def)

section \<open>The default line\<close>

lemma pad2_append: "pad2 n dest = dest @ pad2 n ''''"
  by (simp add: pad2_def)

lemma pad3_append: "pad3 n dest = dest @ pad3 n ''''"
  by (simp add: pad3_def)

lemma pad_uint_append: "pad_uint n w dest = dest @ pad_uint n w ''''"
  by (simp add: pad_uint_def)

definition millis_text :: "log_record \<Rightarrow> string" where
  "millis_text msg = pad3 (to_u32 (time_fraction 1000000 (msg_time msg))) ''''"

fun mdc_text :: "(string \<times> string) list \<Rightarrow> string" where
  "mdc_text [] = ''''"
| "mdc_text ((key, val) # rest) = key @ '':'' @ val @ (if rest = [] then '''' else '' '' @ mdc_text rest)"

text \<open>The line a message should give, from the message and its broken-down time alone.\<close>

definition line_tail :: "(string \<times> string) list \<Rightarrow> log_record \<Rightarrow> string" where
  "line_tail mdc msg =
     millis_text msg @ ''] ''
     @ (if length (msg_logger_name msg) > 0 then ''['' @ msg_logger_name msg @ ''] '' else '''')
     @ ''['' @ to_string_view (msg_level msg) @ ''] ''
     @ (if \<not> source_empty (msg_source msg)
        then ''['' @ basename (src_filename (msg_source msg)) @ '':'' @ show_int (src_line (msg_source msg)) @ ''] ''
        else '''')
     @ (if mdc \<noteq> [] then ''['' @ mdc_text mdc @ ''] '' else '''')
     @ msg_payload msg"

definition full_line :: "(string \<times> string) list \<Rightarrow> tm \<Rightarrow> log_record \<Rightarrow> string" where
  "full_line mdc tm msg = full_datetime tm @ line_tail mdc msg"

lemma format_mdc_Null: "format_mdc Null p mdc dest = Inr (dest @ mdc_text mdc)"
  by (induction Null p mdc dest rule: format_mdc.induct) (auto simp: append_string_view_def Let_def)


lemma pad3_millis: "pad3 (to_u32 (time_fraction 1000000 (msg_time msg))) dest = dest @ millis_text msg"
  by (subst pad3_append) (simp add: millis_text_def)


lemma full_formatter_eq:
  "\<exists>msg'. full_formatter mdc msg tm cache dest
     = Inr (full_cache msg tm cache, msg', dest @ snd (full_cache msg tm cache) @ line_tail mdc msg)"
  by (cases "msg_logger_name msg = ''''"; cases "source_empty (msg_source msg)"; cases "mdc = []")
    (simp_all add: full_formatter_def pad3_millis append_string_view_def append_int_def format_mdc_Null line_tail_def
      Let_def split del: bindE_split)

lemma full_datetime_nonempty [simp]: "full_datetime tm \<noteq> ''''"
  by (simp add: full_datetime_def)

definition time_at :: "log_env \<Rightarrow> pattern_time_type \<Rightarrow> int \<Rightarrow> tm" where
  "time_at env tt secs = (case tt of Local \<Rightarrow> env_localtime env secs | Utc \<Rightarrow> env_gmtime env secs)"

lemma get_time_eq: "get_time env tt msg = time_at env tt (secs_of (msg_time msg))"
  by (simp add: get_time_def time_at_def split: pattern_time_type.split)

text \<open>Both caches hold the values of the second they are stamped with.\<close>

definition cache_inv :: "log_env \<Rightarrow> pattern_time_type \<Rightarrow> string \<Rightarrow> pattern_formatter \<Rightarrow> bool" where
  "cache_inv env tt eol pf \<longleftrightarrow>
     pf_need_localtime pf \<and> pf_time_type pf = tt \<and> pf_eol pf = eol
     \<and> (pf_last_log_secs pf = 0 \<or> pf_cached_tm pf = time_at env tt (pf_last_log_secs pf))
     \<and> (\<exists>secs text. pf_formatters pf = [Full (secs, text)] \<and> (text = '''' \<or> text = full_datetime (time_at env tt secs)))"

lemma cached_format:
  assumes inv: "cache_inv env tt eol pf" and secs: "secs_of (msg_time msg) \<noteq> 0"
  shows "\<exists>pf' msg'. pf_format env msg pf dest
      = Inr (pf', msg', dest @ full_line (env_mdc env) (time_at env tt (secs_of (msg_time msg))) msg @ eol)
    \<and> cache_inv env tt eol pf'"
proof -
  let ?s = "secs_of (msg_time msg)" let ?tm = "time_at env tt ?s" let ?pf = "pf_time env msg pf"
  have tm: "pf_cached_tm ?pf = ?tm" "pf_last_log_secs ?pf = ?s"
    using inv secs by (auto simp: cache_inv_def pf_time_def get_time_eq Let_def)
  have keep: "pf_formatters ?pf = pf_formatters pf" "pf_eol ?pf = eol" "pf_need_localtime ?pf" "pf_time_type ?pf = tt"
    using inv by (simp_all add: cache_inv_def pf_time_def Let_def)
  obtain secs' dt where fs: "pf_formatters pf = [Full (secs', dt)]"
      and dt: "dt = '''' \<or> dt = full_datetime (time_at env tt secs')"
    using inv by (auto simp: cache_inv_def)
  have cache: "full_cache msg ?tm (secs', dt) = (?s, full_datetime ?tm)"
    using dt by (auto simp: full_cache_def Let_def)
  obtain msg' where full: "full_formatter (env_mdc env) msg ?tm (secs', dt) dest
      = Inr ((?s, full_datetime ?tm), msg', dest @ full_line (env_mdc env) ?tm msg)"
    using full_formatter_eq [of "env_mdc env" msg ?tm "(secs', dt)" dest] unfolding cache full_line_def by auto
  then have "pf_format env msg pf dest = Inr (?pf\<lparr>pf_formatters := [Full (?s, full_datetime ?tm)]\<rparr>, msg',
      dest @ full_line (env_mdc env) ?tm msg @ eol)"
    using keep tm fs by (simp add: pf_format_def format_flag_def append_string_view_def Let_def)
  moreover have "cache_inv env tt eol (?pf\<lparr>pf_formatters := [Full (?s, full_datetime ?tm)]\<rparr>)"
    using keep tm by (simp add: cache_inv_def)
  ultimately show ?thesis by blast
qed

fun format_all :: "log_env \<Rightarrow> pattern_formatter \<Rightarrow> log_record list \<Rightarrow> fault + string list" where
  "format_all env pf [] = Inr []"
| "format_all env pf (m # ms) =
     bindE (pf_format env m pf '''') (\<lambda>(pf, _, line). bindE (format_all env pf ms) (\<lambda>lines. Inr (line # lines)))"

lemma format_all_cached:
  "cache_inv env tt eol pf \<Longrightarrow> \<forall>m \<in> set ms. secs_of (msg_time m) \<noteq> 0 \<Longrightarrow>
     format_all env pf ms
       = Inr (map (\<lambda>m. full_line (env_mdc env) (time_at env tt (secs_of (msg_time m))) m @ eol) ms)"
proof (induction ms arbitrary: pf)
  case (Cons m ms)
  obtain pf' msg' where "pf_format env m pf ''''
      = Inr (pf', msg', full_line (env_mdc env) (time_at env tt (secs_of (msg_time m))) m @ eol)"
      "cache_inv env tt eol pf'"
    using cached_format [OF Cons.prems(1), of m "''''"] Cons.prems(2) by auto
  then show ?case using Cons.IH [of pf'] Cons.prems(2) by simp
qed simp

text \<open>
  C23: The log file's lines are what they would be without caching. The default formatter, which
  the client's file sink uses, keeps the broken-down time of the last second and the text of
  it between messages; for every sequence of messages, in any order of their times, each
  line is the reference line of that message alone: date and time of its own second, its
  milliseconds, logger, level, source and text. The messages of the second 0 of the epoch
  are the exception: the caches are stamped 0 before anything is in them.
\<close>

theorem default_lines_are_uncached:
  assumes "\<forall>m \<in> set msgs. secs_of (msg_time m) \<noteq> 0"
  shows "format_all env (pattern_formatter_default tt eol) msgs
    = Inr (map (\<lambda>m. full_line (env_mdc env) (time_at env tt (secs_of (msg_time m))) m @ eol) msgs)"
  by (rule format_all_cached [OF _ assms]) (simp add: cache_inv_def pattern_formatter_default_def)

theorem default_lines_are_uncached_witness:
  "format_all plain_env (pattern_formatter_default Local default_eol)
     [log_record_new 1 1500000000 no_source ''c'' Info ''hi'', log_record_new 1 1501000000 no_source '''' Err ''x'']
   = Inr [''[1900-01-00 00:00:00.500] [c] [info] hi'' @ default_eol, ''[1900-01-00 00:00:00.501] [error] x'' @ default_eol]"
proof -
  let ?ms = "[log_record_new 1 1500000000 no_source ''c'' Info ''hi'', log_record_new 1 1501000000 no_source '''' Err ''x'']"
  have "\<forall>m \<in> set ?ms. secs_of (msg_time m) \<noteq> 0"
    by (simp add: log_record_new_def secs_of_def cdiv_def nanos_per_second_def)
  from default_lines_are_uncached [OF this, of plain_env Local default_eol] show ?thesis
    by (simp add: plain_env_def full_line_def line_tail_def millis_text_def full_datetime_def log_record_new_def
        append_int_def show_int_def show_nat.simps pad2_def pad3_def digit_def zero_tm_def time_at_def
        time_fraction_def secs_of_def cdiv_def nanos_per_second_def to_u32_def to_string_view_def
        level_string_views_def no_source_def source_empty_def Let_def)
qed

text \<open>The exception: the first second of the epoch is printed with an empty date.\<close>

lemma epoch_second_is_stale:
  "secs_of (msg_time m) = 0 \<Longrightarrow>
     format_all env (pattern_formatter_default tt eol) [m] = Inr [full_line (env_mdc env) zero_tm m @ eol]"
  using full_formatter_eq [of "env_mdc env" m zero_tm "(0, '''')" "''''"]
  by (auto simp: pattern_formatter_default_def pf_format_def pf_time_def format_flag_def full_cache_def full_line_def
      append_string_view_def Let_def)

section \<open>The documented pattern\<close>

definition documented_pattern :: string where
  "documented_pattern = ''[%Y-%m-%d %H:%M:%S.%e] [%n] [%l] [%s:%#] %v''"

lemma compile_documented:
  "compile_pattern Map.empty now documented_pattern =
     ([Text ''['', Year4 Null padding_none, Text ''-'', MonthNum Null padding_none, Text ''-'',
       MonthDay Null padding_none, Text '' '', Hour24 Null padding_none, Text '':'', Minute Null padding_none,
       Text '':'', Second Null padding_none, Text ''.'', Millis Null padding_none, Text ''] ['',
       Name Null padding_none, Text ''] ['', Level Null padding_none, Text ''] ['',
       ShortFilename Null padding_none, Text '':'', SourceLine Null padding_none, Text ''] '',
       Payload Null padding_none], True)"
  by (simp add: compile_pattern_def documented_pattern_def handle_padspec_def isdigit_def handle_flag_def
      handle_builtin_flag_def handle_detail_flag_def flush_chars_def aggregate_add_ch_def Let_def)

text \<open>
  The default format is the pattern its comment names. For a message with a logger name and
  a source location, outside of any diagnostic context, the hand-written \<open>full_formatter\<close> and
  the compiled pattern \<open>[%Y-%m-%d %H:%M:%S.%e] [%n] [%l] [%s:%#] %v\<close> print the same line.
\<close>

theorem full_formatter_is_documented_pattern:
  assumes "msg_logger_name msg \<noteq> ''''" and "\<not> source_empty (msg_source msg)" and "env_mdc env = []"
  shows "map_sum id (snd \<circ> snd) (pf_format env msg (pattern_formatter_default tt eol) dest)
    = map_sum id (snd \<circ> snd) (pf_format env msg (pattern_formatter_new now documented_pattern tt eol Map.empty) dest)"
proof -
  let ?tm = "pf_cached_tm (pf_time env msg (pattern_formatter_default tt eol))"
  have tm: "pf_cached_tm (pf_time env msg (pattern_formatter_new now documented_pattern tt eol Map.empty)) = ?tm"
    by (simp add: pf_time_def pattern_formatter_new_def pattern_formatter_default_def compile_documented Let_def)
  have new: "pf_formatters (pf_time env msg (pattern_formatter_new now documented_pattern tt eol Map.empty))
        = fst (compile_pattern Map.empty now documented_pattern)"
      "pf_eol (pf_time env msg (pattern_formatter_new now documented_pattern tt eol Map.empty)) = eol"
    by (simp_all add: pf_time_def pattern_formatter_new_def compile_documented Let_def)
  have old: "pf_formatters (pf_time env msg (pattern_formatter_default tt eol)) = [Full (0, '''')]"
      "pf_eol (pf_time env msg (pattern_formatter_default tt eol)) = eol"
    by (simp_all add: pf_time_def pattern_formatter_default_def Let_def)
  have cache: "snd (full_cache msg ?tm (0, '''')) = full_datetime ?tm"
    by (simp add: full_cache_def Let_def)
  have "map_sum id (snd \<circ> snd) (pf_format env msg (pattern_formatter_default tt eol) dest)
      = Inr (dest @ full_line [] ?tm msg @ eol)"
    using full_formatter_eq [of "env_mdc env" msg ?tm "(0, '''')" dest] assms(3)
    by (auto simp: pf_format_def old format_flag_def append_string_view_def full_line_def cache Let_def)
  moreover have "map_sum id (snd \<circ> snd) (pf_format env msg (pattern_formatter_new now documented_pattern tt eol Map.empty) dest)
      = Inr (dest @ full_line [] ?tm msg @ eol)"
    using assms
    by (simp add: pf_format_def new tm compile_documented format_flag_def keep_def Y_formatter_def m_formatter_def
        d_formatter_def H_formatter_def M_formatter_def S_formatter_def e_formatter_def name_formatter_def
        level_formatter_def short_filename_formatter_def source_linenum_formatter_def v_formatter_def
        aggregate_formatter_def append_string_view_def append_int_def full_line_def full_datetime_def line_tail_def
        pad3_millis pad2_append [of _ "_ # _"] pad2_append [of _ "_ @ _"] Let_def)
  ultimately show ?thesis by simp
qed

theorem full_formatter_is_documented_pattern_witness:
  "map_sum id (snd \<circ> snd) (pf_format plain_env (log_record_new 1 0 \<lparr>src_filename = ''a/b.c'', src_line = 7, src_funcname = ''f''\<rparr>
       ''n'' Info ''hi'') (pattern_formatter_default Utc default_eol) ''>'')
   = map_sum id (snd \<circ> snd) (pf_format plain_env (log_record_new 1 0 \<lparr>src_filename = ''a/b.c'', src_line = 7, src_funcname = ''f''\<rparr>
       ''n'' Info ''hi'') (pattern_formatter_new 0 documented_pattern Utc default_eol Map.empty) ''>'')"
  by (rule full_formatter_is_documented_pattern) (simp_all add: log_record_new_def source_empty_def plain_env_def)

section \<open>Memory safety of compiled patterns\<close>

fun paddings :: "flag \<Rightarrow> padding_info list" where
  "paddings (Full c) = []"
| "paddings ColorStart = []"
| "paddings ColorStop = []"
| "paddings (Char c) = []"
| "paddings (Text s) = []"
| "paddings (Custom f p) = [p]"
| "paddings (Zone k p c) = [p]"
| "paddings (Elapsed u k p t) = [p]"
| "paddings (Name k p) = [p]"
| "paddings (Level k p) = [p]"
| "paddings (ShortLevel k p) = [p]"
| "paddings (ThreadId k p) = [p]"
| "paddings (Payload k p) = [p]"
| "paddings (Weekday k p) = [p]"
| "paddings (FullWeekday k p) = [p]"
| "paddings (Month k p) = [p]"
| "paddings (FullMonth k p) = [p]"
| "paddings (DateTime k p) = [p]"
| "paddings (Year2 k p) = [p]"
| "paddings (Year4 k p) = [p]"
| "paddings (ShortDate k p) = [p]"
| "paddings (MonthNum k p) = [p]"
| "paddings (MonthDay k p) = [p]"
| "paddings (Hour24 k p) = [p]"
| "paddings (Hour12 k p) = [p]"
| "paddings (Minute k p) = [p]"
| "paddings (Second k p) = [p]"
| "paddings (Millis k p) = [p]"
| "paddings (Micros k p) = [p]"
| "paddings (Nanos k p) = [p]"
| "paddings (EpochSecs k p) = [p]"
| "paddings (AmPm k p) = [p]"
| "paddings (Clock12 k p) = [p]"
| "paddings (Clock24 k p) = [p]"
| "paddings (IsoTime k p) = [p]"
| "paddings (Pid k p) = [p]"
| "paddings (SourceLocation k p) = [p]"
| "paddings (ShortFilename k p) = [p]"
| "paddings (SourceFilename k p) = [p]"
| "paddings (SourceLine k p) = [p]"
| "paddings (SourceFunc k p) = [p]"
| "paddings (Mdc k p) = [p]"

definition narrow :: "flag \<Rightarrow> bool" where
  "narrow fl \<longleftrightarrow> list_all (\<lambda>p. pad_width p \<le> 64) (paddings fl) \<and> (\<forall>f p. fl \<noteq> Custom f p)"

lemma padspec_narrow: "pad_width (fst (handle_padspec it)) \<le> 64"
proof -
  have "unat (min w max_width) \<le> 64" for w
  proof -
    have "min w max_width \<le> max_width" by (rule min.cobounded2)
    then have "unat (min w max_width) \<le> unat max_width" by (simp add: word_le_nat_alt)
    then show ?thesis by (simp add: max_width_def)
  qed
  then show ?thesis
    by (auto simp: handle_padspec_def padding_none_def padding_of_def Let_def split: list.split)
qed

definition narrow_result :: "flag list \<times> bool \<Rightarrow> bool" where
  "narrow_result r \<longleftrightarrow> list_all narrow (fst r)"

lemma narrow_if: "narrow_result x \<Longrightarrow> narrow_result y \<Longrightarrow> narrow_result (if b then x else y)"
  by simp

lemma builtin_flags_narrow: "pad_width p \<le> 64 \<Longrightarrow> narrow_result (handle_builtin_flag now k c p)"
  unfolding handle_builtin_flag_def handle_detail_flag_def
  by (intro narrow_if) (simp_all add: narrow_result_def narrow_def)

lemma compile_narrow: "list_all narrow (fst (compile_loop Map.empty now s u))"
proof (induction "Map.empty :: char \<rightharpoonup> custom_flag" now s u rule: compile_loop.induct)
  case (1 now u)
  then show ?case by (cases u) (simp_all add: flush_chars_def narrow_def)
next
  case (2 now c cs u)
  have flush: "list_all narrow (flush_chars u)" by (cases u) (simp_all add: flush_chars_def narrow_def)
  show ?case
  proof (cases "c = CHR ''%''")
    case True
    obtain p it where ps: "handle_padspec cs = (p, it)" by fastforce
    have p: "pad_width p \<le> 64" using padspec_narrow [of cs] ps by simp
    show ?thesis
    proof (cases it)
      case Nil
      then show ?thesis using True ps flush by simp
    next
      case (Cons f it')
      let ?k = "if pad_enabled p then Scoped else Null"
      obtain fs need where h: "handle_flag Map.empty now ?k f p = (fs, need)" by fastforce
      then have "list_all narrow fs"
        using builtin_flags_narrow [OF p, of now ?k f] by (simp add: handle_flag_def narrow_result_def)
      moreover obtain rest need' where r: "compile_loop Map.empty now it' None = (rest, need')" by fastforce
      moreover have "list_all narrow rest"
        using 2(1) [OF True ps [symmetric] refl Cons] h r by (metis fst_conv)
      ultimately show ?thesis using True ps Cons h flush by simp
    qed
  next
    case False
    then show ?thesis using 2(2) by simp
  qed
qed

text \<open>
  The safety predicate on results: no read out of bounds, and what is returned satisfies \<open>Q\<close>.
\<close>

definition in_bounds :: "('a \<Rightarrow> bool) \<Rightarrow> fault + 'a \<Rightarrow> bool" where
  "in_bounds Q r \<longleftrightarrow> (case r of Inl e \<Rightarrow> e \<noteq> OutOfBoundsRead | Inr a \<Rightarrow> Q a)"

lemma in_bounds_simps [simp]:
  "in_bounds Q (Inl e) = (e \<noteq> OutOfBoundsRead)" "in_bounds Q (Inr a) = Q a"
  by (simp_all add: in_bounds_def)

lemma in_bounds_bind: "in_bounds P r \<Longrightarrow> (\<And>a. P a \<Longrightarrow> in_bounds Q (f a)) \<Longrightarrow> in_bounds Q (bindE r f)"
  by (cases r) simp_all

lemma in_bounds_mono: "in_bounds P r \<Longrightarrow> (\<And>a. P a \<Longrightarrow> Q a) \<Longrightarrow> in_bounds Q r"
  by (cases r) simp_all

abbreviation ok :: "fault + 'a \<Rightarrow> bool" where "ok r \<equiv> in_bounds (\<lambda>_. True) r"

lemma padded_ok: "pad_width p \<le> 64 \<Longrightarrow> ok (padded k p n f dest)"
proof (cases k)
  case Scoped
  assume w: "pad_width p \<le> 64"
  let ?r = "int (pad_width p) - int n"
  have half: "?r div 2 \<le> 64" "?r div 2 + ?r mod 2 \<le> 64" if "0 < ?r"
    using w that half_rest [of ?r] by linarith+
  have b: "in_bounds (\<lambda>(r, d). r \<le> 64) (scoped_padder_begin n p dest)"
    using w half by (auto simp: scoped_padder_begin_def pad_it_eq Let_def split: pad_side.split)
  have e: "ok (scoped_padder_end r p d)" if "r \<le> 64" for r d
    using that by (simp add: scoped_padder_end_def pad_it_eq Let_def)
  show ?thesis
    unfolding padded_def Scoped padder.case by (rule in_bounds_bind [OF b]) (auto intro: e)
qed simp

lemma name_at_ok: "0 \<le> i \<Longrightarrow> i < int (length ns) \<Longrightarrow> ok (name_at ns i)"
  by (simp add: name_at_def)

definition valid_tm :: "tm \<Rightarrow> bool" where
  "valid_tm tm \<longleftrightarrow> 0 \<le> tm_wday tm \<and> tm_wday tm < 7 \<and> 0 \<le> tm_mon tm \<and> tm_mon tm < 12"

lemma names_ok:
  "valid_tm tm \<Longrightarrow> ok (name_at days (tm_wday tm)) \<and> ok (name_at full_days (tm_wday tm))
     \<and> ok (name_at months (tm_mon tm)) \<and> ok (name_at full_months (tm_mon tm))"
  by (simp add: valid_tm_def name_at_ok days_def full_days_def months_def full_months_def)

lemma format_mdc_ok: "pad_width p \<le> 64 \<Longrightarrow> ok (format_mdc k p mdc dest)"
proof (induction k p mdc dest rule: format_mdc.induct)
  case (2 k p key val rest dest)
  show ?case unfolding format_mdc.simps Let_def
    by (rule in_bounds_bind [OF padded_ok [OF 2(2)]]) (rule 2(1) [OF refl refl 2(2)])
qed simp

lemmas formatter_defs = name_formatter_def level_formatter_def short_level_formatter_def t_formatter_def
  v_formatter_def C_formatter_def Y_formatter_def D_formatter_def m_formatter_def d_formatter_def H_formatter_def
  I_formatter_def M_formatter_def S_formatter_def e_formatter_def f_formatter_def F_formatter_def E_formatter_def
  p_formatter_def r_formatter_def R_formatter_def T_formatter_def pid_formatter_def ch_formatter_def
  aggregate_formatter_def source_location_formatter_def source_filename_formatter_def short_filename_formatter_def
  source_linenum_formatter_def source_funcname_formatter_def mdc_formatter_def

lemma calendar_ok:
  assumes "pad_width p \<le> 64" "valid_tm tm"
  shows "ok (a_formatter k p tm dest)" "ok (A_formatter k p tm dest)" "ok (b_formatter k p tm dest)"
    "ok (B_formatter k p tm dest)" "ok (c_formatter k p tm dest)"
  unfolding a_formatter_def A_formatter_def b_formatter_def B_formatter_def c_formatter_def
  using names_ok [OF assms(2)] padded_ok [OF assms(1)] by (blast intro: in_bounds_bind)+

lemma in_bounds_keep: "in_bounds Q (keep fl msg r) = in_bounds (\<lambda>dest. Q (fl, msg, dest)) r"
  by (cases r) (simp_all add: keep_def)

lemma full_narrow: "in_bounds (\<lambda>(fl, _, _). narrow fl) (format_flag env tm (Full c) msg dest)"
  using full_formatter_eq [of "env_mdc env" msg tm c dest] by (auto simp: format_flag_def narrow_def)

lemma zone_narrow: "pad_width p \<le> 64 \<Longrightarrow> in_bounds (\<lambda>(fl, _, _). narrow fl) (format_flag env tm (Zone k p c) msg dest)"
proof -
  assume w: "pad_width p \<le> 64"
  have "ok (z_formatter (env_utc_minutes_offset env) k p msg tm c dest)"
    unfolding z_formatter_def Let_def by (rule in_bounds_bind [OF padded_ok [OF w]]) simp
  then show ?thesis unfolding format_flag_def flag.case
    by (rule in_bounds_bind) (use w in \<open>simp add: narrow_def split: prod.split\<close>)
qed

lemma elapsed_narrow: "pad_width p \<le> 64 \<Longrightarrow> in_bounds (\<lambda>(fl, _, _). narrow fl) (format_flag env tm (Elapsed u k p t) msg dest)"
proof -
  assume w: "pad_width p \<le> 64"
  have "ok (elapsed_formatter u k p msg t dest)"
    unfolding elapsed_formatter_def Let_def by (rule in_bounds_bind [OF padded_ok [OF w]]) simp
  then show ?thesis unfolding format_flag_def flag.case
    by (rule in_bounds_bind) (use w in \<open>simp add: narrow_def split: prod.split\<close>)
qed

lemma format_flag_narrow:
  assumes "narrow fl" "valid_tm tm"
  shows "in_bounds (\<lambda>(fl, _, _). narrow fl) (format_flag env tm fl msg dest)"
proof (cases fl)
  case (Full c) then show ?thesis by (simp add: full_narrow)
next
  case (Zone k p c) then show ?thesis using assms zone_narrow by (simp add: narrow_def)
next
  case (Elapsed u k p t) then show ?thesis using assms elapsed_narrow by (simp add: narrow_def)
next
  case (Custom f p) then show ?thesis using assms by (simp add: narrow_def)
next
  case ColorStart then show ?thesis using assms by (simp add: format_flag_def)
next
  case ColorStop then show ?thesis using assms by (simp add: format_flag_def)
qed (use assms in \<open>simp_all add: format_flag_def in_bounds_keep narrow_def formatter_defs padded_ok calendar_ok
    format_mdc_ok Let_def\<close>)

lemma format_flags_narrow:
  "list_all narrow fs \<Longrightarrow> valid_tm tm \<Longrightarrow>
     in_bounds (\<lambda>(fs, _, _). list_all narrow fs) (format_flags env tm fs msg dest)"
proof (induction fs arbitrary: msg dest)
  case (Cons f fs)
  then have f: "narrow f" "list_all narrow fs" "valid_tm tm" by simp_all
  show ?case unfolding format_flags.simps
  proof (rule in_bounds_bind [OF format_flag_narrow [OF f(1,3)]], clarify)
    fix f' m d
    assume "narrow f'"
    then show "in_bounds (\<lambda>(fs, _, _). list_all narrow fs)
        (bindE (format_flags env tm fs m d) (\<lambda>(fs, msg, dest). Inr (f' # fs, msg, dest)))"
      by (intro in_bounds_bind [OF Cons.IH [OF f(2,3)]]) auto
  qed
qed simp

definition narrow_formatter :: "pattern_formatter \<Rightarrow> bool" where
  "narrow_formatter pf \<longleftrightarrow> list_all narrow (pf_formatters pf) \<and> valid_tm (pf_cached_tm pf)"

lemma pf_format_narrow:
  assumes "narrow_formatter pf" "\<And>secs tt. valid_tm (time_at env tt secs)"
  shows "in_bounds (\<lambda>(pf, _, _). narrow_formatter pf) (pf_format env msg pf dest)"
proof -
  have t: "narrow_formatter (pf_time env msg pf)"
    using assms by (simp add: pf_time_def narrow_formatter_def get_time_eq Let_def)
  then have "list_all narrow (pf_formatters (pf_time env msg pf))" "valid_tm (pf_cached_tm (pf_time env msg pf))"
    by (simp_all add: narrow_formatter_def)
  from format_flags_narrow [OF this] show ?thesis
    unfolding pf_format_def Let_def by (rule in_bounds_bind) (use t in \<open>auto simp: narrow_formatter_def\<close>)
qed

lemma format_all_narrow:
  "narrow_formatter pf \<Longrightarrow> (\<And>secs tt. valid_tm (time_at env tt secs)) \<Longrightarrow> ok (format_all env pf ms)"
proof (induction ms arbitrary: pf)
  case (Cons m ms)
  show ?case unfolding format_all.simps
  proof (rule in_bounds_bind [OF pf_format_narrow [OF Cons.prems]], clarify)
    fix pf' m' line
    assume "narrow_formatter pf'"
    from Cons.IH [OF this Cons.prems(2)]
    show "ok (bindE (format_all env pf' ms) (\<lambda>lines. Inr (line # lines)))" by (rule in_bounds_bind) simp
  qed
qed simp

text \<open>
  C24: No pattern makes the formatter read outside of its tables. For every pattern text
  (nonsense, numbers that overflow \<open>size_t\<close>, cut short) without custom flags, and every
  sequence of messages, no read leaves the 64 spaces of the padder or the arrays of day
  and month names, provided the system's broken-down times have a weekday below 7 and a
  month below 12. The only fault left is a truncation longer than the buffer.
\<close>

theorem patterns_read_in_bounds:
  assumes "\<And>secs tt. valid_tm (time_at env tt secs)"
  shows "format_all env (pattern_formatter_new now pattern tt eol Map.empty) msgs \<noteq> Inl OutOfBoundsRead"
proof -
  have "narrow_formatter (pattern_formatter_new now pattern tt eol Map.empty)"
    using compile_narrow [of now pattern None]
    by (cases "compile_loop Map.empty now pattern None")
      (simp add: narrow_formatter_def pattern_formatter_new_def compile_pattern_def zero_tm_def valid_tm_def)
  from format_all_narrow [OF this assms, of msgs] show ?thesis by (auto simp: in_bounds_def split: sum.splits)
qed

theorem patterns_read_in_bounds_witness:
  "format_all plain_env (pattern_formatter_new 0 ''%18446744073709551700!v%-99n%='' Utc default_eol Map.empty)
     [log_record_new 1 0 no_source ''n'' Info ''hi''] \<noteq> Inl OutOfBoundsRead"
  by (rule patterns_read_in_bounds)
    (simp add: time_at_def plain_env_def valid_tm_def zero_tm_def split: pattern_time_type.split)

section \<open>A flag with the wrong size\<close>

text \<open>What the padder makes of a block that appends \<open>m\<close> bytes and announced \<open>n\<close>.\<close>

lemma padded_length:
  assumes f: "\<And>d. length (f d) = length d + m" and w: "pad_width p \<le> 64" "n \<le> pad_width p"
  shows "map_sum id length (padded Scoped p n f dest) = Inr (length dest + m + (pad_width p - n))"
proof -
  define r where "r = int (pad_width p) - int n"
  have r: "0 \<le> r" "r \<le> 64" "nat r = pad_width p - n" using w by (simp_all add: r_def)
  have half: "r div 2 \<le> 64" "0 \<le> r div 2" "0 \<le> r - r div 2" "r - r div 2 \<le> 64" using r by linarith+
  have "nat (r div 2) + nat (r - r div 2) = nat (r div 2 + (r - r div 2))" using half by (intro nat_add_distrib [symmetric])
  then have sum: "nat (r div 2) + nat (r - r div 2) = pad_width p - n" using r(3) by simp
  show ?thesis
  proof (cases "r = 0")
    case True
    then have "scoped_padder_begin n p dest = Inr (0, dest)" "pad_width p - n = 0"
      using r(3) by (simp_all add: scoped_padder_begin_def r_def [symmetric])
    then show ?thesis by (simp add: padded_def scoped_padder_end_def pad_it_eq f)
  next
    case False
    then show ?thesis
      using r half sum w(2)
      by (cases "pad_at p"; simp add: padded_def scoped_padder_begin_def scoped_padder_end_def pad_it_eq f half_rest
          r_def [symmetric] Let_def; linarith)
  qed
qed

lemma padded_cut_too_much:
  assumes "\<And>d. length (f d) = length d + m" "pad_width p < n" "pad_truncate p"
    "length dest + m < n - pad_width p"
  shows "padded Scoped p n f dest = Inl LengthError"
  using assms by (simp add: padded_def scoped_padder_begin_def scoped_padder_end_def Let_def)

lemma length_pad2: "0 \<le> n \<Longrightarrow> n < 100 \<Longrightarrow> length (pad2 n dest) = length dest + 2"
  by (simp add: pad2_def)

lemma cmod_range: "0 \<le> a \<Longrightarrow> 0 < b \<Longrightarrow> 0 \<le> cmod a b \<and> cmod a b < b"
  by (simp add: cmod_def cdiv_def minus_div_mult_eq_mod)

text \<open>
  The short date is padded as if it had ten characters. \<open>%D\<close> prints eight, \<open>MM/DD/YY\<close>,
  but tells the padder ten: with a width \<open>w\<close> of 10 to 64 the field comes out two characters
  short, and a truncating \<open>%1!D\<close> at the start of a line removes nine of the eight characters:
  the new size wraps to nearly \<open>2 ^ 64\<close> and the resize throws inside a destructor.
\<close>

theorem short_date_padding_off_by_two:
  assumes "0 \<le> tm_mon tm" and "tm_mon tm < 12" and "1 \<le> tm_mday tm" and "tm_mday tm \<le> 31" and "0 \<le> tm_year tm"
    and "10 \<le> w" and "w \<le> 64"
  shows "map_sum id length (D_formatter Scoped (padding_of w sd tr) tm dest) = Inr (length dest + w - 2)
    \<and> D_formatter Scoped (padding_of 1 sd True) tm '''' = Inl LengthError"
proof -
  have body: "length (short_date tm d) = length d + 8" for d
    using assms(1-5) cmod_range [of "tm_year tm" 100] by (simp add: short_date_def length_pad2 Let_def)
  show ?thesis
    using padded_length [of "short_date tm" 8 "padding_of w sd tr" 10 dest, OF body] assms(6,7)
      padded_cut_too_much [of "short_date tm" 8 "padding_of 1 sd True" 10 "''''", OF body]
    by (simp add: D_formatter_def padding_of_def)
qed

definition new_year :: tm where
  "new_year = \<lparr>tm_sec = 0, tm_min = 0, tm_hour = 0, tm_mday = 1, tm_mon = 0, tm_year = 125, tm_wday = 3, tm_yday = 0\<rparr>"

theorem short_date_padding_off_by_two_witness:
  "map_sum id length (D_formatter Scoped (padding_of 10 PadLeft False) new_year ''['') = Inr 9
   \<and> D_formatter Scoped (padding_of 1 PadRight True) new_year '''' = Inl LengthError"
  using short_date_padding_off_by_two [of new_year 10 PadLeft False "''[''"]
    short_date_padding_off_by_two [of new_year 10 PadRight False "''''"]
  by (simp add: new_year_def)

end
