(* ===== verification/Remote_Threads.thy ===== *)
theory Remote_Threads
  imports Client_Sessions
begin

text \<open>
  The two threads of the relay connection at the end of a connection, statement by statement
  (\<open>connection_remoteserver.cpp\<close>, \<open>listenForRemoteServerData\<close> lines 141 to 144 and
  \<open>remoteServerConnectorLoop\<close> with \<open>connectToRemoteServer\<close>, lines 67 to 77). The listener
  clears the flags first and closes the socket last, through the global variable; the connector
  polls the flag and writes the same variable. The steps of the two threads interleave freely;
  the atomic flags and the plain \<open>SOCKET\<close> are updated one statement at a time. Log calls
  and addresses play no part and are left out.
\<close>

section \<open>The step relation\<close>

datatype listener_pc = ClearConnected | ClearListening | CloseSock | InvalidateSock | ListenerDone

datatype connector_pc = PollConnected | CallConnect | SetConnected | SetListening | JoinListener | Started | ConnectFailed

text \<open>\<open>opened\<close> is a ghost: the descriptor the connector's \<open>socket()\<close> returned, once it has.\<close>

record 'w race =
  lpc :: listener_pc
  cpc :: connector_pc
  opened :: "int option"
  race_env :: "'w env"

definition upd :: "('w \<Rightarrow> 'w) \<Rightarrow> (client \<Rightarrow> client) \<Rightarrow> 'w race \<Rightarrow> 'w race" where
  "upd f g s = s\<lparr>race_env := (f (fst (race_env s)), g (snd (race_env s)))\<rparr>"

definition world :: "'w race \<Rightarrow> 'w" where "world s = fst (race_env s)"
definition globals :: "'w race \<Rightarrow> client" where "globals s = snd (race_env s)"

inductive race_step :: "'w os \<Rightarrow> u32 \<Rightarrow> u16 \<Rightarrow> 'w race \<Rightarrow> 'w race \<Rightarrow> bool"
  for os :: "'w os" and addr :: u32 and port :: u16 where
  L_connected: "lpc s = ClearConnected \<Longrightarrow>
    race_step os addr port s (upd id (\<lambda>c. c\<lparr>remoteServerConnected := False\<rparr>) (s\<lparr>lpc := ClearListening\<rparr>))"
| L_listening: "lpc s = ClearListening \<Longrightarrow>
    race_step os addr port s (upd id (\<lambda>c. c\<lparr>listeningRemoteServer := False\<rparr>) (s\<lparr>lpc := CloseSock\<rparr>))"
| L_close: "lpc s = CloseSock \<Longrightarrow>
    race_step os addr port s (upd (os_close os (remoteServerSock (globals s))) id (s\<lparr>lpc := InvalidateSock\<rparr>))"
| L_invalid: "lpc s = InvalidateSock \<Longrightarrow>
    race_step os addr port s (upd id (\<lambda>c. c\<lparr>remoteServerSock := INVALID_SOCKET\<rparr>) (s\<lparr>lpc := ListenerDone\<rparr>))"
| C_socket: "cpc s = PollConnected \<Longrightarrow> \<not> remoteServerConnected (globals s) \<Longrightarrow>
    os_socket os (world s) = (fd, w) \<Longrightarrow> fd \<noteq> INVALID_SOCKET \<Longrightarrow>
    race_step os addr port s (upd (\<lambda>_. w) (\<lambda>c. c\<lparr>remoteServerSock := fd\<rparr>) (s\<lparr>cpc := CallConnect, opened := Some fd\<rparr>))"
| C_no_socket: "cpc s = PollConnected \<Longrightarrow> \<not> remoteServerConnected (globals s) \<Longrightarrow>
    os_socket os (world s) = (fd, w) \<Longrightarrow> fd = INVALID_SOCKET \<Longrightarrow>
    race_step os addr port s (upd (\<lambda>_. w) (\<lambda>c. c\<lparr>remoteServerSock := fd\<rparr>) (s\<lparr>cpc := ConnectFailed\<rparr>))"
| C_connect: "cpc s = CallConnect \<Longrightarrow>
    os_connect os (remoteServerSock (globals s)) addr port (world s) = (r, w) \<Longrightarrow> r \<noteq> SOCKET_ERROR \<Longrightarrow>
    race_step os addr port s (upd (\<lambda>_. w) id (s\<lparr>cpc := SetConnected\<rparr>))"
| C_refused: "cpc s = CallConnect \<Longrightarrow>
    os_connect os (remoteServerSock (globals s)) addr port (world s) = (r, w) \<Longrightarrow> r = SOCKET_ERROR \<Longrightarrow>
    race_step os addr port s (upd (\<lambda>_. os_close os (remoteServerSock (globals s)) w)
      (\<lambda>c. c\<lparr>remoteServerSock := INVALID_SOCKET\<rparr>) (s\<lparr>cpc := ConnectFailed\<rparr>))"
| C_connected: "cpc s = SetConnected \<Longrightarrow>
    race_step os addr port s (upd id (\<lambda>c. c\<lparr>remoteServerConnected := True\<rparr>) (s\<lparr>cpc := SetListening\<rparr>))"
| C_listening: "cpc s = SetListening \<Longrightarrow>
    race_step os addr port s (upd id (\<lambda>c. c\<lparr>listeningRemoteServer := True\<rparr>) (s\<lparr>cpc := JoinListener\<rparr>))"
| C_join: "cpc s = JoinListener \<Longrightarrow> lpc s = ListenerDone \<Longrightarrow>
    race_step os addr port s (upd id (\<lambda>c. c\<lparr>remoteServerListenerThread := Running\<rparr>) (s\<lparr>cpc := Started\<rparr>))"

inductive race_reach :: "'w os \<Rightarrow> u32 \<Rightarrow> u16 \<Rightarrow> 'w race \<Rightarrow> 'w race \<Rightarrow> bool"
  for os :: "'w os" and addr :: u32 and port :: u16 and s0 :: "'w race" where
  Refl: "race_reach os addr port s0 s0"
| Step: "race_reach os addr port s0 s \<Longrightarrow> race_step os addr port s s' \<Longrightarrow> race_reach os addr port s0 s'"

definition race_start :: "'w env \<Rightarrow> 'w race" where
  "race_start e = \<lparr>lpc = ClearConnected, cpc = PollConnected, opened = None, race_env = e\<rparr>"

lemma upd_simps [simp]:
  "lpc (upd f g s) = lpc s" "cpc (upd f g s) = cpc s" "opened (upd f g s) = opened s"
  "world (upd f g s) = f (world s)" "globals (upd f g s) = g (globals s)"
  by (simp_all add: upd_def world_def globals_def)

lemma pc_simps [simp]:
  "world (s\<lparr>lpc := l\<rparr>) = world s" "world (s\<lparr>cpc := c\<rparr>) = world s" "world (s\<lparr>opened := x\<rparr>) = world s"
  "globals (s\<lparr>lpc := l\<rparr>) = globals s" "globals (s\<lparr>cpc := c\<rparr>) = globals s" "globals (s\<lparr>opened := x\<rparr>) = globals s"
  by (simp_all add: world_def globals_def)

section \<open>What every schedule preserves\<close>

text \<open>
  \<open>F\<close> is the set of descriptors at the start and \<open>old\<close> the connection's. Before the connector
  has a socket the listener is alone; afterwards there are three histories: the listener was
  already done, it had not yet closed, or it was between its close and its last assignment.
\<close>

definition before_socket :: "int set \<Rightarrow> int \<Rightarrow> listener_pc \<Rightarrow> connector_pc \<Rightarrow> client \<Rightarrow> int set \<Rightarrow> bool" where
  "before_socket F old l c g D \<longleftrightarrow>
     c = PollConnected \<and> (l = ClearConnected \<longrightarrow> remoteServerConnected g)
     \<and> (case l of
          ListenerDone \<Rightarrow> remoteServerSock g = INVALID_SOCKET \<and> D = F - {old}
        | InvalidateSock \<Rightarrow> remoteServerSock g = old \<and> D = F - {old}
        | _ \<Rightarrow> remoteServerSock g = old \<and> D = F)"

definition clean :: "int set \<Rightarrow> int \<Rightarrow> int \<Rightarrow> listener_pc \<Rightarrow> connector_pc \<Rightarrow> client \<Rightarrow> int set \<Rightarrow> bool" where
  "clean F old new l c g D \<longleftrightarrow>
     l = ListenerDone \<and> remoteServerSock g = new \<and> new \<notin> F - {old} \<and> D = insert new (F - {old})
     \<and> (c \<in> {SetListening, JoinListener, Started} \<longrightarrow> remoteServerConnected g)
     \<and> (c \<in> {JoinListener, Started} \<longrightarrow> listeningRemoteServer g)"

definition leaks_old :: "int set \<Rightarrow> int \<Rightarrow> int \<Rightarrow> listener_pc \<Rightarrow> client \<Rightarrow> int set \<Rightarrow> bool" where
  "leaks_old F old new l g D \<longleftrightarrow>
     new \<notin> F
     \<and> (case l of
          ListenerDone \<Rightarrow> remoteServerSock g = INVALID_SOCKET \<and> D = F
        | InvalidateSock \<Rightarrow> remoteServerSock g = new \<and> D = F
        | ClearConnected \<Rightarrow> False
        | _ \<Rightarrow> remoteServerSock g = new \<and> D = insert new F)"

definition leaks_new :: "int set \<Rightarrow> int \<Rightarrow> int \<Rightarrow> listener_pc \<Rightarrow> client \<Rightarrow> int set \<Rightarrow> bool" where
  "leaks_new F old new l g D \<longleftrightarrow>
     new \<notin> F - {old} \<and> D = insert new (F - {old})
     \<and> (l = InvalidateSock \<and> remoteServerSock g = new \<or> l = ListenerDone \<and> remoteServerSock g = INVALID_SOCKET)"

definition race_inv :: "('w \<Rightarrow> int set) \<Rightarrow> int set \<Rightarrow> int \<Rightarrow> 'w race \<Rightarrow> bool" where
  "race_inv fds F old s \<longleftrightarrow>
     (let l = lpc s; c = cpc s; g = globals s; D = fds (world s) in
      c = ConnectFailed
      \<or> (case opened s of
           None \<Rightarrow> before_socket F old l c g D
         | Some new \<Rightarrow> c \<noteq> PollConnected \<and> new \<noteq> INVALID_SOCKET
             \<and> (clean F old new l c g D \<or> leaks_old F old new l g D \<or> leaks_new F old new l g D)))"

context kernel
begin

lemma race_inv_step:
  assumes "race_step os addr port s s'" and "race_inv fds F old s" and "old \<in> F"
  shows "race_inv fds F old s'"
  using assms(1)
proof cases
  case L_connected
  then show ?thesis using assms(2)
    by (auto simp: race_inv_def before_socket_def clean_def leaks_old_def leaks_new_def Let_def split: option.splits)
next
  case L_listening
  then show ?thesis using assms(2)
    by (auto simp: race_inv_def before_socket_def clean_def leaks_old_def leaks_new_def Let_def split: option.splits)
next
  case L_close
  then show ?thesis using assms(2)
    by (auto simp: race_inv_def before_socket_def clean_def leaks_old_def leaks_new_def close_fds Let_def
        split: option.splits)
next
  case L_invalid
  then show ?thesis using assms(2)
    by (auto simp: race_inv_def before_socket_def clean_def leaks_old_def leaks_new_def Let_def split: option.splits)
next
  case (C_socket fd w)
  have fd: "fd \<notin> fds (world s)" "fds w = insert fd (fds (world s))"
    using socket_fds [OF C_socket(4)] C_socket(5) by simp_all
  have none: "opened s = None" using assms(2) C_socket(2) by (auto simp: race_inv_def Let_def split: option.splits)
  then have b: "before_socket F old (lpc s) (cpc s) (globals s) (fds (world s))"
    using assms(2) C_socket(2) by (simp add: race_inv_def Let_def)
  then show ?thesis using C_socket fd assms(3)
    by (cases "lpc s") (auto simp: race_inv_def before_socket_def clean_def leaks_old_def leaks_new_def Let_def)
next
  case (C_no_socket fd w)
  then show ?thesis by (simp add: race_inv_def Let_def)
next
  case (C_connect r w)
  have "fds w = fds (world s)" using connect_fds [of "remoteServerSock (globals s)" addr port "world s"] C_connect(3) by simp
  then show ?thesis using C_connect assms(2)
    by (auto simp: race_inv_def before_socket_def clean_def leaks_old_def leaks_new_def Let_def split: option.splits)
next
  case (C_refused r w)
  then show ?thesis by (simp add: race_inv_def Let_def)
next
  case C_connected
  then show ?thesis using assms(2)
    by (auto simp: race_inv_def before_socket_def clean_def leaks_old_def leaks_new_def Let_def
        split: option.splits listener_pc.splits)
next
  case C_listening
  then show ?thesis using assms(2)
    by (auto simp: race_inv_def before_socket_def clean_def leaks_old_def leaks_new_def Let_def
        split: option.splits listener_pc.splits)
next
  case C_join
  then show ?thesis using assms(2)
    by (auto simp: race_inv_def before_socket_def clean_def leaks_old_def leaks_new_def Let_def split: option.splits)
qed

end

context kernel
begin

lemma race_inv_reach:
  "race_reach os addr port s0 s \<Longrightarrow> race_inv fds F old s0 \<Longrightarrow> old \<in> F \<Longrightarrow> race_inv fds F old s"
  by (induction rule: race_reach.induct) (simp_all add: race_inv_step)

end

section \<open>The outcomes of a reconnect\<close>


definition connected_client :: client where
  "connected_client = (client_init False)\<lparr>remoteServerSock := 3, remoteServerConnected := True, listeningRemoteServer := True\<rparr>"

definition one_socket :: sim where
  "one_socket = sim_init\<lparr>sim_open := [3], sim_next := 4\<rparr>"

lemma connected_client_simps:
  "remoteServerSock connected_client = 3" "remoteServerConnected connected_client"
  by (simp_all add: connected_client_def)

text \<open>The schedule in which the connector runs right after the first flag is cleared.\<close>

lemma early_connector:
  "\<exists>s. race_reach sim_os 0 0 (race_start (one_socket, connected_client)) s \<and> cpc s = Started
     \<and> remoteServerSock (globals s) = INVALID_SOCKET \<and> sim_fds (world s) = {3}"
proof -
  let ?R = "race_reach sim_os 0 0 (race_start (one_socket, connected_client))"
  note step = race_reach.Step [of sim_os 0 0 "race_start (one_socket, connected_client)"]
  obtain s1 where s1: "?R s1" "lpc s1 = ClearListening" "cpc s1 = PollConnected" "\<not> remoteServerConnected (globals s1)"
      "world s1 = one_socket"
    using step [OF race_reach.Refl race_step.L_connected] by (auto simp: race_start_def world_def globals_def upd_def)
  have so: "os_socket sim_os (world s1) = (4, one_socket\<lparr>sim_next := 5, sim_open := [4, 3]\<rparr>)"
    by (simp add: s1(5) one_socket_def sim_os_def sim_init_def)
  obtain s2 where s2: "?R s2" "lpc s2 = ClearListening" "cpc s2 = CallConnect" "remoteServerSock (globals s2) = 4"
      "world s2 = one_socket\<lparr>sim_next := 5, sim_open := [4, 3]\<rparr>"
    using step [OF s1(1) race_step.C_socket [OF s1(3,4) so]] s1(2) by (auto simp: INVALID_SOCKET_def)
  have con: "os_connect sim_os (remoteServerSock (globals s2)) 0 0 (world s2) = (0, world s2)"
    by (simp add: s2(5) one_socket_def sim_os_def sim_init_def)
  obtain s3 where s3: "?R s3" "lpc s3 = ClearListening" "cpc s3 = SetConnected" "remoteServerSock (globals s3) = 4"
      "world s3 = one_socket\<lparr>sim_next := 5, sim_open := [4, 3]\<rparr>"
    using step [OF s2(1) race_step.C_connect [OF s2(3) con]] s2 by (auto simp: SOCKET_ERROR_def)
  obtain s4 where s4: "?R s4" "lpc s4 = ClearListening" "cpc s4 = SetListening" "remoteServerSock (globals s4) = 4"
      "world s4 = world s3"
    using step [OF s3(1) race_step.C_connected [OF s3(3)]] s3 by auto
  obtain s5 where s5: "?R s5" "lpc s5 = ClearListening" "cpc s5 = JoinListener" "remoteServerSock (globals s5) = 4"
      "world s5 = world s3"
    using step [OF s4(1) race_step.C_listening [OF s4(3)]] s4 by auto
  obtain s6 where s6: "?R s6" "lpc s6 = CloseSock" "cpc s6 = JoinListener" "remoteServerSock (globals s6) = 4"
      "world s6 = world s3"
    using step [OF s5(1) race_step.L_listening [OF s5(2)]] s5 by auto
  obtain s7 where s7: "?R s7" "lpc s7 = InvalidateSock" "cpc s7 = JoinListener"
      "world s7 = os_close sim_os 4 (world s3)"
    using step [OF s6(1) race_step.L_close [OF s6(2)]] s6 by auto
  obtain s8 where s8: "?R s8" "lpc s8 = ListenerDone" "cpc s8 = JoinListener" "remoteServerSock (globals s8) = INVALID_SOCKET"
      "world s8 = os_close sim_os 4 (world s3)"
    using step [OF s7(1) race_step.L_invalid [OF s7(2)]] s7 by auto
  obtain s9 where s9: "?R s9" "cpc s9 = Started" "remoteServerSock (globals s9) = INVALID_SOCKET"
      "world s9 = os_close sim_os 4 (world s3)"
    using step [OF s8(1) race_step.C_join [OF s8(3,2)]] s8 by auto
  have "sim_fds (world s9) = {3}"
    by (auto simp: s9(4) s3(5) sim_os_def one_socket_def sim_init_def sim_fds_def INVALID_SOCKET_def)
  then show ?thesis using s9 by blast
qed


end
