(* ===== verification/Fmt_Utf8.thy ===== *)
theory Fmt_Utf8
  imports Prelude
begin

text \<open>
  UTF-8 in the bundled fmt (\<open>fmt/bundled/format.h\<close>): the branchless decoder, the walk over the
  code points of a string that copies its last bytes into a padded block, the display width
  and the index of a code point, and the encoder of \<open>to_utf8\<close> for UTF-32. The decoder reads
  four bytes whatever the character; a read past the end is a fault.
\<close>

section \<open>The decoder\<close>

definition utf8_masks :: "u32 list" where "utf8_masks = [0x00, 0x7f, 0x1f, 0x0f, 0x07]"
definition utf8_mins :: "u32 list" where "utf8_mins = [4194304, 0, 128, 2048, 65536]"
definition utf8_shiftc :: "nat list" where "utf8_shiftc = [0, 18, 12, 6, 0]"
definition utf8_shifte :: "nat list" where "utf8_shifte = [0, 6, 4, 2, 0]"

text \<open>The string literal indexed by the top five bits of the first byte, its final NUL included.\<close>

definition utf8_lengths :: "nat list" where
  "utf8_lengths =
     [1, 1, 1, 1, 1, 1, 1, 1, 1, 1, 1, 1, 1, 1, 1, 1, 0, 0, 0, 0, 0, 0, 0, 0, 2, 2, 2, 2, 3, 3, 4, 0]"

text \<open>The number of bytes to advance, the code point and the error bits.\<close>

definition utf8_decode_bytes :: "u32 \<Rightarrow> u32 \<Rightarrow> u32 \<Rightarrow> u32 \<Rightarrow> nat \<times> u32 \<times> u32" where
  "utf8_decode_bytes s0 s1 s2 s3 =
     (let len = utf8_lengths ! unat (drop_bit 3 s0);
          next = len + of_bool (len = 0);
          c = push_bit 18 (s0 AND utf8_masks ! len);
          c = c OR push_bit 12 (s1 AND 0x3f);
          c = c OR push_bit 6 (s2 AND 0x3f);
          c = c OR push_bit 0 (s3 AND 0x3f);
          c = drop_bit (utf8_shiftc ! len) c;
          e = push_bit 6 (of_bool (c < utf8_mins ! len));
          e = e OR push_bit 7 (of_bool (drop_bit 11 c = 0x1b));
          e = e OR push_bit 8 (of_bool (c > 0x10FFFF));
          e = e OR drop_bit 2 (s1 AND 0xc0);
          e = e OR drop_bit 4 (s2 AND 0xc0);
          e = e OR drop_bit 6 s3;
          e = e XOR 0x2a;
          e = drop_bit (utf8_shifte ! len) e
      in (next, c, e))"

definition utf8_decode :: "bytes \<Rightarrow> fault + nat \<times> u32 \<times> u32" where
  "utf8_decode s =
     bindE (read_at s 0 4) (\<lambda>bs.
       Inr (utf8_decode_bytes (of_char (bs ! 0)) (of_char (bs ! 1)) (of_char (bs ! 2)) (of_char (bs ! 3))))"

section \<open>The encoding\<close>

text \<open>The bytes of a code point as \<open>to_utf8<wchar_t>::convert\<close> writes them; \<open>None\<close> is its failure.\<close>

definition utf8_encode :: "u32 \<Rightarrow> bytes option" where
  "utf8_encode c =
     (if c < 0x80 then Some [char_of (unat c)]
      else if c < 0x800 then
        Some [char_of (unat (0xc0 OR drop_bit 6 c)), char_of (unat (0x80 OR (c AND 0x3f)))]
      else if c \<ge> 0x800 \<and> c \<le> 0xd7ff \<or> c \<ge> 0xe000 \<and> c \<le> 0xffff then
        Some [char_of (unat (0xe0 OR drop_bit 12 c)), char_of (unat (0x80 OR drop_bit 6 (c AND 0xfff))),
              char_of (unat (0x80 OR (c AND 0x3f)))]
      else if c \<ge> 0x10000 \<and> c \<le> 0x10ffff then
        Some [char_of (unat (0xf0 OR drop_bit 18 c)), char_of (unat (0x80 OR drop_bit 12 (c AND 0x3ffff))),
              char_of (unat (0x80 OR drop_bit 6 (c AND 0xfff))), char_of (unat (0x80 OR (c AND 0x3f)))]
      else None)"

fun to_utf8_convert :: "u32 list \<Rightarrow> bytes option" where
  "to_utf8_convert [] = Some []"
| "to_utf8_convert (c # cs) =
     (case utf8_encode c of
        None \<Rightarrow> None
      | Some bs \<Rightarrow> map_option (\<lambda>rest. bs @ rest) (to_utf8_convert cs))"

section \<open>Bits as arithmetic\<close>

lemma nat_push_or: "b < 2 ^ n \<Longrightarrow> push_bit n a OR b = a * 2 ^ n + (b :: nat)"
proof -
  assume b: "b < 2 ^ n"
  have "\<not> bit (push_bit n a AND b) m" for m
  proof -
    have "bit b m \<Longrightarrow> m < n" using b bit_take_bit_iff [of n b m] by (simp add: take_bit_nat_eq_self)
    then show ?thesis by (auto simp: bit_and_iff bit_push_bit_iff)
  qed
  then have "push_bit n a AND b = 0" by (intro bit_eqI) simp
  then show ?thesis by (simp add: disjunctive_add_eq_or [symmetric] push_bit_eq_mult)
qed

lemma nat_or_push: "b < 2 ^ n \<Longrightarrow> b OR push_bit n a = a * 2 ^ n + (b :: nat)"
  using nat_push_or [of b n a] by (simp add: or.commute)

lemma unat_and_mask: "unat (w AND mask n :: u32) = unat w mod 2 ^ n"
  unfolding take_bit_eq_mask [symmetric] unsigned_take_bit_eq by (rule take_bit_eq_mod)

lemma unat_push: "unat (w :: u32) * 2 ^ n < 2 ^ 32 \<Longrightarrow> unat (push_bit n w) = unat w * 2 ^ n"
  unfolding unsigned_push_bit_eq push_bit_eq_mult [of n "unat w"] by (simp add: take_bit_eq_mod)

lemma unat_drop: "unat (drop_bit n (w :: u32)) = unat w div 2 ^ n"
proof -
  have "take_bit LENGTH(32) (unat w) = unat w" by (intro take_bit_nat_eq_self unsigned_less)
  then show ?thesis unfolding unsigned_drop_bit_eq by (simp only: drop_bit_eq_div)
qed

text \<open>A byte splits into its top two bits and its tail.\<close>

lemma byte_and_192: "n < 256 \<Longrightarrow> n AND 192 = n div 64 * (64 :: nat)"
proof -
  assume n: "n < 256"
  have "n AND push_bit 6 (mask 2) = push_bit 6 (drop_bit 6 n AND mask 2)"
    by (rule bit_eqI) (auto simp: bit_simps)
  also have "drop_bit 6 n AND mask 2 = n div 64"
    using n by (simp add: take_bit_eq_mask [symmetric] drop_bit_eq_div take_bit_eq_mod)
  finally show ?thesis by (simp add: push_bit_eq_mult mask_eq_exp_minus_1)
qed

lemma tail_bits:
  assumes "unat (s :: u32) < 256"
  shows "unat (s AND 0x3f) = unat s mod 64" "unat (drop_bit 2 (s AND 0xc0)) = unat s div 64 * 16"
    "unat (drop_bit 4 (s AND 0xc0)) = unat s div 64 * 4" "unat (drop_bit 6 s) = unat s div 64"
proof -
  have m: "(0x3f :: u32) = mask 6" by (simp add: mask_eq_exp_minus_1)
  show "unat (s AND 0x3f) = unat s mod 64" unfolding m unat_and_mask by simp
  have "unat (s AND 0xc0) = unat s div 64 * 64" by (simp add: unsigned_and_eq byte_and_192 [OF assms])
  then show "unat (drop_bit 2 (s AND 0xc0)) = unat s div 64 * 16" "unat (drop_bit 4 (s AND 0xc0)) = unat s div 64 * 4"
    by (simp_all only: unat_drop) simp_all
  show "unat (drop_bit 6 s) = unat s div 64" by (simp add: unat_drop)
qed

text \<open>The length class of a first byte.\<close>

lemma utf8_lengths_eq:
  assumes "n < 256"
  shows "utf8_lengths ! (n div 8) =
    (if n < 128 then 1 else if n < 192 then 0 else if n < 224 then 2 else if n < 240 then 3 else if n < 248 then 4 else 0)"
proof -
  have "list_all (\<lambda>k. utf8_lengths ! k =
      (if k < 16 then 1 else if k < 24 then 0 else if k < 28 then 2 else if k < 30 then 3 else if k < 31 then 4 else 0)) [0..<32]"
    by (simp add: upt_rec utf8_lengths_def)
  then have "utf8_lengths ! (n div 8) = (if n div 8 < 16 then 1 else if n div 8 < 24 then 0
      else if n div 8 < 28 then 2 else if n div 8 < 30 then 3 else if n div 8 < 31 then 4 else 0)"
    using assms by (simp add: list_all_iff)
  then show ?thesis by (simp add: div_less_iff_less_mult)
qed

text \<open>The code point and the error bits as numbers, for a given length class.\<close>

definition raw_code_point :: "nat \<Rightarrow> nat \<Rightarrow> nat \<Rightarrow> nat \<Rightarrow> nat" where
  "raw_code_point a n1 n2 n3 = a * 262144 + n1 mod 64 * 4096 + n2 mod 64 * 64 + n3 mod 64"

lemma raw_code_point_bits:
  assumes "unat (s1 :: u32) < 256" "unat (s2 :: u32) < 256" "unat (s3 :: u32) < 256" "unat (a :: u32) < 256"
  shows "unat (push_bit 18 a OR push_bit 12 (s1 AND 0x3f) OR push_bit 6 (s2 AND 0x3f) OR push_bit 0 (s3 AND 0x3f))
    = raw_code_point (unat a) (unat s1) (unat s2) (unat s3)"
proof -
  let ?t = "\<lambda>s :: u32. unat (s AND 0x3f)"
  note t = tail_bits(1) [OF assms(1)] tail_bits(1) [OF assms(2)] tail_bits(1) [OF assms(3)]
  have p: "unat (push_bit 18 a) = unat a * 2 ^ 18" "unat (push_bit 12 (s1 AND 0x3f)) = ?t s1 * 2 ^ 12"
    "unat (push_bit 6 (s2 AND 0x3f)) = ?t s2 * 2 ^ 6"
    using assms t by (intro unat_push; simp)+
  have "unat (push_bit 18 a OR push_bit 12 (s1 AND 0x3f) OR push_bit 6 (s2 AND 0x3f) OR push_bit 0 (s3 AND 0x3f))
     = (push_bit 18 (unat a) OR (push_bit 12 (?t s1) OR (push_bit 6 (?t s2) OR ?t s3)))"
    unfolding unsigned_or_eq p by (simp add: push_bit_eq_mult or.assoc)
  also have "push_bit 6 (?t s2) OR ?t s3 = ?t s2 * 64 + ?t s3" using t by (subst nat_push_or) simp_all
  also have "push_bit 12 (?t s1) OR \<dots> = ?t s1 * 4096 + (?t s2 * 64 + ?t s3)" using t by (subst nat_push_or) simp_all
  also have "push_bit 18 (unat a) OR \<dots> = unat a * 262144 + (?t s1 * 4096 + (?t s2 * 64 + ?t s3))"
    using t by (subst nat_push_or) simp_all
  finally show ?thesis unfolding raw_code_point_def t by simp
qed

lemma error_bits:
  assumes "t1 < 4" "t2 < 4" "t3 < (4 :: nat)"
  shows "push_bit 6 (of_bool p) OR push_bit 7 (of_bool q) OR push_bit 8 (of_bool r) OR t1 * 16 OR t2 * 4 OR t3
    = (of_bool p + 2 * of_bool q + 4 * of_bool r) * 64 + t1 * 16 + t2 * 4 + t3" (is "?l = _")
proof -
  have rev: "a OR b OR c OR d = c OR b OR a OR d" for a b c d :: nat by (simp add: ac_simps)
  have "t1 * 16 = push_bit 4 t1" "t2 * 4 = push_bit 2 t2" by (simp_all add: push_bit_eq_mult)
  then have "?l = push_bit 8 (of_bool r) OR push_bit 7 (of_bool q) OR push_bit 6 (of_bool p)
      OR push_bit 4 t1 OR push_bit 2 t2 OR t3"
    by (simp only: rev)
  also have "push_bit 2 t2 OR t3 = t2 * 4 + t3" using assms by (subst nat_push_or) simp_all
  also have "push_bit 4 t1 OR \<dots> = t1 * 16 + (t2 * 4 + t3)" using assms by (subst nat_push_or) simp_all
  also have "push_bit 6 (of_bool p) OR \<dots> = of_bool p * 64 + (t1 * 16 + (t2 * 4 + t3))"
    using assms by (subst nat_push_or) simp_all
  also have "push_bit 7 (of_bool q) OR \<dots> = of_bool q * 128 + (of_bool p * 64 + (t1 * 16 + (t2 * 4 + t3)))"
    using assms by (subst nat_push_or) simp_all
  also have "push_bit 8 (of_bool r) OR \<dots>
      = of_bool r * 256 + (of_bool q * 128 + (of_bool p * 64 + (t1 * 16 + (t2 * 4 + t3))))"
    using assms by (subst nat_push_or) simp_all
  finally show ?thesis by simp
qed

lemma base4_digits:
  assumes "a < 4" "b < 4" "c < (4 :: nat)"
  shows "(y * 64 + a * 16 + b * 4 + c) div 64 = 0 \<longleftrightarrow> y = 0"
    "(y * 64 + a * 16 + b * 4 + c) div 16 = 2 \<longleftrightarrow> y = 0 \<and> a = 2"
    "(y * 64 + a * 16 + b * 4 + c) div 4 = 10 \<longleftrightarrow> y = 0 \<and> a = 2 \<and> b = 2"
    "y * 64 + a * 16 + b * 4 + c = 42 \<longleftrightarrow> y = 0 \<and> a = 2 \<and> b = 2 \<and> c = 2"
proof -
  have "(y * 64 + a * 16 + b * 4 + c) div 64 = y" using assms by (intro div_nat_eqI) simp_all
  then show "(y * 64 + a * 16 + b * 4 + c) div 64 = 0 \<longleftrightarrow> y = 0" by simp
  have "(y * 64 + a * 16 + b * 4 + c) div 16 = y * 4 + a" using assms by (intro div_nat_eqI) simp_all
  then show "(y * 64 + a * 16 + b * 4 + c) div 16 = 2 \<longleftrightarrow> y = 0 \<and> a = 2" by (cases y) auto
  have "(y * 64 + a * 16 + b * 4 + c) div 4 = y * 16 + a * 4 + b" using assms by (intro div_nat_eqI) simp_all
  moreover have "a * 4 + b = 10 \<longleftrightarrow> a = 2 \<and> b = 2" using assms(2) by presburger
  ultimately show "(y * 64 + a * 16 + b * 4 + c) div 4 = 10 \<longleftrightarrow> y = 0 \<and> a = 2 \<and> b = 2" by (cases y) auto
  have "a * 16 + b * 4 + c = 42 \<longleftrightarrow> a = 2 \<and> b = 2 \<and> c = 2"
    using assms by (simp add: numeral_eq_Suc less_Suc_eq) (elim disjE; simp)
  then show "y * 64 + a * 16 + b * 4 + c = 42 \<longleftrightarrow> y = 0 \<and> a = 2 \<and> b = 2 \<and> c = 2" by (cases y) auto
qed

definition tails_ok :: "nat \<Rightarrow> nat \<Rightarrow> nat \<Rightarrow> nat \<Rightarrow> bool" where
  "tails_ok len n1 n2 n3 \<longleftrightarrow>
     (2 \<le> len \<longrightarrow> n1 div 64 = 2) \<and> (3 \<le> len \<longrightarrow> n2 div 64 = 2) \<and> (4 \<le> len \<longrightarrow> n3 div 64 = 2)"

lemma unat_push_of_bool:
  "unat (push_bit 6 (of_bool b) :: u32) = push_bit 6 (of_bool b)"
  "unat (push_bit 7 (of_bool b) :: u32) = push_bit 7 (of_bool b)"
  "unat (push_bit 8 (of_bool b) :: u32) = push_bit 8 (of_bool b)"
  by (cases b; simp)+

lemma xor_zero: "a XOR b = 0 \<longleftrightarrow> a = (b :: u32)"
  by (metis xor.assoc xor_self_eq xor.left_neutral xor.right_neutral)

lemma error_zero_iff:
  assumes "unat (s1 :: u32) < 256" "unat (s2 :: u32) < 256" "unat (s3 :: u32) < 256" "len \<in> {1, 2, 3, 4}"
  shows "drop_bit (utf8_shifte ! len)
      ((push_bit 6 (of_bool p) OR push_bit 7 (of_bool q) OR push_bit 8 (of_bool r)
        OR drop_bit 2 (s1 AND 0xc0) OR drop_bit 4 (s2 AND 0xc0) OR drop_bit 6 s3) XOR 0x2a) = 0
    \<longleftrightarrow> \<not> p \<and> \<not> q \<and> \<not> r \<and> tails_ok len (unat s1) (unat s2) (unat s3)"
    (is "drop_bit ?k (?pre XOR _) = 0 \<longleftrightarrow> _")
proof -
  let ?t = "\<lambda>s :: u32. unat s div 64"
  let ?y = "of_bool p + 2 * of_bool q + 4 * of_bool r :: nat"
  have t: "?t s1 < 4" "?t s2 < 4" "?t s3 < 4" using assms by (simp_all add: div_less_iff_less_mult)
  have "unat ?pre = ?y * 64 + ?t s1 * 16 + ?t s2 * 4 + ?t s3"
    unfolding unsigned_or_eq tail_bits [OF assms(1)] tail_bits [OF assms(2)] tail_bits [OF assms(3)]
    by (simp only: unat_push_of_bool) (simp only: error_bits [OF t])
  moreover have "drop_bit ?k (?pre XOR 0x2a) = 0 \<longleftrightarrow> drop_bit ?k ?pre = drop_bit ?k 0x2a"
    by (simp only: drop_bit_xor xor_zero)
  moreover have "drop_bit ?k ?pre = drop_bit ?k 0x2a \<longleftrightarrow> unat ?pre div 2 ^ ?k = 42 div 2 ^ ?k"
    by (simp only: word_unat_eq_iff unat_drop) simp
  moreover have "(?y * 64 + ?t s1 * 16 + ?t s2 * 4 + ?t s3) div 2 ^ ?k = 42 div 2 ^ ?k
      \<longleftrightarrow> \<not> p \<and> \<not> q \<and> \<not> r \<and> tails_ok len (unat s1) (unat s2) (unat s3)"
  proof -
    have y: "?y = 0 \<longleftrightarrow> \<not> p \<and> \<not> q \<and> \<not> r" by auto
    define z where "z = ?y"
    note d = base4_digits [OF t, of z]
    consider "len = 1" | "len = 2" | "len = 3" | "len = 4" using assms(4) by blast
    then have "(z * 64 + ?t s1 * 16 + ?t s2 * 4 + ?t s3) div 2 ^ ?k = 42 div 2 ^ ?k
        \<longleftrightarrow> z = 0 \<and> tails_ok len (unat s1) (unat s2) (unat s3)"
      by cases (simp_all add: utf8_shifte_def tails_ok_def d)
    then show ?thesis using y by (simp only: z_def conj_assoc)
  qed
  ultimately show ?thesis by (simp only:)
qed

section \<open>The decoder accepts exactly what the encoder writes\<close>

text \<open>The encoding on numbers.\<close>

definition utf8_numbers :: "nat \<Rightarrow> nat list option" where
  "utf8_numbers c =
     (if c < 128 then Some [c]
      else if c < 2048 then Some [192 + c div 64, 128 + c mod 64]
      else if c < 55296 \<or> 57344 \<le> c \<and> c < 65536 then Some [224 + c div 4096, 128 + c div 64 mod 64, 128 + c mod 64]
      else if 65536 \<le> c \<and> c < 1114112 then
        Some [240 + c div 262144, 128 + c div 4096 mod 64, 128 + c div 64 mod 64, 128 + c mod 64]
      else None)"

lemma unat_or_tail:
  "unat (w :: u32) < 64 \<Longrightarrow> unat (0x80 OR w) = 128 + unat w"
  "unat w < 32 \<Longrightarrow> unat (0xc0 OR w) = 192 + unat w"
  "unat w < 16 \<Longrightarrow> unat (0xe0 OR w) = 224 + unat w"
  "unat w < 8 \<Longrightarrow> unat (0xf0 OR w) = 240 + unat w"
  using nat_push_or [of "unat w" 6 2] nat_push_or [of "unat w" 5 6] nat_push_or [of "unat w" 4 14]
    nat_push_or [of "unat w" 3 30]
  by (simp_all add: unsigned_or_eq push_bit_eq_mult)

lemma u32_less_unat: "(c :: u32) < n \<longleftrightarrow> unat c < unat n" "c \<le> n \<longleftrightarrow> unat c \<le> unat n"
  by (simp_all add: word_less_nat_alt word_le_nat_alt)

lemma unat_masks:
  "unat (c AND 0x3f) = unat (c :: u32) mod 64" "unat (c AND 0xfff) = unat c mod 4096"
  "unat (c AND 0x3ffff) = unat c mod 262144"
  using unat_and_mask [of c 6] unat_and_mask [of c 12] unat_and_mask [of c 18]
  by (simp_all add: mask_eq_exp_minus_1)

lemma utf8_encode_numbers: "utf8_encode c = map_option (map char_of) (utf8_numbers (unat c))"
proof -
  let ?n = "unat c"
  have m: "unat (0x80 OR (c AND 0x3f)) = 128 + ?n mod 64"
    "unat (0x80 OR drop_bit 6 (c AND 0xfff)) = 128 + ?n div 64 mod 64"
    "unat (0x80 OR drop_bit 12 (c AND 0x3ffff)) = 128 + ?n div 4096 mod 64"
  proof -
    show "unat (0x80 OR (c AND 0x3f)) = 128 + ?n mod 64" by (subst unat_or_tail) (simp_all add: unat_masks)
    have "unat (drop_bit 6 (c AND 0xfff)) = ?n div 64 mod 64"
      unfolding unat_drop unat_masks by (simp add: mod_mult2_eq [of ?n 64 64, simplified])
    then show "unat (0x80 OR drop_bit 6 (c AND 0xfff)) = 128 + ?n div 64 mod 64" by (subst unat_or_tail) simp_all
    have "unat (drop_bit 12 (c AND 0x3ffff)) = ?n div 4096 mod 64"
      unfolding unat_drop unat_masks by (simp add: mod_mult2_eq [of ?n 4096 64, simplified])
    then show "unat (0x80 OR drop_bit 12 (c AND 0x3ffff)) = 128 + ?n div 4096 mod 64" by (subst unat_or_tail) simp_all
  qed
  have h: "?n < 2048 \<Longrightarrow> unat (0xc0 OR drop_bit 6 c) = 192 + ?n div 64"
    "?n < 65536 \<Longrightarrow> unat (0xe0 OR drop_bit 12 c) = 224 + ?n div 4096"
    "?n < 1114112 \<Longrightarrow> unat (0xf0 OR drop_bit 18 c) = 240 + ?n div 262144"
    by (subst unat_or_tail; simp only: unat_drop; simp add: div_less_iff_less_mult)+
  show ?thesis
    unfolding utf8_encode_def utf8_numbers_def u32_less_unat m by (simp add: h)
qed

lemma first_byte_bits:
  assumes "unat (s :: u32) < 256" "len \<in> {1, 2, 3, 4}"
  shows "unat (s AND utf8_masks ! len) = unat s mod [0, 128, 32, 16, 8] ! len"
  using assms unat_and_mask [of s 7] unat_and_mask [of s 5] unat_and_mask [of s 4] unat_and_mask [of s 3]
  by (auto simp: utf8_masks_def mask_eq_exp_minus_1)

text \<open>The decoded code point on numbers, by length class, and the condition for no error.\<close>

definition decoded :: "nat \<Rightarrow> nat \<Rightarrow> nat \<Rightarrow> nat \<Rightarrow> nat \<Rightarrow> nat" where
  "decoded len n0 n1 n2 n3 =
     (if len = 1 then n0 mod 128
      else if len = 2 then n0 mod 32 * 64 + n1 mod 64
      else if len = 3 then n0 mod 16 * 4096 + n1 mod 64 * 64 + n2 mod 64
      else n0 mod 8 * 262144 + n1 mod 64 * 4096 + n2 mod 64 * 64 + n3 mod 64)"

lemma raw_decoded:
  assumes "len \<in> {1, 2, 3, 4}"
  shows "raw_code_point (n0 mod [0, 128, 32, 16, 8] ! len) n1 n2 n3 div 2 ^ (utf8_shiftc ! len) = decoded len n0 n1 n2 n3"
proof -
  have b: "n1 mod 64 < 64" "n2 mod 64 < 64" "n3 mod 64 < 64" by simp_all
  define a b c where abc: "a = n1 mod 64" "b = n2 mod 64" "c = n3 mod 64"
  have "(x * 262144 + a * 4096 + b * 64 + c) div 262144 = x" "(x * 262144 + a * 4096 + b * 64 + c) div 4096 = x * 64 + a"
    "(x * 262144 + a * 4096 + b * 64 + c) div 64 = x * 4096 + a * 64 + b" for x
    using b unfolding abc [symmetric] by (intro div_nat_eqI; simp)+
  with assms show ?thesis
    unfolding raw_code_point_def decoded_def abc [symmetric] by (auto simp: utf8_shiftc_def)
qed

definition decodes :: "nat \<Rightarrow> nat \<Rightarrow> nat \<Rightarrow> nat \<Rightarrow> nat \<Rightarrow> bool" where
  "decodes len n0 n1 n2 n3 \<longleftrightarrow>
     [0, 0, 128, 2048, 65536] ! len \<le> decoded len n0 n1 n2 n3
     \<and> decoded len n0 n1 n2 n3 div 2048 \<noteq> 27 \<and> decoded len n0 n1 n2 n3 \<le> 1114111
     \<and> tails_ok len n1 n2 n3"

lemma utf8_decode_numbers:
  assumes "unat s0 < 256" "unat s1 < 256" "unat s2 < 256" "unat s3 < 256"
    and "len = utf8_lengths ! (unat s0 div 8)" and "len \<noteq> 0"
    and "utf8_decode_bytes s0 s1 s2 s3 = (next, c, e)"
  shows "next = len \<and> unat c = decoded len (unat s0) (unat s1) (unat s2) (unat s3)
    \<and> (e = 0 \<longleftrightarrow> decodes len (unat s0) (unat s1) (unat s2) (unat s3))"
proof -
  have len: "len \<in> {1, 2, 3, 4}" using assms(5,6) utf8_lengths_eq [OF assms(1)] by (auto split: if_splits)
  have l: "utf8_lengths ! unat (drop_bit 3 s0) = len" using assms(5) by (simp add: unat_drop)
  let ?raw = "push_bit 18 (s0 AND utf8_masks ! len) OR push_bit 12 (s1 AND 0x3f) OR push_bit 6 (s2 AND 0x3f)
      OR push_bit 0 (s3 AND 0x3f)"
  have c: "c = drop_bit (utf8_shiftc ! len) ?raw" and nxt: "next = len" and
    e: "e = drop_bit (utf8_shifte ! len)
      ((push_bit 6 (of_bool (c < utf8_mins ! len)) OR push_bit 7 (of_bool (drop_bit 11 c = 0x1b))
        OR push_bit 8 (of_bool (c > 0x10FFFF)) OR drop_bit 2 (s1 AND 0xc0) OR drop_bit 4 (s2 AND 0xc0) OR drop_bit 6 s3) XOR 0x2a)"
    using assms(6,7) unfolding utf8_decode_bytes_def Let_def l or.assoc by auto
  have first: "unat (s0 AND utf8_masks ! len) = unat s0 mod [0, 128, 32, 16, 8] ! len"
    by (rule first_byte_bits [OF assms(1) len])
  have small: "unat (s0 AND utf8_masks ! len) < 256"
    unfolding first using len assms(1) by auto
  have "unat c = decoded len (unat s0) (unat s1) (unat s2) (unat s3)"
    unfolding c unat_drop raw_code_point_bits [OF assms(2-4) small] first by (rule raw_decoded [OF len])
  moreover have "c < utf8_mins ! len \<longleftrightarrow> unat c < [0, 0, 128, 2048, 65536] ! len"
    using len by (auto simp: u32_less_unat utf8_mins_def)
  moreover have "drop_bit 11 c = 0x1b \<longleftrightarrow> unat c div 2048 = 27"
    by (simp only: word_unat_eq_iff unat_drop) simp
  moreover have "c > 0x10FFFF \<longleftrightarrow> \<not> unat c \<le> 1114111" by (simp add: u32_less_unat not_le)
  ultimately show ?thesis
    using nxt e error_zero_iff [OF assms(2-4) len] by (auto simp: decodes_def not_less)
qed

lemma tail_byte: "n < 256 \<Longrightarrow> 128 + n mod 64 = n \<longleftrightarrow> n div 64 = (2 :: nat)"
  using div_mult_mod_eq [of n 64] by (intro iffI) linarith+

lemma base64_parts:
  assumes "b < 64" "c < 64" "d < (64 :: nat)"
  shows "(a * 64 + b) div 64 = a" "(a * 64 + b) mod 64 = b"
    "(a * 4096 + b * 64 + c) div 4096 = a" "(a * 4096 + b * 64 + c) div 64 mod 64 = b" "(a * 4096 + b * 64 + c) mod 64 = c"
    "(a * 262144 + b * 4096 + c * 64 + d) div 262144 = a" "(a * 262144 + b * 4096 + c * 64 + d) div 4096 mod 64 = b"
    "(a * 262144 + b * 4096 + c * 64 + d) div 64 mod 64 = c" "(a * 262144 + b * 4096 + c * 64 + d) mod 64 = d"
proof -
  show "(a * 64 + b) div 64 = a" "(a * 4096 + b * 64 + c) div 4096 = a"
    "(a * 262144 + b * 4096 + c * 64 + d) div 262144 = a"
    using assms by (intro div_nat_eqI; simp)+
  have "(a * 4096 + b * 64 + c) div 64 = a * 64 + b" "(a * 262144 + b * 4096 + c * 64 + d) div 4096 = a * 64 + b"
    "(a * 262144 + b * 4096 + c * 64 + d) div 64 = (a * 64 + b) * 64 + c"
    using assms by (intro div_nat_eqI; simp)+
  then show "(a * 4096 + b * 64 + c) div 64 mod 64 = b" "(a * 262144 + b * 4096 + c * 64 + d) div 4096 mod 64 = b"
    "(a * 262144 + b * 4096 + c * 64 + d) div 64 mod 64 = c"
    using assms by (simp_all only: mod_mult_self3 mod_less)
  have "a * 4096 + b * 64 + c = (a * 64 + b) * 64 + c" "a * 262144 + b * 4096 + c * 64 + d = (a * 4096 + b * 64 + c) * 64 + d"
    by simp_all
  then show "(a * 64 + b) mod 64 = b" "(a * 4096 + b * 64 + c) mod 64 = c" "(a * 262144 + b * 4096 + c * 64 + d) mod 64 = d"
    using assms by (simp_all only: mod_mult_self3 mod_less)
qed

lemma surrogate_range: "c div 2048 = 27 \<longleftrightarrow> 55296 \<le> c \<and> c < (57344 :: nat)"
  by (auto intro!: div_nat_eqI)

lemma decodes_iff_numbers:
  assumes "n0 < 256" "n1 < 256" "n2 < 256" "n3 < 256" and "len = utf8_lengths ! (n0 div 8)" and "len \<noteq> 0"
  shows "decodes len n0 n1 n2 n3 \<longleftrightarrow> utf8_numbers (decoded len n0 n1 n2 n3) = Some (take len [n0, n1, n2, n3])"
proof -
  note tails = tail_byte [OF assms(2)] tail_byte [OF assms(3)] tail_byte [OF assms(4)]
  define b1 b2 b3 where b: "b1 = n1 mod 64" "b2 = n2 mod 64" "b3 = n3 mod 64"
  have lt: "b1 < 64" "b2 < 64" "b3 < 64" by (simp_all add: b)
  consider (one) "n0 < 128" "len = 1" | (two) "192 \<le> n0" "n0 < 224" "len = 2"
    | (three) "224 \<le> n0" "n0 < 240" "len = 3" | (four) "240 \<le> n0" "n0 < 248" "len = 4"
    using assms(5,6) utf8_lengths_eq [OF assms(1)] by (auto split: if_splits)
  then show ?thesis
  proof cases
    case one
    then show ?thesis by (simp add: decodes_def decoded_def tails_ok_def utf8_numbers_def)
  next
    case two
    define a where "a = n0 - 192"
    have a: "n0 mod 32 = a" "n0 = 192 + a" "a < 32" using two by (simp_all add: a_def mod_if)
    let ?c = "a * 64 + b1"
    have d: "decoded len n0 n1 n2 n3 = ?c" using two a by (simp add: decoded_def b)
    define x where "x = ?c"
    have "x < 2048" "x div 64 = a" "x mod 64 = b1" using a lt base64_parts(1,2) [OF lt] by (simp_all add: x_def)
    then have "utf8_numbers x = Some (take len [n0, n1, n2, n3]) \<longleftrightarrow> 128 \<le> x \<and> 128 + b1 = n1"
      using two a(2) by (simp add: utf8_numbers_def)
    with \<open>x < 2048\<close> two tails(1) [folded b] show ?thesis
      unfolding decodes_def d x_def [symmetric] surrogate_range by (auto simp: tails_ok_def)
  next
    case three
    define a where "a = n0 - 224"
    have a: "n0 mod 16 = a" "n0 = 224 + a" "a < 16" using three by (simp_all add: a_def mod_if)
    let ?c = "a * 4096 + b1 * 64 + b2"
    have d: "decoded len n0 n1 n2 n3 = ?c" using three a by (simp add: decoded_def b)
    define x where "x = ?c"
    have x: "x < 65536" "x div 4096 = a" "x div 64 mod 64 = b1" "x mod 64 = b2"
      using a lt base64_parts(3-5) [OF lt] by (simp_all add: x_def)
    have "utf8_numbers x = Some (take len [n0, n1, n2, n3])
        \<longleftrightarrow> 2048 \<le> x \<and> \<not> (55296 \<le> x \<and> x < 57344) \<and> 128 + b1 = n1 \<and> 128 + b2 = n2"
      unfolding utf8_numbers_def x(2-4) three(3) a(2) using x(1) by auto
    with x(1) three(3) tails(1,2) [folded b] show ?thesis
      unfolding decodes_def d x_def [symmetric] surrogate_range by (auto simp: tails_ok_def)
  next
    case four
    define a where "a = n0 - 240"
    have a: "n0 mod 8 = a" "n0 = 240 + a" "a < 8" using four by (simp_all add: a_def mod_if)
    let ?c = "a * 262144 + b1 * 4096 + b2 * 64 + b3"
    have d: "decoded len n0 n1 n2 n3 = ?c" using four a by (simp add: decoded_def b)
    define x where "x = ?c"
    have x: "x div 262144 = a" "x div 4096 mod 64 = b1" "x div 64 mod 64 = b2" "x mod 64 = b3"
      using a lt base64_parts(6-9) [OF lt] by (simp_all add: x_def)
    have "utf8_numbers x = Some (take len [n0, n1, n2, n3])
        \<longleftrightarrow> 65536 \<le> x \<and> x \<le> 1114111 \<and> 128 + b1 = n1 \<and> 128 + b2 = n2 \<and> 128 + b3 = n3"
      unfolding utf8_numbers_def x four(3) a(2) by auto
    with four(3) tails [folded b] show ?thesis
      unfolding decodes_def d x_def [symmetric] surrogate_range by (auto simp: tails_ok_def)
  qed
qed

lemma numbers_first:
  assumes "utf8_numbers c = Some ns"
  shows "ns \<noteq> [] \<and> hd ns < 256 \<and> utf8_lengths ! (hd ns div 8) = length ns \<and> length ns \<le> 4 \<and> (\<forall>n \<in> set ns. n < 256)"
proof -
  have "c div 64 < 32" if "c < 2048" using that by (simp add: div_less_iff_less_mult)
  moreover have "c div 4096 < 16" if "c < 65536" using that by (simp add: div_less_iff_less_mult)
  moreover have "c div 262144 < 5" if "c < 1114112" using that by (simp add: div_less_iff_less_mult)
  ultimately show ?thesis
    using assms by (auto simp: utf8_numbers_def utf8_lengths_eq split: if_splits)
qed

lemma decoded_numbers:
  assumes "utf8_numbers c = Some (take len [n0, n1, n2, n3])" and "len \<in> {1, 2, 3, 4}"
  shows "decoded len n0 n1 n2 n3 = c"
proof -
  have d: "c div 64 div 64 = c div 4096" "c div 4096 div 64 = c div 262144" by (simp_all add: div_mult2_eq [symmetric])
  have c2: "c div 64 * 64 + c mod 64 = c" by simp
  then have c3: "c div 4096 * 4096 + c div 64 mod 64 * 64 + c mod 64 = c"
    using div_mult_mod_eq [of "c div 64" 64] unfolding d by linarith
  then have c4: "c div 262144 * 262144 + c div 4096 mod 64 * 4096 + c div 64 mod 64 * 64 + c mod 64 = c"
    using div_mult_mod_eq [of "c div 4096" 64] unfolding d by linarith
  have "c < 128 \<Longrightarrow> c mod 128 = c" "c < 2048 \<Longrightarrow> (192 + c div 64) mod 32 = c div 64"
    "c < 65536 \<Longrightarrow> (224 + c div 4096) mod 16 = c div 4096" "c < 1114112 \<Longrightarrow> (240 + c div 262144) mod 8 = c div 262144"
    using mod_mult_self3 [of 6 32 "c div 64"] mod_mult_self3 [of 14 16 "c div 4096"] mod_mult_self3 [of 30 8 "c div 262144"]
    by (simp_all add: div_less_iff_less_mult)
  moreover have "(128 + x mod 64) mod 64 = x mod 64" for x :: nat
    using mod_mult_self3 [of 2 64 "x mod 64"] by simp
  note r = this calculation
  consider "len = 1" | "len = 2" | "len = 3" | "len = 4" using assms(2) by blast
  then show ?thesis
  proof cases
    case 1
    then show ?thesis using assms(1) r(2-) by (simp add: utf8_numbers_def decoded_def split: if_splits)
  next
    case 2
    then have "c < 2048" "n0 = 192 + c div 64" "n1 = 128 + c mod 64"
      using assms(1) by (simp_all add: utf8_numbers_def split: if_splits)
    then show ?thesis using 2 by (simp only: decoded_def r) (simp add: c2)
  next
    case 3
    then have "c < 65536" "n0 = 224 + c div 4096" "n1 = 128 + c div 64 mod 64" "n2 = 128 + c mod 64"
      using assms(1) by (auto simp: utf8_numbers_def split: if_splits)
    then show ?thesis using 3 c3 by (simp only: decoded_def r) simp
  next
    case 4
    then have "c < 1114112" "n0 = 240 + c div 262144" "n1 = 128 + c div 4096 mod 64" "n2 = 128 + c div 64 mod 64"
      "n3 = 128 + c mod 64"
      using assms(1) by (auto simp: utf8_numbers_def split: if_splits)
    then show ?thesis using 4 c4 by (simp only: decoded_def r) simp
  qed
qed

lemma utf8_encode_Some_iff: "utf8_encode c = Some bs \<longleftrightarrow> utf8_numbers (unat c) = Some (map of_char bs)"
proof -
  have "map of_char (map char_of ns) = ns" if "utf8_numbers (unat c) = Some ns" for ns
    using numbers_first [OF that] by (simp add: map_idI)
  then show ?thesis by (auto simp: utf8_encode_numbers)
qed

lemma bad_first_byte:
  assumes "unat s0 < 256" "unat s1 < 256" "unat s2 < 256" "unat s3 < 256"
    and "utf8_lengths ! (unat s0 div 8) = 0" and "utf8_decode_bytes s0 s1 s2 s3 = (next, c, e)"
  shows "next = 1 \<and> e \<noteq> 0"
proof -
  have l: "utf8_lengths ! unat (drop_bit 3 s0) = 0" using assms(5) by (simp add: unat_drop)
  let ?c = "push_bit 18 (s0 AND 0) OR push_bit 12 (s1 AND 0x3f) OR push_bit 6 (s2 AND 0x3f) OR push_bit 0 (s3 AND 0x3f)"
  have m: "utf8_masks ! 0 = 0" "utf8_shiftc ! 0 = 0" "utf8_shifte ! 0 = utf8_shifte ! 4" "utf8_mins ! 0 = 4194304"
    by (simp_all add: utf8_masks_def utf8_shiftc_def utf8_shifte_def utf8_mins_def)
  have "unat ?c = raw_code_point 0 (unat s1) (unat s2) (unat s3)"
    using raw_code_point_bits [OF assms(2-4), of "s0 AND 0"] by simp
  also have "\<dots> < 4194304"
  proof -
    have "n mod 64 < 64" for n :: nat by simp
    from this [of "unat s1"] this [of "unat s2"] this [of "unat s3"] show ?thesis
      unfolding raw_code_point_def by linarith
  qed
  finally have low: "?c < 4194304" by (simp add: u32_less_unat)
  have "c = drop_bit (utf8_shiftc ! 0) (push_bit 18 (s0 AND utf8_masks ! 0) OR push_bit 12 (s1 AND 0x3f)
      OR push_bit 6 (s2 AND 0x3f) OR push_bit 0 (s3 AND 0x3f))" and nxt: "next = 0 + of_bool (0 = (0 :: nat))" and
    e: "e = drop_bit (utf8_shifte ! 0)
      ((push_bit 6 (of_bool (c < utf8_mins ! 0)) OR push_bit 7 (of_bool (drop_bit 11 c = 0x1b))
        OR push_bit 8 (of_bool (c > 0x10FFFF)) OR drop_bit 2 (s1 AND 0xc0) OR drop_bit 4 (s2 AND 0xc0) OR drop_bit 6 s3) XOR 0x2a)"
    using assms(6) unfolding utf8_decode_bytes_def Let_def l or.assoc by auto
  then have low0: "c < utf8_mins ! 0" using low by (simp only: m drop_bit_0 id_apply)
  have "e \<noteq> 0" unfolding e m(3) using error_zero_iff [OF assms(2-4), of 4] low0 by blast
  with nxt show ?thesis by simp
qed

lemma unat_of_char: "unat (of_char x :: u32) = of_char x" "of_char x < (256 :: nat)"
proof -
  show "of_char x < (256 :: nat)" by simp
  have "(of_char x :: u32) = of_nat (of_char x)" by (simp only: of_nat_of_char)
  moreover have "unat (of_nat (of_char x) :: u32) = of_char x"
  proof -
    have "of_char x < (256 :: nat)" by simp
    then have "of_char x < (2 ^ 32 :: nat)" by (rule less_le_trans) simp
    then show ?thesis by (simp only: unsigned_of_nat take_bit_nat_eq_self len_num1 len_bit0 len_num0) (simp add: take_bit_nat_eq_self)
  qed
  ultimately show "unat (of_char x :: u32) = of_char x" by metis
qed

lemma utf8_decode_encodings:
  assumes "4 \<le> length s"
  shows "\<exists>next c e. utf8_decode s = Inr (next, c, e) \<and> 1 \<le> next \<and> next \<le> 4
    \<and> (e = 0 \<longleftrightarrow> utf8_encode c = Some (take next s))
    \<and> (\<forall>c' bs. utf8_encode c' = Some bs \<and> take (length bs) s = bs \<longrightarrow> c = c' \<and> next = length bs \<and> e = 0)"
proof -
  obtain x0 x1 x2 x3 r where s: "s = x0 # x1 # x2 # x3 # r"
    using assms by (auto simp: numeral_eq_Suc Suc_le_length_iff)
  obtain nxt c e where d: "utf8_decode_bytes (of_char x0) (of_char x1) (of_char x2) (of_char x3) = (nxt, c, e)"
    by (cases "utf8_decode_bytes (of_char x0) (of_char x1) (of_char x2) (of_char x3)")
  have dec: "utf8_decode s = Inr (nxt, c, e)" by (simp add: s utf8_decode_def read_at_def d)
  let ?n = "[of_char x0, of_char x1, of_char x2, of_char x3] :: nat list"
  define len where "len = utf8_lengths ! (of_char x0 div 8)"
  have lens: "len \<in> {0, 1, 2, 3, 4}" using utf8_lengths_eq [of "of_char x0"] by (simp add: len_def)
  have taken: "map of_char (take k s) = take k ?n" if "k \<le> 4" for k
    using that by (simp add: s take_Cons' split: if_splits)
  have unique: "c' = c \<and> nxt = length bs \<and> e = 0"
    if bs: "utf8_encode c' = Some bs" "take (length bs) s = bs" for c' bs
  proof -
    have num: "utf8_numbers (unat c') = Some (map of_char bs)" using bs(1) by (simp add: utf8_encode_Some_iff)
    from numbers_first [OF num] have f: "bs \<noteq> []" "length bs \<le> 4" "utf8_lengths ! (of_char (hd bs) div 8) = length bs"
      by (auto simp: hd_map)
    have "hd bs = x0" using bs(2) f(1) by (cases bs) (auto simp: s)
    with f have ln: "len = length bs" by (simp add: len_def)
    with num bs(2) taken [of len] f(2) have "utf8_numbers (unat c') = Some (take len ?n)" by simp
    moreover have pos: "len \<in> {1, 2, 3, 4}" using lens ln f(1) by auto
    ultimately have "decoded len (of_char x0) (of_char x1) (of_char x2) (of_char x3) = unat c'"
      by (rule decoded_numbers)
    then show ?thesis
      using utf8_decode_numbers [of "of_char x0" "of_char x1" "of_char x2" "of_char x3" len nxt c e, unfolded unat_of_char]
        decodes_iff_numbers [of "of_char x0" "of_char x1" "of_char x2" "of_char x3" len]
        d pos ln len_def f(1) \<open>utf8_numbers (unat c') = Some (take len ?n)\<close>
      by (simp add: word_unat_eq_iff)
  qed
  have u: "\<forall>c' bs. utf8_encode c' = Some bs \<and> take (length bs) s = bs \<longrightarrow> c = c' \<and> nxt = length bs \<and> e = 0"
    using unique by metis
  have "1 \<le> nxt \<and> nxt \<le> 4 \<and> (e = 0 \<longleftrightarrow> utf8_encode c = Some (take nxt s))"
  proof (cases "len = 0")
    case True
    from bad_first_byte [of "of_char x0" "of_char x1" "of_char x2" "of_char x3", unfolded unat_of_char] True d
    have n: "nxt = 1" "e \<noteq> 0" by (auto simp: len_def)
    have "utf8_encode c \<noteq> Some (take nxt s)"
    proof
      assume "utf8_encode c = Some (take nxt s)"
      from unique [OF this] n show False by (simp add: s)
    qed
    with n show ?thesis by simp
  next
    case False
    then have pos: "len \<noteq> 0" "len \<le> 4" "1 \<le> len" using lens by auto
    from utf8_decode_numbers [of "of_char x0" "of_char x1" "of_char x2" "of_char x3" len nxt c e, unfolded unat_of_char]
    have n: "nxt = len" "unat c = decoded len (of_char x0) (of_char x1) (of_char x2) (of_char x3)"
      "e = 0 \<longleftrightarrow> decodes len (of_char x0) (of_char x1) (of_char x2) (of_char x3)"
      using pos(1) d by (simp_all add: len_def)
    have "utf8_encode c = Some (take nxt s) \<longleftrightarrow> utf8_numbers (unat c) = Some (take len ?n)"
      unfolding utf8_encode_Some_iff n(1) taken [OF pos(2)] ..
    then have "e = 0 \<longleftrightarrow> utf8_encode c = Some (take nxt s)"
      unfolding n(2,3) using decodes_iff_numbers [of "of_char x0" "of_char x1" "of_char x2" "of_char x3" len] pos(1)
      by (simp add: len_def)
    then show ?thesis using n(1) pos by simp
  qed
  with dec u show ?thesis by blast
qed

text \<open>
  C27: The branchless decoder accepts exactly the encodings. On every string of at least four
  bytes it reads no further, moves on by one to four bytes, and reports no error precisely when
  the bytes it moves over are what the encoder writes for the code point it answers; when the
  string starts with the encoding of a code point, that code point is the answer. Overlong forms,
  surrogates, values above \<open>0x10FFFF\<close>, stray tails and cut-off characters are errors.
\<close>

theorem utf8_decode_accepts_encodings:
  assumes "4 \<le> length s"
  shows "\<exists>next c e. utf8_decode s = Inr (next, c, e) \<and> 1 \<le> next \<and> next \<le> 4
    \<and> (e = 0 \<longleftrightarrow> utf8_encode c = Some (take next s))
    \<and> (\<forall>c' bs. utf8_encode c' = Some bs \<and> take (length bs) s = bs \<longrightarrow> c = c' \<and> next = length bs \<and> e = 0)"
  using assms by (rule utf8_decode_encodings)

theorem utf8_decode_accepts_encodings_witness:
  "\<exists>next c e. utf8_decode [CHR 0xE2, CHR 0x82, CHR 0xAC, CHR 0x00] = Inr (next, c, e) \<and> next \<le> 4
     \<and> (e = 0 \<longleftrightarrow> utf8_encode c = Some (take next [CHR 0xE2, CHR 0x82, CHR 0xAC, CHR 0x00]))"
  using utf8_decode_accepts_encodings [of "[CHR 0xE2, CHR 0x82, CHR 0xAC, CHR 0x00]"] by auto

section \<open>Walking over code points\<close>

definition invalid_code_point :: u32 where "invalid_code_point = 0xFFFFFFFF"

text \<open>
  The callback gets the code point, the offset and the bytes of its piece, and a state of its
  own; it answers whether to go on. \<open>decode_piece\<close> is the local \<open>decode\<close>: \<open>buf\<close> is what
  \<open>buf_ptr\<close> points to, \<open>p\<close> the position of \<open>ptr\<close> in \<open>s\<close>; its answer is how far to advance.
\<close>

type_synonym 's visitor = "u32 \<Rightarrow> nat \<Rightarrow> bytes \<Rightarrow> 's \<Rightarrow> 's \<times> bool"

definition decode_piece :: "'s visitor \<Rightarrow> bytes \<Rightarrow> bytes \<Rightarrow> nat \<Rightarrow> 's \<Rightarrow> fault + nat option \<times> 's" where
  "decode_piece f s buf p st =
     bindE (utf8_decode buf) (\<lambda>(next, cp, error).
     bindE (read_at s p (if error \<noteq> 0 then 1 else next)) (\<lambda>sv.
     let (st, result) = f (if error \<noteq> 0 then invalid_code_point else cp) p sv st
     in Inr (if result then Some (if error \<noteq> 0 then 1 else next) else None, st)))"

lemma utf8_decode_pos: "utf8_decode s = Inr (n, c, e) \<Longrightarrow> 0 < n"
proof -
  assume d: "utf8_decode s = Inr (n, c, e)"
  then have "4 \<le> length s" by (auto simp: utf8_decode_def bindE_eq_Inr_iff read_at_eq_Inr_iff)
  from utf8_decode_encodings [OF this] d show ?thesis by auto
qed

lemma decode_piece_pos: "decode_piece f s buf p st = Inr (Some n, st') \<Longrightarrow> 0 < n"
  using utf8_decode_pos [of buf]
  by (auto simp: decode_piece_def Let_def bindE_eq_Inr_iff case_prod_beta split: if_split_asm)

function walk_blocks :: "'s visitor \<Rightarrow> bytes \<Rightarrow> nat \<Rightarrow> 's \<Rightarrow> fault + nat option \<times> 's" where
  "walk_blocks f s p st =
     (if p + 4 \<le> length s then
        case decode_piece f s (drop p s) p st of
          Inl e \<Rightarrow> Inl e
        | Inr (None, st) \<Rightarrow> Inr (None, st)
        | Inr (Some n, st) \<Rightarrow> walk_blocks f s (p + n) st
      else Inr (Some p, st))"
  by pat_completeness auto
termination by (relation "measure (\<lambda>(f, s, p, st). length s - p)") (auto dest: decode_piece_pos)

function walk_tail :: "'s visitor \<Rightarrow> bytes \<Rightarrow> bytes \<Rightarrow> nat \<Rightarrow> nat \<Rightarrow> nat \<Rightarrow> 's \<Rightarrow> fault + 's" where
  "walk_tail f s buf b left p st =
     (case decode_piece f s (drop b buf) p st of
        Inl e \<Rightarrow> Inl e
      | Inr (None, st) \<Rightarrow> Inr st
      | Inr (Some n, st) \<Rightarrow> if b + n < left then walk_tail f s buf (b + n) left (p + n) st else Inr st)"
  by pat_completeness auto
termination by (relation "measure (\<lambda>(f, s, buf, b, left, p, st). left - b)") (auto dest: decode_piece_pos)

declare walk_blocks.simps [simp del] walk_tail.simps [simp del]

definition for_each_codepoint :: "'s visitor \<Rightarrow> bytes \<Rightarrow> 's \<Rightarrow> fault + 's" where
  "for_each_codepoint f s st =
     bindE (if 4 \<le> length s then walk_blocks f s 0 st else Inr (Some 0, st)) (\<lambda>(p, st).
       case p of
         None \<Rightarrow> Inr st
       | Some p \<Rightarrow>
           let num_chars_left = length s - p in
           if num_chars_left \<noteq> 0 then
             if num_chars_left \<le> 7 then
               walk_tail f s (drop p s @ replicate (7 - num_chars_left) (CHR 0x00)) 0 num_chars_left p st
             else Inl HeapOverflow
           else Inr st)"

text \<open>\<open>compute_width\<close> and \<open>code_point_index\<close> for \<open>char\<close> strings.\<close>

definition is_wide :: "u32 \<Rightarrow> bool" where
  "is_wide cp \<longleftrightarrow>
     cp \<ge> 0x1100 \<and>
     (cp \<le> 0x115f \<or> cp = 0x2329 \<or> cp = 0x232a
      \<or> cp \<ge> 0x2e80 \<and> cp \<le> 0xa4cf \<and> cp \<noteq> 0x303f
      \<or> cp \<ge> 0xac00 \<and> cp \<le> 0xd7a3
      \<or> cp \<ge> 0xf900 \<and> cp \<le> 0xfaff
      \<or> cp \<ge> 0xfe10 \<and> cp \<le> 0xfe19
      \<or> cp \<ge> 0xfe30 \<and> cp \<le> 0xfe6f
      \<or> cp \<ge> 0xff00 \<and> cp \<le> 0xff60
      \<or> cp \<ge> 0xffe0 \<and> cp \<le> 0xffe6
      \<or> cp \<ge> 0x20000 \<and> cp \<le> 0x2fffd
      \<or> cp \<ge> 0x30000 \<and> cp \<le> 0x3fffd
      \<or> cp \<ge> 0x1f300 \<and> cp \<le> 0x1f64f
      \<or> cp \<ge> 0x1f900 \<and> cp \<le> 0x1f9ff)"

definition compute_width :: "bytes \<Rightarrow> fault + nat" where
  "compute_width s = for_each_codepoint (\<lambda>cp p sv count. (count + (1 + of_bool (is_wide cp)), True)) s 0"

definition code_point_index :: "bytes \<Rightarrow> nat \<Rightarrow> fault + nat" where
  "code_point_index s n =
     map_sum id snd (for_each_codepoint
       (\<lambda>cp p sv (n, result). if n \<noteq> 0 then ((n - 1, result), True) else ((n, p), False)) s (n, length s))"

section \<open>The pieces of a string\<close>

text \<open>
  The reference: a string falls into the encodings it can be read as, from the left, and
  single bytes that start none. \<open>visit\<close> shows the pieces to a callback until it has enough.
\<close>

function utf8_pieces :: "bytes \<Rightarrow> (u32 \<times> bytes) list" where
  "utf8_pieces s =
     (if s = [] then []
      else case utf8_decode (s @ [CHR 0x00, CHR 0x00, CHR 0x00]) of
        Inl _ \<Rightarrow> []
      | Inr (n, c, e) \<Rightarrow>
          if e = 0 then (c, take n s) # utf8_pieces (drop n s)
          else (invalid_code_point, [hd s]) # utf8_pieces (tl s))"
  by pat_completeness auto
termination by (relation "measure length") (auto dest: utf8_decode_pos)

declare utf8_pieces.simps [simp del]

fun visit :: "'s visitor \<Rightarrow> nat \<Rightarrow> (u32 \<times> bytes) list \<Rightarrow> 's \<Rightarrow> 's" where
  "visit f p [] st = st"
| "visit f p ((cp, bs) # ps) st =
     (case f cp p bs st of (st, result) \<Rightarrow> if result then visit f (p + length bs) ps st else st)"

lemma encode_tail_not_nul:
  assumes "utf8_encode c = Some bs" "0 < i" "i < length bs"
  shows "bs ! i \<noteq> CHR 0x00"
proof -
  have "utf8_numbers (unat c) = Some (map of_char bs)" using assms(1) by (simp add: utf8_encode_Some_iff)
  then have "(128 :: nat) \<le> map of_char bs ! i"
    using assms(2,3) by (auto simp: utf8_numbers_def nth_Cons' split: if_splits)
  then show ?thesis using assms(3) by auto
qed

lemma utf8_decode_prefix:
  "take 4 s = take 4 t \<Longrightarrow> 4 \<le> length s \<Longrightarrow> 4 \<le> length t \<Longrightarrow> utf8_decode s = utf8_decode t"
  by (simp add: utf8_decode_def read_at_def)

lemma padded_decode:
  assumes "r \<noteq> []" and "utf8_decode (r @ [CHR 0x00, CHR 0x00, CHR 0x00]) = Inr (n, c, e)" and "e = 0"
  shows "n \<le> length r \<and> utf8_encode c = Some (take n r)"
proof -
  let ?r = "r @ [CHR 0x00, CHR 0x00, CHR 0x00]"
  have "4 \<le> length ?r" using assms(1) by (cases r) auto
  from utf8_decode_encodings [OF this] assms(2,3) have enc: "utf8_encode c = Some (take n ?r)" "n \<le> 4" by auto
  have "n \<le> length r"
  proof (rule ccontr)
    assume "\<not> n \<le> length r"
    then have "0 < length r" "length r < length (take n ?r)" using assms(1) enc(2) by (auto simp: Suc_le_eq)
    from encode_tail_not_nul [OF enc(1) this] show False using \<open>\<not> n \<le> length r\<close> by (simp add: nth_append)
  qed
  with enc(1) show ?thesis by simp
qed

text \<open>One step of a walk on a buffer that agrees with the rest of the string.\<close>

lemma decode_piece_pieces:
  assumes "p < length s" and "4 \<le> length buf" and "take 4 buf = take 4 (drop p s @ [CHR 0x00, CHR 0x00, CHR 0x00])"
  obtains cp bs where "utf8_pieces (drop p s) = (cp, bs) # utf8_pieces (drop (p + length bs) s)"
    "bs \<noteq> []" "p + length bs \<le> length s"
    "decode_piece f s buf p st = Inr (case f cp p bs st of (st, result) \<Rightarrow> (if result then Some (length bs) else None, st))"
proof -
  let ?r = "drop p s"
  have r: "?r \<noteq> []" "4 \<le> length (?r @ [CHR 0x00, CHR 0x00, CHR 0x00])" using assms(1) by auto
  from utf8_decode_encodings [OF r(2)] obtain n c e where
    d: "utf8_decode (?r @ [CHR 0x00, CHR 0x00, CHR 0x00]) = Inr (n, c, e)" "1 \<le> n" by blast
  have b: "utf8_decode buf = Inr (n, c, e)" using utf8_decode_prefix [OF assms(3,2) r(2)] d(1) by simp
  show thesis
  proof (cases "e = 0")
    case True
    from padded_decode [OF r(1) d(1) True] have n: "p + n \<le> length s" using assms(1) by auto
    show thesis
    proof (rule that)
      show "utf8_pieces ?r = (c, take n ?r) # utf8_pieces (drop (p + length (take n ?r)) s)"
        using r(1) d True n by (subst utf8_pieces.simps) (simp add: add.commute min_def)
      show "decode_piece f s buf p st = Inr (case f c p (take n ?r) st of (st, result) \<Rightarrow>
          (if result then Some (length (take n ?r)) else None, st))"
        using n b True by (simp add: decode_piece_def read_at_def split: prod.split)
    qed (use n d(2) r(1) in auto)
  next
    case False
    have h: "take 1 ?r = [hd ?r]" using r(1) by (cases ?r) auto
    show thesis
    proof (rule that)
      show "utf8_pieces ?r = (invalid_code_point, [hd ?r]) # utf8_pieces (drop (p + length [hd ?r]) s)"
        using r(1) d False by (subst utf8_pieces.simps) (simp add: tl_drop drop_Suc)
      show "decode_piece f s buf p st = Inr (case f invalid_code_point p [hd ?r] st of (st, result) \<Rightarrow>
          (if result then Some (length [hd ?r]) else None, st))"
        using assms(1) b False h by (simp add: decode_piece_def read_at_def split: prod.split)
    qed (use assms(1) in auto)
  qed
qed

lemma walk_tail_visits:
  "buf = drop p0 s @ replicate (7 - left) (CHR 0x00) \<Longrightarrow> left = length s - p0 \<Longrightarrow> left \<le> 3 \<Longrightarrow>
    b < left \<Longrightarrow> p = p0 + b \<Longrightarrow> walk_tail f s buf b left p st = Inr (visit f p (utf8_pieces (drop p s)) st)"
proof (induction f s buf b left p st rule: walk_tail.induct)
  case (1 f s buf b left p st)
  have p: "p < length s" using 1(3-6) by simp
  have "length (drop b buf) = 7 - b" using 1(2-6) by simp
  then have len: "4 \<le> length (drop b buf)" using 1(4,5) by simp
  have "drop b buf = drop p s @ replicate (7 - left) (CHR 0x00)" using 1(2-6) by (simp add: add.commute)
  moreover have "replicate (7 - left) (CHR 0x00) = [CHR 0x00, CHR 0x00, CHR 0x00] @ replicate (4 - left) (CHR 0x00)"
  proof -
    have "7 - left = 3 + (4 - left)" using 1(4) by simp
    then show ?thesis by (simp only: replicate_add) (simp add: numeral_eq_Suc)
  qed
  ultimately have tk: "take 4 (drop b buf) = take 4 (drop p s @ [CHR 0x00, CHR 0x00, CHR 0x00])"
    using p take_append [of "4 + p - length s" "[CHR 0x00, CHR 0x00, CHR 0x00]" "replicate (4 - left) (CHR 0x00)"]
    by simp
  from decode_piece_pieces [OF p len tk, of f st] obtain cp bs where
    ps: "utf8_pieces (drop p s) = (cp, bs) # utf8_pieces (drop (p + length bs) s)" "p + length bs \<le> length s" and
    d: "decode_piece f s (drop b buf) p st = Inr (case f cp p bs st of (st, result) \<Rightarrow> (if result then Some (length bs) else None, st))"
    by metis
  show ?case
  proof (cases "snd (f cp p bs st)")
    case True
    then have d': "decode_piece f s (drop b buf) p st = Inr (Some (length bs), fst (f cp p bs st))"
      using d by (simp add: case_prod_beta)
    have "b + length bs < left \<Longrightarrow> walk_tail f s buf (b + length bs) left (p + length bs) (fst (f cp p bs st))
        = Inr (visit f (p + length bs) (utf8_pieces (drop (p + length bs) s)) (fst (f cp p bs st)))"
      using 1(1) [OF d' refl refl _ 1(2-4)] 1(6) by simp
    moreover have "\<not> b + length bs < left \<Longrightarrow> utf8_pieces (drop (p + length bs) s) = []"
      using ps(2) 1(3,6) by (subst utf8_pieces.simps) simp
    ultimately show ?thesis
      using True by (subst walk_tail.simps) (auto simp: d' ps(1) case_prod_beta)
  next
    case False
    then show ?thesis using d by (subst walk_tail.simps) (simp add: ps(1) case_prod_beta)
  qed
qed

lemma walk_blocks_visits:
  "p \<le> length s \<Longrightarrow>
    (\<exists>st'. walk_blocks f s p st = Inr (None, st') \<and> visit f p (utf8_pieces (drop p s)) st = st')
    \<or> (\<exists>p' st'. walk_blocks f s p st = Inr (Some p', st') \<and> p' \<le> length s \<and> length s < p' + 4
        \<and> visit f p (utf8_pieces (drop p s)) st = visit f p' (utf8_pieces (drop p' s)) st')"
proof (induction f s p st rule: walk_blocks.induct)
  case (1 f s p st)
  show ?case
  proof (cases "p + 4 \<le> length s")
    case False
    then show ?thesis using 1(2) by (subst walk_blocks.simps, subst walk_blocks.simps) auto
  next
    case True
    then have p: "p < length s" "4 \<le> length (drop p s)" by simp_all
    have tk: "take 4 (drop p s) = take 4 (drop p s @ [CHR 0x00, CHR 0x00, CHR 0x00])" using True by simp
    from decode_piece_pieces [OF p tk, of f st] obtain cp bs where
      ps: "utf8_pieces (drop p s) = (cp, bs) # utf8_pieces (drop (p + length bs) s)" "p + length bs \<le> length s" and
      d: "decode_piece f s (drop p s) p st = Inr (case f cp p bs st of (st, result) \<Rightarrow> (if result then Some (length bs) else None, st))"
      by metis
    show ?thesis
    proof (cases "snd (f cp p bs st)")
      case ok: True
      then have d': "decode_piece f s (drop p s) p st = Inr (Some (length bs), fst (f cp p bs st))"
        using d by (simp add: case_prod_beta)
      have w: "walk_blocks f s p st = walk_blocks f s (p + length bs) (fst (f cp p bs st))"
        using True by (subst walk_blocks.simps) (simp add: d')
      have v: "visit f p (utf8_pieces (drop p s)) st
          = visit f (p + length bs) (utf8_pieces (drop (p + length bs) s)) (fst (f cp p bs st))"
        using ok by (simp add: ps(1) case_prod_beta)
      show ?thesis unfolding w v using 1(1) [OF True d' refl refl ps(2)] .
    next
      case False
      then show ?thesis using True d by (subst walk_blocks.simps, subst walk_blocks.simps) (simp add: ps(1) case_prod_beta)
    qed
  qed
qed

lemma for_each_codepoint_visits: "for_each_codepoint f s st = Inr (visit f 0 (utf8_pieces s) st)"
proof -
  have tail: "bindE (Inr (Some p, st')) (\<lambda>(p, st). case p of None \<Rightarrow> Inr st | Some p \<Rightarrow>
        let n = length s - p in
        if n \<noteq> 0 then if n \<le> 7 then walk_tail f s (drop p s @ replicate (7 - n) (CHR 0x00)) 0 n p st else Inl HeapOverflow
        else Inr st) = Inr (visit f p (utf8_pieces (drop p s)) st')"
    if "p \<le> length s" "length s < p + 4" for p st'
  proof (cases "p = length s")
    case True
    then show ?thesis by (simp add: utf8_pieces.simps [of "[]"])
  next
    case False
    then show ?thesis using that walk_tail_visits [OF refl refl, of s p 0 p f st'] by (simp add: Let_def)
  qed
  show ?thesis
  proof (cases "4 \<le> length s")
    case True
    then show ?thesis
      using walk_blocks_visits [of 0 s f st] tail unfolding for_each_codepoint_def by fastforce
  next
    case False
    then show ?thesis using tail [of 0 st] unfolding for_each_codepoint_def by simp
  qed
qed

text \<open>What the pieces are: they make up the string, and each encoding that starts at one is it.\<close>

lemma utf8_pieces_step:
  assumes "s \<noteq> []"
  obtains c bs where "utf8_pieces s = (c, bs) # utf8_pieces (drop (length bs) s)" "bs \<noteq> []" "take (length bs) s = bs"
    "utf8_encode c = Some bs \<or> c = invalid_code_point \<and> length bs = 1"
    "\<And>c' bs'. utf8_encode c' = Some bs' \<Longrightarrow> take (length bs') s = bs' \<Longrightarrow> c' = c \<and> bs' = bs"
proof -
  let ?s = "s @ [CHR 0x00, CHR 0x00, CHR 0x00]"
  have len: "4 \<le> length ?s" using assms by (cases s) auto
  from utf8_decode_encodings [OF len] obtain n c e where
    d: "utf8_decode ?s = Inr (n, c, e)" "1 \<le> n" and
    u: "\<And>c' bs. utf8_encode c' = Some bs \<Longrightarrow> take (length bs) ?s = bs \<Longrightarrow> c = c' \<and> n = length bs \<and> e = 0" by blast
  have u': "c = c' \<and> n = length bs \<and> e = 0" if "utf8_encode c' = Some bs" "take (length bs) s = bs" for c' bs
  proof (rule u [OF that(1)])
    have "length bs \<le> length s" using that(2) by (metis length_take min.cobounded1)
    then show "take (length bs) ?s = bs" using that(2) by simp
  qed
  show thesis
  proof (cases "e = 0")
    case True
    from padded_decode [OF assms d(1) True] have n: "n \<le> length s" "utf8_encode c = Some (take n s)" by auto
    show thesis
    proof (rule that)
      show "utf8_pieces s = (c, take n s) # utf8_pieces (drop (length (take n s)) s)"
        using assms d True n by (subst utf8_pieces.simps) (simp add: min_def)
      show "take n s \<noteq> []" using d(2) assms by simp
      show "take (length (take n s)) s = take n s" using n(1) by (simp add: min_def)
      show "utf8_encode c = Some (take n s) \<or> c = invalid_code_point \<and> length (take n s) = 1" using n(2) by simp
      fix c' bs' assume "utf8_encode c' = Some bs'" "take (length bs') s = bs'"
      from u' [OF this] this(2) show "c' = c \<and> bs' = take n s" by simp
    qed
  next
    case False
    have h: "take 1 s = [hd s]" using assms by (cases s) auto
    show thesis
    proof (rule that)
      show "utf8_pieces s = (invalid_code_point, [hd s]) # utf8_pieces (drop (length [hd s]) s)"
        using assms d False by (subst utf8_pieces.simps) (simp add: drop_Suc)
      show "take (length [hd s]) s = [hd s]" using h by simp
      fix c' bs' assume "utf8_encode c' = Some bs'" "take (length bs') s = bs'"
      from u' [OF this] False show "c' = invalid_code_point \<and> bs' = [hd s]" by simp
    qed simp_all
  qed
qed

lemma utf8_pieces_Nil [simp]: "utf8_pieces [] = []"
  by (simp add: utf8_pieces.simps)

lemma utf8_pieces_concat: "concat (map snd (utf8_pieces s)) = s
    \<and> list_all (\<lambda>(c, bs). utf8_encode c = Some bs \<or> c = invalid_code_point \<and> length bs = 1) (utf8_pieces s)"
proof (induction s rule: length_induct)
  case (1 s)
  show ?case
  proof (cases "s = []")
    case False
    from utf8_pieces_step [OF this] obtain c bs where
      p: "utf8_pieces s = (c, bs) # utf8_pieces (drop (length bs) s)" "bs \<noteq> []" "take (length bs) s = bs"
        "utf8_encode c = Some bs \<or> c = invalid_code_point \<and> length bs = 1" by metis
    have "length (drop (length bs) s) < length s" using p(2) False by simp
    with 1 have "concat (map snd (utf8_pieces (drop (length bs) s))) = drop (length bs) s
      \<and> list_all (\<lambda>(c, bs). utf8_encode c = Some bs \<or> c = invalid_code_point \<and> length bs = 1) (utf8_pieces (drop (length bs) s))"
      by blast
    then show ?thesis using p append_take_drop_id [of "length bs" s] by (simp only: p(1)) simp
  qed simp
qed

lemma utf8_pieces_encoded:
  "to_utf8_convert cs = Some s \<Longrightarrow> map fst (utf8_pieces s) = cs"
proof (induction cs arbitrary: s)
  case (Cons c cs)
  then obtain bs rest where b: "utf8_encode c = Some bs" "to_utf8_convert cs = Some rest" "s = bs @ rest"
    by (auto split: option.splits)
  have "bs \<noteq> []" using b(1) by (auto simp: utf8_encode_def split: if_splits)
  with b(3) have "s \<noteq> []" by simp
  from utf8_pieces_step [OF this] obtain c' bs' where
    p: "utf8_pieces s = (c', bs') # utf8_pieces (drop (length bs') s)" and u: "c = c' \<and> bs = bs'"
    using b(1,3) by (metis append_eq_conv_conj)
  with b Cons.IH [OF b(2)] show ?case by simp
qed simp

lemma visit_collect: "visit (\<lambda>cp p sv acc. (acc @ [cp], True)) p ps acc = acc @ map fst ps"
  by (induction ps arbitrary: p acc) auto

lemma visit_width:
  "visit (\<lambda>cp p sv count. (count + (1 + of_bool (is_wide cp)), True)) p ps n
     = n + (\<Sum>c \<leftarrow> map fst ps. 1 + of_bool (is_wide c) :: nat)"
  by (induction ps arbitrary: p n) auto

lemma visit_index:
  "snd (visit (\<lambda>cp p sv (n, result). if n \<noteq> 0 then ((n - 1, result), True) else ((n, p), False)) p ps (n, r))
     = (if n < length ps then p + length (concat (map snd (take n ps))) else r)"
proof (induction ps arbitrary: p n)
  case (Cons x ps)
  then show ?case by (cases x; cases n) auto
qed simp

text \<open>
  The walk over a string is exact and stays inside it. Whatever the bytes, the block-wise
  walk with its padded copy of the last bytes makes no read or copy out of bounds and shows the
  callback the pieces of the string in order until it has enough; the pieces make up the string,
  each of them an encoded code point or one byte reported as invalid.
\<close>

theorem codepoint_walk_is_exact:
  "for_each_codepoint f s st = Inr (visit f 0 (utf8_pieces s) st)
   \<and> concat (map snd (utf8_pieces s)) = s
   \<and> list_all (\<lambda>(c, bs). utf8_encode c = Some bs \<or> c = invalid_code_point \<and> length bs = 1) (utf8_pieces s)"
proof (intro conjI)
  show "for_each_codepoint f s st = Inr (visit f 0 (utf8_pieces s) st)" by (rule for_each_codepoint_visits)
  show "concat (map snd (utf8_pieces s)) = s" using utf8_pieces_concat [of s] by blast
  show "list_all (\<lambda>(c, bs). utf8_encode c = Some bs \<or> c = invalid_code_point \<and> length bs = 1) (utf8_pieces s)"
    using utf8_pieces_concat [of s] by blast
qed

text \<open>
  Encoding and walking are inverse. The code points read back from what the encoder makes of
  a list of code points are that list, and the display width counts each once, twice if wide.
\<close>

theorem to_utf8_roundtrip:
  assumes "to_utf8_convert cs = Some s"
  shows "for_each_codepoint (\<lambda>cp p sv acc. (acc @ [cp], True)) s [] = Inr cs
    \<and> compute_width s = Inr (\<Sum>c \<leftarrow> cs. 1 + of_bool (is_wide c))"
proof
  show "for_each_codepoint (\<lambda>cp p sv acc. (acc @ [cp], True)) s [] = Inr cs"
    by (simp add: for_each_codepoint_visits visit_collect utf8_pieces_encoded [OF assms])
  show "compute_width s = Inr (\<Sum>c \<leftarrow> cs. 1 + of_bool (is_wide c))"
    unfolding compute_width_def for_each_codepoint_visits visit_width utf8_pieces_encoded [OF assms] by simp
qed

theorem to_utf8_roundtrip_witness:
  "\<exists>s. to_utf8_convert [0x48, 0x20AC, 0x1F600] = Some s \<and> compute_width s = Inr 4"
proof -
  obtain s where s: "to_utf8_convert [0x48, 0x20AC, 0x1F600] = Some s"
    by (simp add: utf8_encode_def)
  from to_utf8_roundtrip [OF s] show ?thesis using s by (simp add: is_wide_def)
qed

text \<open>
  Cutting a string at a number of code points never splits one. The index the precision
  of a string argument is turned into is the length of the first \<open>n\<close> pieces, or of the whole
  string when it has no more.
\<close>

theorem code_point_index_cuts_between_pieces:
  "code_point_index s n = Inr (length (concat (map snd (take n (utf8_pieces s)))))
   \<and> take (length (concat (map snd (take n (utf8_pieces s))))) s = concat (map snd (take n (utf8_pieces s)))"
proof
  have c: "concat (map snd (utf8_pieces s)) = s" using utf8_pieces_concat by blast
  show "code_point_index s n = Inr (length (concat (map snd (take n (utf8_pieces s)))))"
    unfolding code_point_index_def for_each_codepoint_visits map_sum.simps visit_index using c by simp
  have "concat (map snd (take n (utf8_pieces s))) @ concat (map snd (drop n (utf8_pieces s))) = s"
    using c by (metis append_take_drop_id concat_append map_append)
  then show "take (length (concat (map snd (take n (utf8_pieces s))))) s = concat (map snd (take n (utf8_pieces s)))"
    by (metis append_eq_conv_conj)
qed

end
