(* ===== verification/Fmt_Printable.thy ===== *)
theory Fmt_Printable
  imports Fmt_Utf8 Fmt_Digits
begin

text \<open>
  Which code points fmt prints as they are (\<open>is_printable\<close> and its generated tables in
  \<open>fmt/bundled/format-inl.h\<close>), and how text is escaped for the debug presentation
  (\<open>needs_escape\<close>, \<open>find_escape\<close>, \<open>write_codepoint\<close>, \<open>write_escaped_cp\<close>,
  \<open>write_escaped_string\<close>, \<open>write_escaped_char\<close> in \<open>fmt/bundled/format.h\<close>). A writer is
  modelled by the bytes it appends; a table read outside of the table is a fault.
\<close>

section \<open>The tables\<close>

definition singletons0 :: "(nat \<times> nat) list" where
  "singletons0 =
    [(0x00, 1), (0x03, 5), (0x05, 6), (0x06, 3), (0x07, 6), (0x08, 8), (0x09, 17), (0x0a, 28),
     (0x0b, 25), (0x0c, 20), (0x0d, 16), (0x0e, 13), (0x0f, 4), (0x10, 3), (0x12, 18), (0x13, 9),
     (0x16, 1), (0x17, 5), (0x18, 2), (0x19, 3), (0x1a, 7), (0x1c, 2), (0x1d, 1), (0x1f, 22),
     (0x20, 3), (0x2b, 3), (0x2c, 2), (0x2d, 11), (0x2e, 1), (0x30, 3), (0x31, 2), (0x32, 1),
     (0xa7, 2), (0xa9, 2), (0xaa, 4), (0xab, 8), (0xfa, 2), (0xfb, 5), (0xfd, 4), (0xfe, 3),
     (0xff, 9)]"

definition singletons0_lower :: "nat list" where
  "singletons0_lower =
    [0xad, 0x78, 0x79, 0x8b, 0x8d, 0xa2, 0x30, 0x57, 0x58, 0x8b, 0x8c, 0x90, 0x1c, 0x1d, 0xdd, 0x0e,
     0x0f, 0x4b, 0x4c, 0xfb, 0xfc, 0x2e, 0x2f, 0x3f, 0x5c, 0x5d, 0x5f, 0xb5, 0xe2, 0x84, 0x8d,
     0x8e, 0x91, 0x92, 0xa9, 0xb1, 0xba, 0xbb, 0xc5, 0xc6, 0xc9, 0xca, 0xde, 0xe4, 0xe5, 0xff,
     0x00, 0x04, 0x11, 0x12, 0x29, 0x31, 0x34, 0x37, 0x3a, 0x3b, 0x3d, 0x49, 0x4a, 0x5d, 0x84,
     0x8e, 0x92, 0xa9, 0xb1, 0xb4, 0xba, 0xbb, 0xc6, 0xca, 0xce, 0xcf, 0xe4, 0xe5, 0x00, 0x04,
     0x0d, 0x0e, 0x11, 0x12, 0x29, 0x31, 0x34, 0x3a, 0x3b, 0x45, 0x46, 0x49, 0x4a, 0x5e, 0x64,
     0x65, 0x84, 0x91, 0x9b, 0x9d, 0xc9, 0xce, 0xcf, 0x0d, 0x11, 0x29, 0x45, 0x49, 0x57, 0x64,
     0x65, 0x8d, 0x91, 0xa9, 0xb4, 0xba, 0xbb, 0xc5, 0xc9, 0xdf, 0xe4, 0xe5, 0xf0, 0x0d, 0x11,
     0x45, 0x49, 0x64, 0x65, 0x80, 0x84, 0xb2, 0xbc, 0xbe, 0xbf, 0xd5, 0xd7, 0xf0, 0xf1, 0x83,
     0x85, 0x8b, 0xa4, 0xa6, 0xbe, 0xbf, 0xc5, 0xc7, 0xce, 0xcf, 0xda, 0xdb, 0x48, 0x98, 0xbd,
     0xcd, 0xc6, 0xce, 0xcf, 0x49, 0x4e, 0x4f, 0x57, 0x59, 0x5e, 0x5f, 0x89, 0x8e, 0x8f, 0xb1,
     0xb6, 0xb7, 0xbf, 0xc1, 0xc6, 0xc7, 0xd7, 0x11, 0x16, 0x17, 0x5b, 0x5c, 0xf6, 0xf7, 0xfe,
     0xff, 0x80, 0x0d, 0x6d, 0x71, 0xde, 0xdf, 0x0e, 0x0f, 0x1f, 0x6e, 0x6f, 0x1c, 0x1d, 0x5f,
     0x7d, 0x7e, 0xae, 0xaf, 0xbb, 0xbc, 0xfa, 0x16, 0x17, 0x1e, 0x1f, 0x46, 0x47, 0x4e, 0x4f,
     0x58, 0x5a, 0x5c, 0x5e, 0x7e, 0x7f, 0xb5, 0xc5, 0xd4, 0xd5, 0xdc, 0xf0, 0xf1, 0xf5, 0x72,
     0x73, 0x8f, 0x74, 0x75, 0x96, 0x2f, 0x5f, 0x26, 0x2e, 0x2f, 0xa7, 0xaf, 0xb7, 0xbf, 0xc7,
     0xcf, 0xd7, 0xdf, 0x9a, 0x40, 0x97, 0x98, 0x30, 0x8f, 0x1f, 0xc0, 0xc1, 0xce, 0xff, 0x4e,
     0x4f, 0x5a, 0x5b, 0x07, 0x08, 0x0f, 0x10, 0x27, 0x2f, 0xee, 0xef, 0x6e, 0x6f, 0x37, 0x3d,
     0x3f, 0x42, 0x45, 0x90, 0x91, 0xfe, 0xff, 0x53, 0x67, 0x75, 0xc8, 0xc9, 0xd0, 0xd1, 0xd8,
     0xd9, 0xe7, 0xfe, 0xff]"

definition singletons1 :: "(nat \<times> nat) list" where
  "singletons1 =
    [(0x00, 6), (0x01, 1), (0x03, 1), (0x04, 2), (0x08, 8), (0x09, 2), (0x0a, 5), (0x0b, 2),
     (0x0e, 4), (0x10, 1), (0x11, 2), (0x12, 5), (0x13, 17), (0x14, 1), (0x15, 2), (0x17, 2),
     (0x19, 13), (0x1c, 5), (0x1d, 8), (0x24, 1), (0x6a, 3), (0x6b, 2), (0xbc, 2), (0xd1, 2),
     (0xd4, 12), (0xd5, 9), (0xd6, 2), (0xd7, 2), (0xda, 1), (0xe0, 5), (0xe1, 2), (0xe8, 2),
     (0xee, 32), (0xf0, 4), (0xf8, 2), (0xf9, 2), (0xfa, 2), (0xfb, 1)]"

definition singletons1_lower :: "nat list" where
  "singletons1_lower =
    [0x0c, 0x27, 0x3b, 0x3e, 0x4e, 0x4f, 0x8f, 0x9e, 0x9e, 0x9f, 0x06, 0x07, 0x09, 0x36, 0x3d, 0x3e,
     0x56, 0xf3, 0xd0, 0xd1, 0x04, 0x14, 0x18, 0x36, 0x37, 0x56, 0x57, 0x7f, 0xaa, 0xae, 0xaf,
     0xbd, 0x35, 0xe0, 0x12, 0x87, 0x89, 0x8e, 0x9e, 0x04, 0x0d, 0x0e, 0x11, 0x12, 0x29, 0x31,
     0x34, 0x3a, 0x45, 0x46, 0x49, 0x4a, 0x4e, 0x4f, 0x64, 0x65, 0x5c, 0xb6, 0xb7, 0x1b, 0x1c,
     0x07, 0x08, 0x0a, 0x0b, 0x14, 0x17, 0x36, 0x39, 0x3a, 0xa8, 0xa9, 0xd8, 0xd9, 0x09, 0x37,
     0x90, 0x91, 0xa8, 0x07, 0x0a, 0x3b, 0x3e, 0x66, 0x69, 0x8f, 0x92, 0x6f, 0x5f, 0xee, 0xef,
     0x5a, 0x62, 0x9a, 0x9b, 0x27, 0x28, 0x55, 0x9d, 0xa0, 0xa1, 0xa3, 0xa4, 0xa7, 0xa8, 0xad,
     0xba, 0xbc, 0xc4, 0x06, 0x0b, 0x0c, 0x15, 0x1d, 0x3a, 0x3f, 0x45, 0x51, 0xa6, 0xa7, 0xcc,
     0xcd, 0xa0, 0x07, 0x19, 0x1a, 0x22, 0x25, 0x3e, 0x3f, 0xc5, 0xc6, 0x04, 0x20, 0x23, 0x25,
     0x26, 0x28, 0x33, 0x38, 0x3a, 0x48, 0x4a, 0x4c, 0x50, 0x53, 0x55, 0x56, 0x58, 0x5a, 0x5c,
     0x5e, 0x60, 0x63, 0x65, 0x66, 0x6b, 0x73, 0x78, 0x7d, 0x7f, 0x8a, 0xa4, 0xaa, 0xaf, 0xb0,
     0xc0, 0xd0, 0xae, 0xaf, 0x79, 0xcc, 0x6e, 0x6f, 0x93]"

definition normal0 :: "nat list" where
  "normal0 =
    [0x00, 0x20, 0x5f, 0x22, 0x82, 0xdf, 0x04, 0x82, 0x44, 0x08, 0x1b, 0x04, 0x06, 0x11, 0x81, 0xac,
     0x0e, 0x80, 0xab, 0x35, 0x28, 0x0b, 0x80, 0xe0, 0x03, 0x19, 0x08, 0x01, 0x04, 0x2f, 0x04,
     0x34, 0x04, 0x07, 0x03, 0x01, 0x07, 0x06, 0x07, 0x11, 0x0a, 0x50, 0x0f, 0x12, 0x07, 0x55,
     0x07, 0x03, 0x04, 0x1c, 0x0a, 0x09, 0x03, 0x08, 0x03, 0x07, 0x03, 0x02, 0x03, 0x03, 0x03,
     0x0c, 0x04, 0x05, 0x03, 0x0b, 0x06, 0x01, 0x0e, 0x15, 0x05, 0x3a, 0x03, 0x11, 0x07, 0x06,
     0x05, 0x10, 0x07, 0x57, 0x07, 0x02, 0x07, 0x15, 0x0d, 0x50, 0x04, 0x43, 0x03, 0x2d, 0x03,
     0x01, 0x04, 0x11, 0x06, 0x0f, 0x0c, 0x3a, 0x04, 0x1d, 0x25, 0x5f, 0x20, 0x6d, 0x04, 0x6a,
     0x25, 0x80, 0xc8, 0x05, 0x82, 0xb0, 0x03, 0x1a, 0x06, 0x82, 0xfd, 0x03, 0x59, 0x07, 0x15,
     0x0b, 0x17, 0x09, 0x14, 0x0c, 0x14, 0x0c, 0x6a, 0x06, 0x0a, 0x06, 0x1a, 0x06, 0x59, 0x07,
     0x2b, 0x05, 0x46, 0x0a, 0x2c, 0x04, 0x0c, 0x04, 0x01, 0x03, 0x31, 0x0b, 0x2c, 0x04, 0x1a,
     0x06, 0x0b, 0x03, 0x80, 0xac, 0x06, 0x0a, 0x06, 0x21, 0x3f, 0x4c, 0x04, 0x2d, 0x03, 0x74,
     0x08, 0x3c, 0x03, 0x0f, 0x03, 0x3c, 0x07, 0x38, 0x08, 0x2b, 0x05, 0x82, 0xff, 0x11, 0x18,
     0x08, 0x2f, 0x11, 0x2d, 0x03, 0x20, 0x10, 0x21, 0x0f, 0x80, 0x8c, 0x04, 0x82, 0x97, 0x19,
     0x0b, 0x15, 0x88, 0x94, 0x05, 0x2f, 0x05, 0x3b, 0x07, 0x02, 0x0e, 0x18, 0x09, 0x80, 0xb3,
     0x2d, 0x74, 0x0c, 0x80, 0xd6, 0x1a, 0x0c, 0x05, 0x80, 0xff, 0x05, 0x80, 0xdf, 0x0c, 0xee,
     0x0d, 0x03, 0x84, 0x8d, 0x03, 0x37, 0x09, 0x81, 0x5c, 0x14, 0x80, 0xb8, 0x08, 0x80, 0xcb,
     0x2a, 0x38, 0x03, 0x0a, 0x06, 0x38, 0x08, 0x46, 0x08, 0x0c, 0x06, 0x74, 0x0b, 0x1e, 0x03,
     0x5a, 0x04, 0x59, 0x09, 0x80, 0x83, 0x18, 0x1c, 0x0a, 0x16, 0x09, 0x4c, 0x04, 0x80, 0x8a,
     0x06, 0xab, 0xa4, 0x0c, 0x17, 0x04, 0x31, 0xa1, 0x04, 0x81, 0xda, 0x26, 0x07, 0x0c, 0x05,
     0x05, 0x80, 0xa5, 0x11, 0x81, 0x6d, 0x10, 0x78, 0x28, 0x2a, 0x06, 0x4c, 0x04, 0x80, 0x8d,
     0x04, 0x80, 0xbe, 0x03, 0x1b, 0x03, 0x0f, 0x0d]"

definition normal1 :: "nat list" where
  "normal1 =
    [0x5e, 0x22, 0x7b, 0x05, 0x03, 0x04, 0x2d, 0x03, 0x66, 0x03, 0x01, 0x2f, 0x2e, 0x80, 0x82, 0x1d,
     0x03, 0x31, 0x0f, 0x1c, 0x04, 0x24, 0x09, 0x1e, 0x05, 0x2b, 0x05, 0x44, 0x04, 0x0e, 0x2a,
     0x80, 0xaa, 0x06, 0x24, 0x04, 0x24, 0x04, 0x28, 0x08, 0x34, 0x0b, 0x01, 0x80, 0x90, 0x81,
     0x37, 0x09, 0x16, 0x0a, 0x08, 0x80, 0x98, 0x39, 0x03, 0x63, 0x08, 0x09, 0x30, 0x16, 0x05,
     0x21, 0x03, 0x1b, 0x05, 0x01, 0x40, 0x38, 0x04, 0x4b, 0x05, 0x2f, 0x04, 0x0a, 0x07, 0x09,
     0x07, 0x40, 0x20, 0x27, 0x04, 0x0c, 0x09, 0x36, 0x03, 0x3a, 0x05, 0x1a, 0x07, 0x04, 0x0c,
     0x07, 0x50, 0x49, 0x37, 0x33, 0x0d, 0x33, 0x07, 0x2e, 0x08, 0x0a, 0x81, 0x26, 0x52, 0x4e,
     0x28, 0x08, 0x2a, 0x56, 0x1c, 0x14, 0x17, 0x09, 0x4e, 0x04, 0x1e, 0x0f, 0x43, 0x0e, 0x19,
     0x07, 0x0a, 0x06, 0x48, 0x08, 0x27, 0x09, 0x75, 0x0b, 0x3f, 0x41, 0x2a, 0x06, 0x3b, 0x05,
     0x0a, 0x06, 0x51, 0x06, 0x01, 0x05, 0x10, 0x03, 0x05, 0x80, 0x8b, 0x62, 0x1e, 0x48, 0x08,
     0x0a, 0x80, 0xa6, 0x5e, 0x22, 0x45, 0x0b, 0x0a, 0x06, 0x0d, 0x13, 0x39, 0x07, 0x0a, 0x36,
     0x2c, 0x04, 0x10, 0x80, 0xc0, 0x3c, 0x64, 0x53, 0x0c, 0x48, 0x09, 0x0a, 0x46, 0x45, 0x1b,
     0x48, 0x08, 0x53, 0x1d, 0x39, 0x81, 0x07, 0x46, 0x0a, 0x1d, 0x03, 0x47, 0x49, 0x37, 0x03,
     0x0e, 0x08, 0x0a, 0x06, 0x39, 0x07, 0x0a, 0x81, 0x36, 0x19, 0x80, 0xb7, 0x01, 0x0f, 0x32,
     0x0d, 0x83, 0x9b, 0x66, 0x75, 0x0b, 0x80, 0xc4, 0x8a, 0xbc, 0x84, 0x2f, 0x8f, 0xd1, 0x82,
     0x47, 0xa1, 0xb9, 0x82, 0x39, 0x07, 0x2a, 0x04, 0x02, 0x60, 0x26, 0x0a, 0x46, 0x0a, 0x28,
     0x05, 0x13, 0x82, 0xb0, 0x5b, 0x65, 0x4b, 0x04, 0x39, 0x07, 0x11, 0x40, 0x05, 0x0b, 0x02,
     0x0e, 0x97, 0xf8, 0x08, 0x84, 0xd6, 0x2a, 0x09, 0xa2, 0xf7, 0x81, 0x1f, 0x31, 0x03, 0x11,
     0x04, 0x08, 0x81, 0x8c, 0x89, 0x04, 0x6b, 0x05, 0x0d, 0x03, 0x09, 0x07, 0x10, 0x93, 0x60,
     0x80, 0xf6, 0x0a, 0x73, 0x08, 0x6e, 0x17, 0x46, 0x80, 0x9a, 0x14, 0x0c, 0x57, 0x09, 0x19,
     0x80, 0x87, 0x81, 0x47, 0x03, 0x85, 0x42, 0x0f, 0x15, 0x85, 0x50, 0x2b, 0x80, 0xd5, 0x2d,
     0x03, 0x1a, 0x04, 0x02, 0x81, 0x70, 0x3a, 0x05, 0x01, 0x85, 0x00, 0x80, 0xd7, 0x29, 0x4c,
     0x04, 0x0a, 0x04, 0x02, 0x83, 0x11, 0x44, 0x4c, 0x3d, 0x80, 0xc2, 0x3c, 0x06, 0x01, 0x04,
     0x55, 0x05, 0x1b, 0x34, 0x02, 0x81, 0x0e, 0x2c, 0x04, 0x64, 0x0c, 0x56, 0x0a, 0x80, 0xae,
     0x38, 0x1d, 0x0d, 0x2c, 0x04, 0x09, 0x07, 0x02, 0x0e, 0x06, 0x80, 0x9a, 0x83, 0xd8, 0x08,
     0x0d, 0x03, 0x0d, 0x03, 0x74, 0x0c, 0x59, 0x07, 0x0c, 0x14, 0x0c, 0x04, 0x38, 0x08, 0x0a,
     0x06, 0x28, 0x08, 0x22, 0x4e, 0x81, 0x54, 0x0c, 0x15, 0x03, 0x03, 0x05, 0x07, 0x09, 0x19,
     0x07, 0x07, 0x09, 0x03, 0x0d, 0x07, 0x29, 0x80, 0xcb, 0x25, 0x0a, 0x84, 0x06]"

section \<open>The lookup\<close>

definition table_at :: "nat list \<Rightarrow> nat \<Rightarrow> fault + nat" where
  "table_at t i = (if i < length t then Inr (t ! i) else Inl OutOfBoundsRead)"

text \<open>The loop over \<open>j\<close>: does one of the entries from \<open>j\<close> to \<open>lower_end\<close> equal \<open>low\<close>?\<close>

fun lowers_hit :: "nat list \<Rightarrow> nat \<Rightarrow> nat list \<Rightarrow> fault + bool" where
  "lowers_hit lowers low [] = Inr False"
| "lowers_hit lowers low (j # js) =
     bindE (table_at lowers j) (\<lambda>v. if v = low then Inr True else lowers_hit lowers low js)"

fun singletons_hit :: "nat \<Rightarrow> (nat \<times> nat) list \<Rightarrow> nat list \<Rightarrow> nat \<Rightarrow> fault + bool" where
  "singletons_hit x [] lowers lower_start = Inr False"
| "singletons_hit x ((upper, lower_count) # rest) lowers lower_start =
     (let lower_end = lower_start + lower_count in
      if drop_bit 8 x < upper then Inr False
      else if drop_bit 8 x = upper then
        bindE (lowers_hit lowers (x AND 0xff) [lower_start..<lower_end]) (\<lambda>hit.
          if hit then Inr True else singletons_hit x rest lowers lower_end)
      else singletons_hit x rest lowers lower_end)"

text \<open>The run lengths: those with the top bit set take a second byte.\<close>

fun normal_runs :: "int \<Rightarrow> bool \<Rightarrow> nat list \<Rightarrow> fault + bool" where
  "normal_runs xsigned current [] = Inr current"
| "normal_runs xsigned current (v # rest) =
     (if v AND 0x80 \<noteq> 0 then
        (case rest of
           [] \<Rightarrow> Inl OutOfBoundsRead
         | w # rest' \<Rightarrow>
             let xsigned = xsigned - int (push_bit 8 (v AND 0x7f) OR w) in
             if xsigned < 0 then Inr current else normal_runs xsigned (\<not> current) rest')
      else
        let xsigned = xsigned - int v in
        if xsigned < 0 then Inr current else normal_runs xsigned (\<not> current) rest)"

definition is_printable_16 :: "nat \<Rightarrow> (nat \<times> nat) list \<Rightarrow> nat list \<Rightarrow> nat list \<Rightarrow> fault + bool" where
  "is_printable_16 x singletons lowers normal =
     bindE (singletons_hit x singletons lowers 0) (\<lambda>hit.
       if hit then Inr False else normal_runs (int x) True normal)"

definition is_printable :: "u32 \<Rightarrow> fault + bool" where
  "is_printable cp =
     (let lower = unat cp mod 2 ^ 16 in
      if cp < 0x10000 then is_printable_16 lower singletons0 singletons0_lower normal0
      else if cp < 0x20000 then is_printable_16 lower singletons1 singletons1_lower normal1
      else if 0x2a6de \<le> cp \<and> cp < 0x2a700 then Inr False
      else if 0x2b735 \<le> cp \<and> cp < 0x2b740 then Inr False
      else if 0x2b81e \<le> cp \<and> cp < 0x2b820 then Inr False
      else if 0x2cea2 \<le> cp \<and> cp < 0x2ceb0 then Inr False
      else if 0x2ebe1 \<le> cp \<and> cp < 0x2f800 then Inr False
      else if 0x2fa1e \<le> cp \<and> cp < 0x30000 then Inr False
      else if 0x3134b \<le> cp \<and> cp < 0xe0100 then Inr False
      else if 0xe01f0 \<le> cp \<and> cp < 0x110000 then Inr False
      else Inr (cp < 0x110000))"

definition needs_escape :: "u32 \<Rightarrow> fault + bool" where
  "needs_escape cp =
     (if cp < 0x20 \<or> cp = 0x7f \<or> cp = of_char (CHR 0x22) \<or> cp = of_char (CHR 0x5C) then Inr True
      else map_sum id Not (is_printable cp))"

section \<open>The tables are well formed\<close>

fun runs_complete :: "nat list \<Rightarrow> bool" where
  "runs_complete [] \<longleftrightarrow> True"
| "runs_complete (v # rest) \<longleftrightarrow>
     (if v AND 0x80 \<noteq> 0 then rest \<noteq> [] \<and> runs_complete (tl rest) else runs_complete rest)"

lemma lowers_hit_total: "list_all (\<lambda>j. j < length lowers) js \<Longrightarrow> \<exists>b. lowers_hit lowers low js = Inr b"
  by (induction js) (auto simp: table_at_def)

lemma singletons_hit_total:
  "start + sum_list (map snd singletons) \<le> length lowers \<Longrightarrow> \<exists>b. singletons_hit x singletons lowers start = Inr b"
proof (induction singletons arbitrary: start)
  case (Cons s rest)
  obtain upper count where [simp]: "s = (upper, count)" by fastforce
  obtain h where "lowers_hit lowers (x AND 0xff) [start..<start + count] = Inr h"
    using Cons.prems lowers_hit_total [of lowers "[start..<start + count]"] by (fastforce simp: list_all_iff)
  moreover obtain b where "singletons_hit x rest lowers (start + count) = Inr b"
    using Cons by fastforce
  ultimately show ?case
    by (cases "drop_bit 8 x < upper"; cases "drop_bit 8 x = upper"; cases h) (simp_all add: Let_def ex_bool_eq)
qed (simp add: ex_bool_eq)

lemma normal_runs_total: "runs_complete ns \<Longrightarrow> \<exists>b. normal_runs x c ns = Inr b"
  by (induction x c ns rule: normal_runs.induct) (auto simp: Let_def split: list.splits if_split_asm)

lemma runs_complete_normal0: "runs_complete normal0"
  unfolding normal0_def by simp

lemma runs_complete_normal1: "runs_complete normal1"
  unfolding normal1_def by simp

lemma length_lowers: "length singletons0_lower = 290" "length singletons1_lower = 175"
  unfolding singletons0_lower_def singletons1_lower_def by simp_all

lemma sum_counts: "sum_list (map snd singletons0) = 290" "sum_list (map snd singletons1) = 175"
  unfolding singletons0_def singletons1_def by simp_all

lemmas tables_complete = runs_complete_normal0 runs_complete_normal1 length_lowers sum_counts

lemma is_printable_total: "\<exists>b. is_printable cp = Inr b"
proof -
  have 16: "\<exists>b. is_printable_16 x ss ls ns = Inr b" if "sum_list (map snd ss) \<le> length ls" "runs_complete ns" for x ss ls ns
  proof -
    from that(1) obtain h where "singletons_hit x ss ls 0 = Inr h" using singletons_hit_total [of 0 ss ls x] by auto
    then show ?thesis using normal_runs_total [OF that(2), of "int x" True] by (cases h) (auto simp: is_printable_16_def)
  qed
  have "\<exists>b. is_printable_16 x singletons0 singletons0_lower normal0 = Inr b"
    "\<exists>b. is_printable_16 x singletons1 singletons1_lower normal1 = Inr b" for x
    by (rule 16; simp add: tables_complete)+
  then show ?thesis by (simp add: is_printable_def Let_def ex_bool_eq)
qed

lemma needs_escape_total: "\<exists>b. needs_escape cp = Inr b"
  using is_printable_total [of cp] by (auto simp: needs_escape_def)

lemma ascii_heads:
  "\<exists>rest. singletons0 = (0, 1) # (3, 5) # rest" "\<exists>rest. singletons0_lower = 0xad # rest"
  "\<exists>rest. normal0 = 0 # 0x20 # 0x5f # 0x22 # rest"
  by (simp_all add: singletons0_def singletons0_lower_def normal0_def)

lemma ascii_row:
  assumes "x < 128"
  shows "is_printable_16 x singletons0 singletons0_lower normal0 = Inr (32 \<le> x \<and> x \<noteq> 127)"
proof -
  obtain r1 r2 r3 where t: "singletons0 = (0, 1) # (3, 5) # r1" "singletons0_lower = 0xad # r2"
    "normal0 = 0 # 0x20 # 0x5f # 0x22 # r3"
    using ascii_heads by blast
  have hi: "drop_bit 8 x = 0" using assms by (simp add: drop_bit_eq_div)
  have "x AND 255 = x mod 256"
    using take_bit_eq_mask [of 8 x] by (simp add: take_bit_eq_mod mask_eq_exp_minus_1)
  then have lo: "x AND 0xff \<noteq> 0xad" using assms by simp
  have "lowers_hit singletons0_lower (x AND 0xff) [0..<0 + 1] = Inr False"
    using lo by (simp add: t(2) table_at_def)
  then have s: "singletons_hit x singletons0 singletons0_lower 0 = Inr False"
    unfolding t(1) by (simp add: hi)
  have "normal_runs (int x) True normal0 = Inr (32 \<le> x \<and> x \<noteq> 127)"
    unfolding t(3) using assms by (cases "x < 32"; cases "x < 127") (simp_all add: Let_def)
  then show ?thesis by (simp add: is_printable_16_def s)
qed

lemma is_printable_ascii: "unat cp < 128 \<Longrightarrow> is_printable cp = Inr (32 \<le> unat cp \<and> unat cp \<noteq> 127)"
proof -
  assume c: "unat cp < 128"
  then have "cp < 0x10000" by (simp add: u32_less_unat)
  moreover have "is_printable_16 (unat cp) singletons0 singletons0_lower normal0 = Inr (32 \<le> unat cp \<and> unat cp \<noteq> 127)"
    using c by (rule ascii_row)
  ultimately show ?thesis using c by (simp add: is_printable_def Let_def)
qed

lemma is_printable_large: "0x110000 \<le> cp \<Longrightarrow> is_printable cp = Inr False"
  by (simp add: is_printable_def u32_less_unat)


section \<open>Digits in base 2, 8 and 16\<close>

text \<open>\<open>format_uint<BASE_BITS>\<close> and \<open>count_digits<BITS>\<close> are used with 1, 3 and 4 bits per digit.\<close>

datatype digit_bits = Bits1 | Bits3 | Bits4

fun bits_of :: "digit_bits \<Rightarrow> nat" where
  "bits_of Bits1 = 1"
| "bits_of Bits3 = 3"
| "bits_of Bits4 = 4"

definition digit_char :: "digit_bits \<Rightarrow> bool \<Rightarrow> nat \<Rightarrow> char" where
  "digit_char b upper digit =
     (if bits_of b < 4 then char_of (48 + digit)
      else (if upper then ''0123456789ABCDEF'' else ''0123456789abcdef'') ! digit)"

lemma bits_of_pos: "v div 2 ^ bits_of b \<noteq> 0 \<Longrightarrow> v div 2 ^ bits_of b < (v :: nat)"
proof -
  assume v: "v div 2 ^ bits_of b \<noteq> 0"
  have "(1 :: nat) < 2 ^ bits_of b" by (cases b) simp_all
  then show ?thesis using v by (metis div_0 div_less_dividend gr0I)
qed

function format_uint_loop :: "digit_bits \<Rightarrow> bool \<Rightarrow> nat \<Rightarrow> nat \<Rightarrow> string \<Rightarrow> fault + nat \<times> string" where
  "format_uint_loop b upper v out buf =
     bindE (store_before out [digit_char b upper (v mod 2 ^ bits_of b)] buf) (\<lambda>(out, buf).
       if v div 2 ^ bits_of b \<noteq> 0 then format_uint_loop b upper (v div 2 ^ bits_of b) out buf
       else Inr (out, buf))"
  by pat_completeness auto
termination
  by (relation "measure (\<lambda>(b, upper, v, out, buf). v)") (use bits_of_pos in auto)

declare format_uint_loop.simps [simp del]

text \<open>Writing into a buffer from the position \<open>num_digits\<close> downwards.\<close>

definition format_uint :: "digit_bits \<Rightarrow> string \<Rightarrow> nat \<Rightarrow> nat \<Rightarrow> bool \<Rightarrow> fault + string" where
  "format_uint b buf v num_digits upper = map_sum id snd (format_uint_loop b upper v num_digits buf)"

text \<open>The reference: the digits from the highest to the lowest, none of them a leading zero.\<close>

function show_base :: "digit_bits \<Rightarrow> bool \<Rightarrow> nat \<Rightarrow> string" where
  "show_base b upper v =
     (if v div 2 ^ bits_of b = 0 then [] else show_base b upper (v div 2 ^ bits_of b))
       @ [digit_char b upper (v mod 2 ^ bits_of b)]"
  by pat_completeness auto
termination
  by (relation "measure (\<lambda>(b, upper, v). v)") (use bits_of_pos in auto)

declare show_base.simps [simp del]

lemma show_base_nonempty [simp]: "show_base b upper v \<noteq> []"
  by (subst show_base.simps) simp

lemma store_before_store:
  "store_before out (xs @ [x]) buf = bindE (store_before out [x] buf) (\<lambda>(out, buf). store_before out xs buf)"
  by (auto simp: store_before_def)

lemma format_uint_loop_eq: "format_uint_loop b upper v out buf = store_before out (show_base b upper v) buf"
proof (induction b upper v out buf rule: format_uint_loop.induct)
  case (1 b upper v out buf)
  let ?d = "[digit_char b upper (v mod 2 ^ bits_of b)]"
  show ?case
  proof (cases "v div 2 ^ bits_of b = 0")
    case True
    then show ?thesis by (subst format_uint_loop.simps, subst show_base.simps) (simp split: prod.split)
  next
    case False
    have "format_uint_loop b upper v out buf
        = bindE (store_before out ?d buf) (\<lambda>(out, buf). store_before out (show_base b upper (v div 2 ^ bits_of b)) buf)"
      using 1 False by (subst format_uint_loop.simps) (cases "store_before out ?d buf"; auto)
    also have "\<dots> = store_before out (show_base b upper v) buf"
      using False by (subst (2) show_base.simps) (simp add: store_before_store)
    finally show ?thesis .
  qed
qed

lemma length_show_base: "0 < d \<Longrightarrow> v < 2 ^ (bits_of b * d) \<Longrightarrow> length (show_base b upper v) \<le> d"
proof (induction d arbitrary: v)
  case (Suc d)
  show ?case
  proof (cases "v div 2 ^ bits_of b = 0")
    case True
    then show ?thesis by (subst show_base.simps) simp
  next
    case False
    have "v div 2 ^ bits_of b < 2 ^ (bits_of b * d)"
      using Suc.prems by (simp add: power_add div_less_iff_less_mult mult.commute)
    moreover have "d \<noteq> 0" using Suc.prems False by (intro notI) simp
    ultimately show ?thesis using Suc.IH [of "v div 2 ^ bits_of b"] False by (subst show_base.simps) simp
  qed
qed simp

section \<open>Escaping\<close>

text \<open>\<open>write_codepoint<width>\<close>: a backslash, the kind and the zero-padded hexadecimal digits.\<close>

definition write_codepoint :: "nat \<Rightarrow> char \<Rightarrow> nat \<Rightarrow> fault + bytes" where
  "write_codepoint width prefix cp =
     bindE (format_uint Bits4 (replicate width (CHR ''0'')) cp width False) (\<lambda>buf.
       Inr ([CHR 0x5C, prefix] @ take width buf))"

fun write_codepoints :: "bytes \<Rightarrow> fault + bytes" where
  "write_codepoints [] = Inr []"
| "write_codepoints (c # cs) =
     bindE (write_codepoint 2 (CHR ''x'') (of_char c AND 0xff)) (\<lambda>t.
     bindE (write_codepoints cs) (\<lambda>r. Inr (t @ r)))"

text \<open>An escape is its code point and the bytes \<open>[begin, end)\<close> it was read from.\<close>

definition write_escaped_cp :: "bytes \<Rightarrow> u32 \<Rightarrow> fault + bytes" where
  "write_escaped_cp bs cp =
     (if cp = of_char (CHR 0x0A) then Inr [CHR 0x5C, CHR ''n'']
      else if cp = of_char (CHR 0x0D) then Inr [CHR 0x5C, CHR ''r'']
      else if cp = of_char (CHR 0x09) then Inr [CHR 0x5C, CHR ''t'']
      else if cp = of_char (CHR 0x22) \<or> cp = of_char (CHR 0x27) \<or> cp = of_char (CHR 0x5C)
        then Inr [CHR 0x5C, char_of (unat cp)]
      else if cp < 0x100 then write_codepoint 2 (CHR ''x'') (unat cp)
      else if cp < 0x10000 then write_codepoint 4 (CHR ''u'') (unat cp)
      else if cp < 0x110000 then write_codepoint 8 (CHR ''U'') (unat cp)
      else write_codepoints bs)"

text \<open>Offsets of the first piece that needs an escape, and its code point; no end when there is none.\<close>

definition find_escape :: "bytes \<Rightarrow> fault + nat \<times> nat option \<times> u32" where
  "find_escape s =
     bindE (for_each_codepoint
       (\<lambda>cp p sv result.
          case needs_escape cp of
            Inl e \<Rightarrow> (Inl e, False)
          | Inr True \<Rightarrow> (Inr (p, Some (p + length sv), cp), False)
          | Inr False \<Rightarrow> (result, True))
       s (Inr (length s, None, 0))) (\<lambda>result. result)"


text \<open>What the walk finds, in the string's pieces.\<close>

fun escape_from :: "nat \<Rightarrow> (u32 \<times> bytes) list \<Rightarrow> (nat \<times> nat option \<times> u32) option" where
  "escape_from p [] = None"
| "escape_from p ((cp, bs) # ps) =
     (if needs_escape cp = Inr True then Some (p, Some (p + length bs), cp) else escape_from (p + length bs) ps)"

lemma visit_escape:
  "visit (\<lambda>cp p sv result.
      case needs_escape cp of
        Inl e \<Rightarrow> (Inl e, False)
      | Inr True \<Rightarrow> (Inr (p, Some (p + length sv), cp), False)
      | Inr False \<Rightarrow> (result, True)) p ps r
    = (case escape_from p ps of None \<Rightarrow> r | Some e \<Rightarrow> Inr e)"
proof (induction ps arbitrary: p)
  case (Cons x ps)
  obtain cp bs where [simp]: "x = (cp, bs)" by fastforce
  obtain b where "needs_escape cp = Inr b" using needs_escape_total by blast
  then show ?case using Cons by (cases b) simp_all
qed simp

lemma find_escape_eq:
  "find_escape s = Inr (case escape_from 0 (utf8_pieces s) of None \<Rightarrow> (length s, None, 0) | Some e \<Rightarrow> e)"
  unfolding find_escape_def for_each_codepoint_visits visit_escape by (simp split: option.split)

lemma escape_from_bounds:
  "escape_from p ps = Some (b, e, cp) \<Longrightarrow> list_all (\<lambda>(c, bs). bs \<noteq> []) ps \<Longrightarrow>
     p \<le> b \<and> (\<exists>m. e = Some m \<and> b < m \<and> m \<le> p + length (concat (map snd ps)))"
  by (induction p ps rule: escape_from.induct) (fastforce split: if_splits)+

lemma utf8_pieces_nonempty: "list_all (\<lambda>(c, bs). bs \<noteq> []) (utf8_pieces s)"
proof (induction s rule: length_induct)
  case (1 s)
  show ?case
  proof (cases "s = []")
    case False
    from utf8_pieces_step [OF this] obtain c bs where
      p: "utf8_pieces s = (c, bs) # utf8_pieces (drop (length bs) s)" "bs \<noteq> []" by metis
    have "length (drop (length bs) s) < length s" using p(2) False by simp
    with 1 p show ?thesis by (simp only: p(1)) simp
  qed simp
qed

lemma find_escape_bounds: "find_escape s = Inr (b, Some e, cp) \<Longrightarrow> b < e \<and> e \<le> length s"
proof -
  assume "find_escape s = Inr (b, Some e, cp)"
  then have "escape_from 0 (utf8_pieces s) = Some (b, Some e, cp)" by (auto simp: find_escape_eq split: option.splits)
  from escape_from_bounds [OF this utf8_pieces_nonempty] show ?thesis
    using utf8_pieces_concat [of s] by auto
qed

function write_escaped_body :: "bytes \<Rightarrow> fault + bytes" where
  "write_escaped_body s =
     (case find_escape s of
        Inl e \<Rightarrow> Inl e
      | Inr (b, None, cp) \<Rightarrow> Inr (take b s)
      | Inr (b, Some e, cp) \<Rightarrow>
          bindE (write_escaped_cp (take (e - b) (drop b s)) cp) (\<lambda>t.
          if drop e s \<noteq> [] then bindE (write_escaped_body (drop e s)) (\<lambda>r. Inr (take b s @ t @ r))
          else Inr (take b s @ t)))"
  by pat_completeness auto
termination by (relation "measure length") (auto dest: find_escape_bounds)

declare write_escaped_body.simps [simp del]

definition write_escaped_string :: "bytes \<Rightarrow> fault + bytes" where
  "write_escaped_string s = bindE (write_escaped_body s) (\<lambda>t. Inr ([CHR 0x22] @ t @ [CHR 0x22]))"

definition write_escaped_char :: "char \<Rightarrow> fault + bytes" where
  "write_escaped_char v =
     bindE (needs_escape (scast (of_char v :: 8 word))) (\<lambda>esc.
     bindE (if esc \<and> v \<noteq> CHR 0x22 \<or> v = CHR 0x27
            then write_escaped_cp [v] (scast (of_char v :: 8 word)) else Inr [v]) (\<lambda>t.
     Inr ([CHR 0x27] @ t @ [CHR 0x27])))"

section \<open>Escaped text\<close>

text \<open>The reference: every piece of the string is escaped by itself.\<close>

definition escaped_piece :: "u32 \<times> bytes \<Rightarrow> fault + bytes" where
  "escaped_piece p = (if needs_escape (fst p) = Inr True then write_escaped_cp (snd p) (fst p) else Inr (snd p))"

lemma write_codepoint_eq:
  "0 < width \<Longrightarrow> n < 2 ^ (4 * width) \<Longrightarrow>
     write_codepoint width prefix n
       = Inr ([CHR 0x5C, prefix] @ replicate (width - length (show_base Bits4 False n)) (CHR ''0'') @ show_base Bits4 False n)"
  using length_show_base [of width n Bits4 False]
  by (simp add: write_codepoint_def format_uint_def format_uint_loop_eq store_before_def)


lemma write_codepoint_total: "0 < width \<Longrightarrow> n < 2 ^ (4 * width) \<Longrightarrow> \<exists>t. write_codepoint width prefix n = Inr t"
  by (simp add: write_codepoint_eq)

lemma write_codepoints_total: "\<exists>t. write_codepoints bs = Inr t"
proof (induction bs)
  case (Cons c cs)
  have "of_char c AND 0xff < (2 :: nat) ^ (4 * 2)"
    using take_bit_eq_mask [of 8 "of_char c :: nat"] by (simp add: take_bit_eq_mod mask_eq_exp_minus_1)
  then have "\<exists>t. write_codepoint 2 (CHR ''x'') (of_char c AND 0xff) = Inr t"
    by (rule write_codepoint_total [OF zero_less_numeral])
  with Cons show ?case by auto
qed simp

lemma write_escaped_cp_total: "\<exists>t. write_escaped_cp bs cp = Inr t"
  using write_codepoint_total [of 2 "unat cp"] write_codepoint_total [of 4 "unat cp"]
    write_codepoint_total [of 8 "unat cp"] write_codepoints_total [of bs]
  by (auto simp: write_escaped_cp_def u32_less_unat)

definition escape_text :: "u32 \<times> bytes \<Rightarrow> bytes" where
  "escape_text p = projr (escaped_piece p)"

lemma escaped_piece_eq: "escaped_piece p = Inr (escape_text p)"
  using write_escaped_cp_total [of "snd p" "fst p"] by (auto simp: escape_text_def escaped_piece_def)

lemma escape_from_split:
  "escape_from p ps = Some (b, e, cp) \<Longrightarrow>
     \<exists>ps1 bs ps2. ps = ps1 @ (cp, bs) # ps2 \<and> list_all (\<lambda>q. escape_text q = snd q) ps1
       \<and> needs_escape cp = Inr True
       \<and> b = p + length (concat (map snd ps1)) \<and> e = Some (b + length bs)"
proof (induction p ps rule: escape_from.induct)
  case (2 p cp' bs ps)
  show ?case
  proof (cases "needs_escape cp' = Inr True")
    case True
    with 2 show ?thesis by - (rule exI [of _ "[]"], rule exI [of _ bs], rule exI [of _ ps], auto)
  next
    case False
    with 2 obtain ps1 bs' ps2 where "ps = ps1 @ (cp, bs') # ps2" "list_all (\<lambda>q. escape_text q = snd q) ps1"
      "needs_escape cp = Inr True" "b = p + length bs + length (concat (map snd ps1))" "e = Some (b + length bs')"
      by auto
    moreover have "escape_text (cp', bs) = bs" using False by (simp add: escape_text_def escaped_piece_def)
    ultimately show ?thesis
      by - (rule exI [of _ "(cp', bs) # ps1"], rule exI [of _ bs'], rule exI [of _ ps2], simp)
  qed
qed simp

lemma escape_from_None:
  "escape_from p ps = None \<Longrightarrow> list_all (\<lambda>q. escape_text q = snd q) ps"
  by (induction p ps rule: escape_from.induct) (auto simp: escape_text_def escaped_piece_def split: if_splits)

lemma concat_unescaped:
  "list_all (\<lambda>q. escape_text q = snd q) ps \<Longrightarrow> concat (map escape_text ps) = concat (map snd ps)"
  by (induction ps) auto

lemma utf8_pieces_drop:
  "utf8_pieces s = ps1 @ ps2 \<Longrightarrow> utf8_pieces (drop (length (concat (map snd ps1))) s) = ps2"
proof (induction ps1 arbitrary: s)
  case (Cons q ps1)
  then have "s \<noteq> []" by auto
  from utf8_pieces_step [OF this] obtain c bs where
    "utf8_pieces s = (c, bs) # utf8_pieces (drop (length bs) s)" by metis
  with Cons.IH [of "drop (length bs) s"] Cons.prems show ?case by (auto simp: add.commute)
qed simp

lemma write_escaped_body_eq: "write_escaped_body s = Inr (concat (map escape_text (utf8_pieces s)))"
proof (induction s rule: length_induct)
  case (1 s)
  have c: "concat (map snd (utf8_pieces s)) = s" using utf8_pieces_concat by blast
  show ?case
  proof (cases "escape_from 0 (utf8_pieces s)")
    case None
    then show ?thesis
      using concat_unescaped [OF escape_from_None [OF None]] c
      by (subst write_escaped_body.simps) (simp add: find_escape_eq)
  next
    case (Some r)
    obtain b e cp where [simp]: "r = (b, e, cp)" by (cases r) auto
    from escape_from_split [OF Some [simplified]] obtain ps1 bs ps2 where
      ps: "utf8_pieces s = ps1 @ (cp, bs) # ps2" "list_all (\<lambda>q. escape_text q = snd q) ps1"
        "needs_escape cp = Inr True" and b: "b = length (concat (map snd ps1))" and e: "e = Some (b + length bs)"
      by auto
    have s: "s = concat (map snd ps1) @ bs @ concat (map snd ps2)" using c ps(1) by simp
    have t: "take b s = concat (map snd ps1)" "take (length bs) (drop b s) = bs"
      "drop (b + length bs) s = concat (map snd ps2)"
      using s b by simp_all
    have p2: "utf8_pieces (concat (map snd ps2)) = ps2"
      using utf8_pieces_drop [of s "ps1 @ [(cp, bs)]" ps2] ps(1) b t(3) by (simp add: add.assoc)
    have w: "write_escaped_cp bs cp = Inr (escape_text (cp, bs))"
      using escaped_piece_eq [of "(cp, bs)"] ps(3) by (simp add: escaped_piece_def)
    have find: "find_escape s = Inr (b, Some (b + length bs), cp)" using Some e by (simp add: find_escape_eq)
    have "length (concat (map snd ps2)) < length s"
      using find_escape_bounds [OF find] s by (auto simp: b)
    then have rec: "write_escaped_body (concat (map snd ps2)) = Inr (concat (map escape_text ps2))"
      using 1 p2 by metis
    have "ps2 = []" if "concat (map snd ps2) = []" using p2 that by simp
    then show ?thesis
      by (subst write_escaped_body.simps) (auto simp: find t w rec ps(1) concat_unescaped [OF ps(2)])
  qed
qed

text \<open>
  Escaping works piece by piece. For every byte string the loop that searches for the next
  code point to escape returns, reads and writes nothing out of bounds, and gives the quoted
  concatenation of the pieces, each printed as it is or escaped.
\<close>

theorem write_escaped_string_pieces:
  "write_escaped_string s = Inr ([CHR 0x22] @ concat (map escape_text (utf8_pieces s)) @ [CHR 0x22])
   \<and> map escaped_piece (utf8_pieces s) = map (Inr \<circ> escape_text) (utf8_pieces s)"
  by (simp add: write_escaped_string_def write_escaped_body_eq escaped_piece_eq)


text \<open>What escaping does to a character below 128.\<close>

lemma unat_u32_of_char: "unat (of_char c :: u32) = of_char c"
  by (rule unat_of_char)

lemma utf8_pieces_ascii: "list_all (\<lambda>c. of_char c < (128 :: nat)) s \<Longrightarrow> utf8_pieces s = map (\<lambda>c. (of_char c, [c])) s"
proof (induction s)
  case (Cons c s)
  have enc: "utf8_encode (of_char c) = Some [c]"
    using Cons.prems by (simp add: utf8_encode_def u32_less_unat unat_u32_of_char)
  from utf8_pieces_step [of "c # s"] obtain c' bs' where
    p: "utf8_pieces (c # s) = (c', bs') # utf8_pieces (drop (length bs') (c # s))"
    and u: "\<And>c0 bs0. utf8_encode c0 = Some bs0 \<Longrightarrow> take (length bs0) (c # s) = bs0 \<Longrightarrow> c0 = c' \<and> bs0 = bs'"
    by (metis list.distinct(1))
  from u [OF enc] have "c' = of_char c" "bs' = [c]" by simp_all
  with p Cons show ?case by simp
qed simp


text \<open>Reading escapes back.\<close>

definition unhex :: "char \<Rightarrow> nat" where
  "unhex c = (if of_char c < (58 :: nat) then of_char c - 48 else of_char c - 87)"

fun unescape :: "bytes \<Rightarrow> bytes" where
  "unescape [] = []"
| "unescape (c # cs) =
     (if c = CHR 0x5C then
        (case cs of
           [] \<Rightarrow> [c]
         | k # r \<Rightarrow>
             if k = CHR ''n'' then CHR 0x0A # unescape r
             else if k = CHR ''r'' then CHR 0x0D # unescape r
             else if k = CHR ''t'' then CHR 0x09 # unescape r
             else if k = CHR ''x'' then
               (case r of
                  h # l # r' \<Rightarrow> char_of (16 * unhex h + unhex l) # unescape r'
                | _ \<Rightarrow> [])
             else k # unescape r)
      else c # unescape cs)"

lemma lower_hex_digit: "d < 16 \<Longrightarrow> digit_char Bits4 False d = ''0123456789abcdef'' ! d"
  by (simp add: digit_char_def)

lemma hex_rows:
  "list_all (\<lambda>d. unhex (''0123456789abcdef'' ! d) = d \<and> (32 :: nat) \<le> of_char (''0123456789abcdef'' ! d)
     \<and> of_char (''0123456789abcdef'' ! d) < (127 :: nat)) [0..<16]"
  by (simp add: unhex_def upt_rec)

lemma hex_digit:
  assumes "d < 16"
  shows "unhex (digit_char Bits4 False d) = d"
    "(32 :: nat) \<le> of_char (digit_char Bits4 False d)" "of_char (digit_char Bits4 False d) < (127 :: nat)"
proof -
  have "unhex (''0123456789abcdef'' ! d) = d \<and> (32 :: nat) \<le> of_char (''0123456789abcdef'' ! d)
     \<and> of_char (''0123456789abcdef'' ! d) < (127 :: nat)"
    using hex_rows assms unfolding list_all_iff set_upt by (metis atLeastLessThan_iff zero_le)
  then show "unhex (digit_char Bits4 False d) = d"
    "(32 :: nat) \<le> of_char (digit_char Bits4 False d)" "of_char (digit_char Bits4 False d) < (127 :: nat)"
    unfolding lower_hex_digit [OF assms] by blast+
qed

lemma show_base_byte:
  "n < 256 \<Longrightarrow> replicate (2 - length (show_base Bits4 False n)) (CHR ''0'') @ show_base Bits4 False n
     = [digit_char Bits4 False (n div 16), digit_char Bits4 False (n mod 16)]"
proof -
  assume n: "n < 256"
  then have d: "n div 16 div 16 = 0" "n div 16 mod 16 = n div 16" by simp_all
  have one: "show_base Bits4 False (n div 16) = [digit_char Bits4 False (n div 16)]"
    by (subst show_base.simps) (simp add: d)
  show ?thesis
  proof (cases "n div 16 = 0")
    case True
    then have "show_base Bits4 False n = [digit_char Bits4 False (n mod 16)]"
      by (subst show_base.simps) simp
    then show ?thesis using True by (simp add: lower_hex_digit)
  next
    case False
    then have "show_base Bits4 False n = [digit_char Bits4 False (n div 16), digit_char Bits4 False (n mod 16)]"
      by (subst show_base.simps) (simp add: one)
    then show ?thesis by simp
  qed
qed

definition ascii_escape :: "char \<Rightarrow> bytes" where
  "ascii_escape c =
     (if c = CHR 0x0A then [CHR 0x5C, CHR ''n'']
      else if c = CHR 0x0D then [CHR 0x5C, CHR ''r'']
      else if c = CHR 0x09 then [CHR 0x5C, CHR ''t'']
      else if c = CHR 0x22 \<or> c = CHR 0x5C then [CHR 0x5C, c]
      else if of_char c < (32 :: nat) \<or> c = CHR 0x7F
        then [CHR 0x5C, CHR ''x'', digit_char Bits4 False (of_char c div 16), digit_char Bits4 False (of_char c mod 16)]
      else [c])"

lemma u32_of_char_eq: "(of_char c :: u32) = of_char d \<longleftrightarrow> c = d"
  by (metis of_char_eq_iff unat_of_char(1))

lemma escape_text_ascii:
  assumes "of_char c < (128 :: nat)"
  shows "escape_text (of_char c, [c]) = ascii_escape c"
proof -
  have print: "is_printable (of_char c) = Inr ((32 :: nat) \<le> of_char c \<and> of_char c \<noteq> (127 :: nat))"
    using is_printable_ascii [of "of_char c"] assms by (simp add: unat_u32_of_char)
  have del: "of_char c = (127 :: nat) \<longleftrightarrow> c = CHR 0x7F"
  proof -
    have "of_char (CHR 0x7F) = (127 :: nat)" by simp
    then show ?thesis by (metis of_char_eq_iff)
  qed
  have del': "of_char c = (0x7f :: u32) \<longleftrightarrow> c = CHR 0x7F"
    using del by (simp add: word_unat_eq_iff unat_u32_of_char)
  have need: "needs_escape (of_char c)
      = Inr ((of_char c :: nat) < 32 \<or> c = CHR 0x7F \<or> c = CHR 0x22 \<or> c = CHR 0x5C)"
    unfolding needs_escape_def u32_of_char_eq del' u32_less_unat unat_u32_of_char
    using del print by (auto simp del: of_char_Char)
  have hex: "write_codepoint 2 (CHR ''x'') (of_char c)
      = Inr [CHR 0x5C, CHR ''x'', digit_char Bits4 False (of_char c div 16), digit_char Bits4 False (of_char c mod 16)]"
    using show_base_byte [of "of_char c"] unat_of_char(2) [of c] by (simp add: write_codepoint_eq)
  have small: "(of_char c :: u32) < 0x100" using assms by (simp add: u32_less_unat unat_u32_of_char)
  have same: "char_of (unat (of_char c :: u32)) = c" by (simp add: unat_u32_of_char)
  note unfolded = escape_text_def escaped_piece_def fst_conv snd_conv need write_escaped_cp_def u32_of_char_eq
    ascii_escape_def
  show ?thesis
  proof (cases "c = CHR 0x22 \<or> c = CHR 0x5C")
    case True
    then show ?thesis unfolding unfolded same by auto
  next
    case False
    then show ?thesis
      unfolding unfolded same unat_u32_of_char hex using small
      by (cases "c = CHR 0x27"; cases "c = CHR 0x7F") (simp_all add: of_char_eq_iff)
  qed
qed


lemma unescape_ascii:
  assumes "of_char c < (128 :: nat)"
  shows "unescape (ascii_escape c @ r) = c # unescape r
    \<and> list_all (\<lambda>k. (32 :: nat) \<le> of_char k \<and> of_char k < (127 :: nat)) (ascii_escape c)"
proof -
  define n where "n = (of_char c :: nat)"
  have n: "n < 128" "c = char_of n" using assms by (simp_all add: n_def)
  have d: "n div 16 < 16" "n mod 16 < 16" using n(1) by simp_all
  have "char_of (16 * unhex (digit_char Bits4 False (n div 16)) + unhex (digit_char Bits4 False (n mod 16))) = c"
    using d by (simp add: hex_digit(1) n(2))
  moreover have "n \<noteq> 127" if "c \<noteq> CHR 0x7F"
  proof
    assume "n = 127"
    moreover have "of_char (CHR 0x7F) = (127 :: nat)" by simp
    ultimately show False using that unfolding n_def by (metis of_char_eq_iff)
  qed
  moreover have "n = 34" if "c = CHR 0x22" using that by (simp add: n_def)
  moreover have "n = 92" if "c = CHR 0x5C" using that by (simp add: n_def)
  ultimately show ?thesis
    using hex_digit(2,3) [OF d(1)] hex_digit(2,3) [OF d(2)] n(1)
    by (auto simp: ascii_escape_def n_def [symmetric])
qed

text \<open>
  C28: Escaped ASCII text can be read back. Escaping a string of 7-bit characters gives a quoted
  text of printable characters only, and reading the escapes back gives the string.
\<close>

theorem escaped_ascii_roundtrip:
  assumes "list_all (\<lambda>c. of_char c < (128 :: nat)) s"
  shows "\<exists>t. write_escaped_string s = Inr ([CHR 0x22] @ t @ [CHR 0x22]) \<and> unescape t = s
    \<and> list_all (\<lambda>k. (32 :: nat) \<le> of_char k \<and> of_char k < (127 :: nat)) t"
proof -
  have "map escape_text (utf8_pieces s) = map ascii_escape s"
    using assms by (simp add: utf8_pieces_ascii escape_text_ascii list_all_iff)
  then have "write_escaped_string s = Inr ([CHR 0x22] @ concat (map ascii_escape s) @ [CHR 0x22])"
    by (simp add: write_escaped_string_def write_escaped_body_eq)
  moreover have "unescape (concat (map ascii_escape s)) = s
      \<and> list_all (\<lambda>k. (32 :: nat) \<le> of_char k \<and> of_char k < (127 :: nat)) (concat (map ascii_escape s))"
    using assms by (induction s) (simp_all add: unescape_ascii)
  ultimately show ?thesis by blast
qed

theorem escaped_ascii_roundtrip_witness:
  "\<exists>t. write_escaped_string [CHR ''a'', CHR 0x0A, CHR 0x1B, CHR 0x22] = Inr ([CHR 0x22] @ t @ [CHR 0x22])
     \<and> unescape t = [CHR ''a'', CHR 0x0A, CHR 0x1B, CHR 0x22]"
  using escaped_ascii_roundtrip [of "[CHR ''a'', CHR 0x0A, CHR 0x1B, CHR 0x22]"] by auto

text \<open>
  Beyond ASCII it cannot: the code point U+0080 and the stray byte 80 are printed alike.
\<close>

theorem escape_is_ambiguous:
  "write_escaped_string [CHR 0xC2, CHR 0x80] = write_escaped_string [CHR 0x80]"
proof -
  obtain r1 r2 r3 where t: "singletons0 = (0, 1) # (3, 5) # r1" "singletons0_lower = 0xad # r2"
    "normal0 = 0 # 0x20 # 0x5f # 0x22 # r3"
    using ascii_heads by blast
  have "is_printable_16 128 singletons0 singletons0_lower normal0 = Inr False"
    unfolding is_printable_16_def t by (simp add: drop_bit_eq_div table_at_def Let_def)
  then have p1: "needs_escape 0x80 = Inr True" by (simp add: needs_escape_def is_printable_def Let_def)
  have p2: "needs_escape invalid_code_point = Inr True"
    using is_printable_large [of invalid_code_point] by (simp add: needs_escape_def invalid_code_point_def)
  have "char_of (194 :: nat) = CHR 0xC2" "char_of (128 :: nat) = CHR 0x80" by code_simp+
  then have enc: "utf8_encode 0x80 = Some [CHR 0xC2, CHR 0x80]" by (simp add: utf8_encode_def)
  obtain c bs where a: "utf8_pieces [CHR 0xC2, CHR 0x80] = (c, bs) # utf8_pieces (drop (length bs) [CHR 0xC2, CHR 0x80])"
      "\<And>c' bs'. utf8_encode c' = Some bs' \<Longrightarrow> take (length bs') [CHR 0xC2, CHR 0x80] = bs' \<Longrightarrow> c' = c \<and> bs' = bs"
    using utf8_pieces_step [of "[CHR 0xC2, CHR 0x80]"] by (metis list.distinct(1))
  from a(2) [OF enc] have "c = 0x80" "bs = [CHR 0xC2, CHR 0x80]" by simp_all
  with a(1) have u1: "utf8_pieces [CHR 0xC2, CHR 0x80] = [(0x80, [CHR 0xC2, CHR 0x80])]" by simp
  obtain d ds where b: "utf8_pieces [CHR 0x80] = (d, ds) # utf8_pieces (drop (length ds) [CHR 0x80])" "ds \<noteq> []"
      "take (length ds) [CHR 0x80] = ds" "utf8_encode d = Some ds \<or> d = invalid_code_point \<and> length ds = 1"
    using utf8_pieces_step [of "[CHR 0x80]"] by (metis list.distinct(1))
  have ds: "ds = [CHR 0x80]" using b(2,3) by (cases ds) auto
  have "utf8_encode d \<noteq> Some [CHR 0x80]"
  proof
    assume "utf8_encode d = Some [CHR 0x80]"
    then have "unat d < 128" "char_of (unat d) = CHR 0x80" by (auto simp: utf8_encode_def u32_less_unat split: if_splits)
    moreover have "of_char (char_of n :: char) = n" if "n < 128" for n :: nat using that by simp
    ultimately have "of_char (CHR 0x80) < (128 :: nat)" by metis
    then show False by simp
  qed
  with b ds have u2: "utf8_pieces [CHR 0x80] = [(invalid_code_point, [CHR 0x80])]" by auto
  have "escape_text (0x80, [CHR 0xC2, CHR 0x80]) = escape_text (invalid_code_point, [CHR 0x80])"
    unfolding escape_text_def escaped_piece_def fst_conv snd_conv p1 p2
    by (simp add: write_escaped_cp_def invalid_code_point_def split: sum.split)
  then show ?thesis by (simp add: write_escaped_string_def write_escaped_body_eq u1 u2)
qed


end
