(* ===== verification/Fmt_Write.thy ===== *)
theory Fmt_Write
  imports Fmt_Printable
begin

text \<open>
  How the bundled fmt writes one argument (\<open>fmt/bundled/format.h\<close>): format specifications,
  padding with a fill of up to four bytes (\<open>write_padded\<close>), integers in every base with their
  prefixes packed into an \<open>unsigned\<close> (\<open>write_int\<close>), characters, booleans, strings cut and
  measured in code points, and pointers.

  A writer is modelled by the bytes it appends. Errors are the \<open>format_error\<close> the code throws,
  or undefined behaviour of the buffers in between.
\<close>

datatype fmt_failure = Format_Error string | Undefined fault

definition ub :: "fault + 'a \<Rightarrow> fmt_failure + 'a" where
  "ub r = map_sum Undefined id r"

lemma ub_simps [simp]: "ub (Inr a) = Inr a" "ub (Inl e) = Inl (Undefined e)"
  by (simp_all add: ub_def)

section \<open>Specifications\<close>

datatype presentation_type =
    P_none | P_dec | P_oct | P_hex_lower | P_hex_upper | P_bin_lower | P_bin_upper
  | P_hexfloat_lower | P_hexfloat_upper | P_exp_lower | P_exp_upper | P_fixed_lower | P_fixed_upper
  | P_general_lower | P_general_upper | P_chr | P_string | P_pointer | P_debug

datatype align = Align_none | Align_left | Align_right | Align_center | Align_numeric

datatype sign = Sign_none | Sign_minus | Sign_plus | Sign_space

record format_specs =
  spec_width :: nat
  spec_precision :: int
  spec_type :: presentation_type
  spec_align :: align
  spec_sign :: sign
  spec_alt :: bool
  spec_localized :: bool
  spec_fill :: bytes

definition default_specs :: format_specs where
  "default_specs =
     \<lparr>spec_width = 0, spec_precision = -1, spec_type = P_none, spec_align = Align_none, spec_sign = Sign_none,
      spec_alt = False, spec_localized = False, spec_fill = '' ''\<rparr>"

section \<open>Padding\<close>

definition fill_n :: "nat \<Rightarrow> char \<Rightarrow> bytes" where
  "fill_n n c = replicate n c"

definition fill :: "nat \<Rightarrow> bytes \<Rightarrow> bytes" where
  "fill n f = (if length f = 1 then fill_n n (hd f) else concat (replicate n f))"

fun align_index :: "align \<Rightarrow> nat" where
  "align_index Align_none = 0"
| "align_index Align_left = 1"
| "align_index Align_right = 2"
| "align_index Align_center = 3"
| "align_index Align_numeric = 4"

text \<open>The shifts, encoded as a string literal: the fifth entry is its NUL. \<open>dflt\<close> is left or right.\<close>

definition shifts :: "align \<Rightarrow> nat list" where
  "shifts dflt = (if dflt = Align_left then [0x1f, 0x1f, 0, 1, 0] else [0, 0x1f, 0, 1, 0])"

definition write_padded :: "align \<Rightarrow> format_specs \<Rightarrow> nat \<Rightarrow> bytes \<Rightarrow> bytes" where
  "write_padded dflt specs width text =
     (let padding = (if spec_width specs > width then spec_width specs - width else 0);
          left_padding = drop_bit (shifts dflt ! align_index (spec_align specs)) padding;
          right_padding = padding - left_padding
      in (if left_padding \<noteq> 0 then fill left_padding (spec_fill specs) else [])
           @ text
           @ (if right_padding \<noteq> 0 then fill right_padding (spec_fill specs) else []))"

definition write_bytes :: "align \<Rightarrow> format_specs \<Rightarrow> bytes \<Rightarrow> bytes" where
  "write_bytes dflt specs bs = write_padded dflt specs (length bs) bs"

section \<open>Integers\<close>

text \<open>\<open>uint32_or_64_or_128_t\<close> of an argument's type; there are no 128-bit arguments.\<close>

datatype uint = U32 u32 | U64 u64

fun uint_val :: "uint \<Rightarrow> nat" where
  "uint_val (U32 n) = unat n"
| "uint_val (U64 n) = unat n"

fun count_digits :: "uint \<Rightarrow> nat" where
  "count_digits (U32 n) = do_count_digits_32 n"
| "count_digits (U64 n) = do_count_digits_64 n"

text \<open>\<open>count_digits<BITS>\<close>: from the highest bit for 32-bit numbers, by a loop for others.\<close>

function count_digits_loop :: "digit_bits \<Rightarrow> nat \<Rightarrow> nat \<Rightarrow> nat" where
  "count_digits_loop b m num_digits =
     (if m div 2 ^ bits_of b \<noteq> 0 then count_digits_loop b (m div 2 ^ bits_of b) (num_digits + 1)
      else num_digits + 1)"
  by pat_completeness auto
termination
  by (relation "measure (\<lambda>(b, m, n). m)") (use bits_of_pos in auto)

declare count_digits_loop.simps [simp del]

fun count_digits_bits :: "digit_bits \<Rightarrow> uint \<Rightarrow> nat" where
  "count_digits_bits b (U32 n) = (clz 32 (unat (n OR 1)) XOR 31) div bits_of b + 1"
| "count_digits_bits b (U64 n) = count_digits_loop b (unat n) 0"

text \<open>
  The overloads for output iterators go through a local buffer; \<open>digits10\<close> is 9 and 19,
  \<open>num_bits\<close> 32 and 64.
\<close>

fun digits10 :: "uint \<Rightarrow> nat" where
  "digits10 (U32 _) = 9"
| "digits10 (U64 _) = 19"

fun num_bits :: "uint \<Rightarrow> nat" where
  "num_bits (U32 _) = 32"
| "num_bits (U64 _) = 64"

definition format_decimal_out :: "uint \<Rightarrow> nat \<Rightarrow> fault + bytes" where
  "format_decimal_out v num_digits =
     bindE (format_decimal (replicate (digits10 v + 1) (CHR 0x00)) (uint_val v) num_digits) (\<lambda>(_, buffer).
       Inr (take num_digits buffer))"

definition format_uint_out :: "digit_bits \<Rightarrow> uint \<Rightarrow> nat \<Rightarrow> bool \<Rightarrow> fault + bytes" where
  "format_uint_out b v num_digits upper =
     bindE (format_uint b (replicate (num_bits v div bits_of b + 1) (CHR 0x00)) (uint_val v) num_digits upper)
       (\<lambda>buffer. Inr (take num_digits buffer))"

text \<open>The prefix: characters in the three lower bytes, their number in the fourth.\<close>

definition prefix_append :: "u32 \<Rightarrow> u32 \<Rightarrow> u32" where
  "prefix_append prefix v =
     (let prefix = prefix OR (if prefix \<noteq> 0 then push_bit 8 v else v)
      in prefix + push_bit 24 (1 + (if v > 0xff then 1 else 0)))"

function prefix_bytes :: "u32 \<Rightarrow> bytes" where
  "prefix_bytes p = (if p \<noteq> 0 then char_of (unat (p AND 0xff)) # prefix_bytes (drop_bit 8 p) else [])"
  by pat_completeness auto
termination
proof (relation "measure unat")
  fix p :: u32
  assume "p \<noteq> 0"
  then have "0 < unat p" by (simp add: unat_gt_0)
  then show "(drop_bit 8 p, p) \<in> measure unat" by (simp only: in_measure unat_drop) simp
qed simp

declare prefix_bytes.simps [simp del]

definition write_int_data :: "nat \<Rightarrow> u32 \<Rightarrow> format_specs \<Rightarrow> nat \<times> nat" where
  "write_int_data num_digits prefix specs =
     (let sz = unat (drop_bit 24 prefix) + num_digits in
      if spec_align specs = Align_numeric then
        if spec_width specs > sz then (spec_width specs, spec_width specs - sz) else (sz, 0)
      else if spec_precision specs > int num_digits then
        (unat (drop_bit 24 prefix) + nat (spec_precision specs), nat (spec_precision specs - int num_digits))
      else (sz, 0))"

definition write_int_digits :: "nat \<Rightarrow> u32 \<Rightarrow> format_specs \<Rightarrow> bytes \<Rightarrow> bytes" where
  "write_int_digits num_digits prefix specs digits =
     (if int (spec_width specs) OR (spec_precision specs + 1) = 0 then
        (if prefix \<noteq> 0 then prefix_bytes (prefix AND 0xffffff) else []) @ digits
      else
        let (sz, padding) = write_int_data num_digits prefix specs in
        write_padded Align_right specs sz
          (prefix_bytes (prefix AND 0xffffff) @ fill_n padding (CHR ''0'') @ digits))"

definition write_char :: "char \<Rightarrow> format_specs \<Rightarrow> fmt_failure + bytes" where
  "write_char c specs =
     bindE (if spec_type specs = P_debug then ub (write_escaped_char c) else Inr [c]) (\<lambda>t.
       Inr (write_padded Align_left specs 1 t))"

text \<open>\<open>write_int(out, arg, specs, loc)\<close>; the argument's magnitude and prefix come from below.\<close>

definition write_int :: "uint \<Rightarrow> u32 \<Rightarrow> format_specs \<Rightarrow> fmt_failure + bytes" where
  "write_int abs_value prefix specs =
     (let based = (\<lambda>b prefix upper.
            let num_digits = count_digits_bits b abs_value in
            bindE (ub (format_uint_out b abs_value num_digits upper)) (\<lambda>digits.
              Inr (write_int_digits num_digits prefix specs digits)));
          letter = (\<lambda>c. if spec_alt specs then prefix_append prefix (push_bit 8 (of_char c) OR of_char (CHR ''0''))
                        else prefix)
      in case spec_type specs of
           P_none \<Rightarrow>
             let num_digits = count_digits abs_value in
             bindE (ub (format_decimal_out abs_value num_digits)) (\<lambda>digits.
               Inr (write_int_digits num_digits prefix specs digits))
         | P_dec \<Rightarrow>
             let num_digits = count_digits abs_value in
             bindE (ub (format_decimal_out abs_value num_digits)) (\<lambda>digits.
               Inr (write_int_digits num_digits prefix specs digits))
         | P_hex_lower \<Rightarrow> based Bits4 (letter (CHR ''x'')) False
         | P_hex_upper \<Rightarrow> based Bits4 (letter (CHR ''X'')) True
         | P_bin_lower \<Rightarrow> based Bits1 (letter (CHR ''b'')) False
         | P_bin_upper \<Rightarrow> based Bits1 (letter (CHR ''B'')) False
         | P_oct \<Rightarrow>
             based Bits3
               (if spec_alt specs \<and> spec_precision specs \<le> int (count_digits_bits Bits3 abs_value)
                   \<and> uint_val abs_value \<noteq> 0
                then prefix_append prefix (of_char (CHR ''0'')) else prefix) False
         | P_chr \<Rightarrow> write_char (char_of (uint_val abs_value)) specs
         | _ \<Rightarrow> Inl (Format_Error ''invalid format specifier''))"

fun sign_index :: "sign \<Rightarrow> nat" where
  "sign_index Sign_none = 0"
| "sign_index Sign_minus = 1"
| "sign_index Sign_plus = 2"
| "sign_index Sign_space = 3"

definition sign_prefixes :: "u32 list" where
  "sign_prefixes =
     [0, 0, 0x1000000 OR of_char (CHR ''+''), 0x1000000 OR of_char (CHR '' '')]"

text \<open>The integer arguments: \<open>int\<close>, \<open>unsigned\<close>, \<open>long long\<close> and \<open>unsigned long long\<close>.\<close>

datatype int_arg = Int_arg u32 | Uint_arg u32 | Long_long_arg u64 | Ulong_long_arg u64

fun is_negative :: "int_arg \<Rightarrow> bool" where
  "is_negative (Int_arg n) = (sint n < 0)"
| "is_negative (Long_long_arg n) = (sint n < 0)"
| "is_negative _ = False"

fun as_unsigned :: "int_arg \<Rightarrow> uint" where
  "as_unsigned (Int_arg n) = U32 n"
| "as_unsigned (Uint_arg n) = U32 n"
| "as_unsigned (Long_long_arg n) = U64 n"
| "as_unsigned (Ulong_long_arg n) = U64 n"

fun uint_neg :: "uint \<Rightarrow> uint" where
  "uint_neg (U32 n) = U32 (0 - n)"
| "uint_neg (U64 n) = U64 (0 - n)"

definition make_write_int_arg :: "int_arg \<Rightarrow> sign \<Rightarrow> uint \<times> u32" where
  "make_write_int_arg v s =
     (if is_negative v then (uint_neg (as_unsigned v), 0x01000000 OR of_char (CHR ''-''))
      else (as_unsigned v, sign_prefixes ! sign_index s))"

text \<open>
  An integer with specifications. A localized one is first offered to the locale's
  \<open>format_facet\<close>, an object of the C++ locale: \<open>write_loc\<close> is what it writes, \<open>None\<close> when it
  declines.
\<close>

type_synonym write_loc = "int_arg \<Rightarrow> format_specs \<Rightarrow> bytes option"

definition write_integer :: "write_loc \<Rightarrow> int_arg \<Rightarrow> format_specs \<Rightarrow> fmt_failure + bytes" where
  "write_integer loc v specs =
     (case (if spec_localized specs then loc v specs else None) of
        Some t \<Rightarrow> Inr t
      | None \<Rightarrow>
          let (abs_value, prefix) = make_write_int_arg v (spec_sign specs) in write_int abs_value prefix specs)"

text \<open>\<open>write(out, value)\<close> without specifications.\<close>

fun uint_complement_neg :: "uint \<Rightarrow> uint" where
  "uint_complement_neg (U32 n) = U32 (NOT n + 1)"
| "uint_complement_neg (U64 n) = U64 (NOT n + 1)"

definition write_integer_default :: "int_arg \<Rightarrow> fmt_failure + bytes" where
  "write_integer_default v =
     (let negative = is_negative v;
          abs_value = (if negative then uint_complement_neg (as_unsigned v) else as_unsigned v)
      in bindE (ub (format_decimal_out abs_value (count_digits abs_value))) (\<lambda>digits.
           Inr ((if negative then ''-'' else '''') @ digits)))"

section \<open>Other arguments\<close>

definition check_char_specs :: "format_specs \<Rightarrow> fmt_failure + bool" where
  "check_char_specs specs =
     (if spec_type specs \<noteq> P_none \<and> spec_type specs \<noteq> P_chr \<and> spec_type specs \<noteq> P_debug then Inr False
      else if spec_align specs = Align_numeric \<or> spec_sign specs \<noteq> Sign_none \<or> spec_alt specs
        then Inl (Format_Error ''invalid format specifier for char'')
      else Inr True)"

text \<open>A character is formatted as \<open>unsigned char\<close>, which is promoted to \<open>uint32_t\<close>.\<close>

definition write_character :: "write_loc \<Rightarrow> char \<Rightarrow> format_specs \<Rightarrow> fmt_failure + bytes" where
  "write_character loc c specs =
     bindE (check_char_specs specs) (\<lambda>ok.
       if ok then write_char c specs else write_integer loc (Uint_arg (of_char c)) specs)"

definition write_bool :: "write_loc \<Rightarrow> bool \<Rightarrow> format_specs \<Rightarrow> fmt_failure + bytes" where
  "write_bool loc b specs =
     (if spec_type specs \<noteq> P_none \<and> spec_type specs \<noteq> P_string
      then write_integer loc (Int_arg (if b then 1 else 0)) specs
      else Inr (write_bytes Align_left specs (if b then ''true'' else ''false'')))"

definition write_string :: "bytes \<Rightarrow> format_specs \<Rightarrow> fmt_failure + bytes" where
  "write_string s specs =
     bindE (if spec_precision specs \<ge> 0 \<and> nat (spec_precision specs) < length s
            then ub (code_point_index s (nat (spec_precision specs))) else Inr (length s)) (\<lambda>size.
     let is_debug = (spec_type specs = P_debug) in
     bindE (if spec_width specs \<noteq> 0 then
              if is_debug then bindE (ub (write_escaped_string s)) (\<lambda>t. Inr (length t))
              else ub (compute_width (take size s))
            else Inr 0) (\<lambda>width.
     bindE (if is_debug then ub (write_escaped_string s) else ub (read_at s 0 size)) (\<lambda>t.
     Inr (write_padded Align_left specs width t))))"

text \<open>Addresses are 64-bit numbers; \<open>Bits4\<close> writes them.\<close>

definition write_ptr :: "u64 \<Rightarrow> format_specs option \<Rightarrow> fmt_failure + bytes" where
  "write_ptr v specs =
     (let num_digits = count_digits_bits Bits4 (U64 v) in
      bindE (ub (format_uint_out Bits4 (U64 v) num_digits False)) (\<lambda>digits.
      let t = ''0x'' @ digits in
      Inr (case specs of Some specs \<Rightarrow> write_padded Align_right specs (num_digits + 2) t | None \<Rightarrow> t)))"

text \<open>A C string is an address, 0 for the null pointer, and the bytes before its terminator.\<close>

definition write_cstring :: "u64 \<Rightarrow> bytes \<Rightarrow> format_specs \<Rightarrow> fmt_failure + bytes" where
  "write_cstring p s specs =
     (if spec_type specs = P_pointer then write_ptr p (Some specs)
      else if p = 0 then Inl (Format_Error ''string pointer is null'')
      else write_string s specs)"

section \<open>Arguments\<close>

text \<open>
  The arguments the model covers; floating-point numbers, 128-bit integers and user-defined
  types are left out. \<open>Arg_none\<close> is the argument that is not there.
\<close>

datatype fmt_arg =
    Arg_none
  | Arg_integer int_arg
  | Arg_bool bool
  | Arg_char char
  | Arg_cstring u64 bytes
  | Arg_string bytes
  | Arg_pointer u64

text \<open>\<open>default_arg_formatter\<close> and \<open>arg_formatter\<close>; a \<open>monostate\<close> writes nothing.\<close>

fun default_arg_formatter :: "fmt_arg \<Rightarrow> fmt_failure + bytes" where
  "default_arg_formatter Arg_none = Inr []"
| "default_arg_formatter (Arg_integer v) = write_integer_default v"
| "default_arg_formatter (Arg_bool b) = write_bool (\<lambda>_ _. None) b default_specs"
| "default_arg_formatter (Arg_char c) = Inr [c]"
| "default_arg_formatter (Arg_cstring p s) =
     (if p \<noteq> 0 then Inr s else Inl (Format_Error ''string pointer is null''))"
| "default_arg_formatter (Arg_string s) = Inr s"
| "default_arg_formatter (Arg_pointer p) = write_ptr p (Some default_specs)"

fun arg_formatter :: "write_loc \<Rightarrow> format_specs \<Rightarrow> fmt_arg \<Rightarrow> fmt_failure + bytes" where
  "arg_formatter loc specs Arg_none = Inr []"
| "arg_formatter loc specs (Arg_integer v) = write_integer loc v specs"
| "arg_formatter loc specs (Arg_bool b) = write_bool loc b specs"
| "arg_formatter loc specs (Arg_char c) = write_character loc c specs"
| "arg_formatter loc specs (Arg_cstring p s) = write_cstring p s specs"
| "arg_formatter loc specs (Arg_string s) = write_string s specs"
| "arg_formatter loc specs (Arg_pointer p) = write_ptr p (Some specs)"


section \<open>Padding as a text\<close>

text \<open>What padding should give: the text with the missing columns filled on the chosen sides.\<close>

fun left_share :: "align \<Rightarrow> align \<Rightarrow> nat \<Rightarrow> nat" where
  "left_share dflt Align_none n = (if dflt = Align_left then 0 else n)"
| "left_share dflt Align_left n = 0"
| "left_share dflt Align_right n = n"
| "left_share dflt Align_center n = n div 2"
| "left_share dflt Align_numeric n = n"

definition pad_columns :: "align \<Rightarrow> format_specs \<Rightarrow> nat \<Rightarrow> bytes \<Rightarrow> bytes" where
  "pad_columns dflt specs width text =
     (let n = spec_width specs - width; l = left_share dflt (spec_align specs) n
      in concat (replicate l (spec_fill specs)) @ text @ concat (replicate (n - l) (spec_fill specs)))"

lemma fill_eq: "fill n f = concat (replicate n f)"
proof (cases "length f = 1")
  case True
  then obtain c where "f = [c]" by (auto simp: length_Suc_conv)
  then show ?thesis by (induction n) (simp_all add: fill_def fill_n_def)
qed (simp add: fill_def)

lemma write_padded_eq:
  assumes "spec_width specs < 2 ^ 31"
  shows "write_padded dflt specs width text = pad_columns dflt specs width text"
proof -
  have small: "(spec_width specs - width) div 2147483648 = 0" using assms by simp
  show ?thesis
    using small
    by (cases "spec_align specs"; cases "dflt = Align_left")
      (simp_all add: write_padded_def pad_columns_def shifts_def fill_eq Let_def drop_bit_eq_div)
qed

section \<open>Digits\<close>

lemma clz_xor: "clz 32 (unat (n OR 1 :: u32)) XOR 31 = bsr (unat n OR 1)"
proof -
  have or: "unat (n OR 1) = unat n OR 1" by (simp add: unsigned_or_eq)
  have "unat (n OR 1) < 2 ^ LENGTH(32)" by (rule unsigned_less)
  then have "unat n OR 1 < 2 ^ 32" unfolding or by simp
  then show ?thesis using clz_xor_31 [OF or_one_pos] or by simp
qed

lemma length_show_base_eqI:
  "v < 2 ^ (bits_of b * (k + 1)) \<Longrightarrow> k = 0 \<or> 2 ^ (bits_of b * k) \<le> v \<Longrightarrow> length (show_base b upper v) = k + 1"
proof (induction k arbitrary: v)
  case 0
  then show ?case by (subst show_base.simps) simp
next
  case (Suc k)
  let ?w = "v div 2 ^ bits_of b"
  have low: "2 ^ (bits_of b * k) \<le> ?w"
    using Suc.prems(2) by (simp add: power_add less_eq_div_iff_mult_less_eq mult.commute)
  then have nz: "?w \<noteq> 0" by (metis not_less zero_less_numeral zero_less_power)
  have "?w < 2 ^ (bits_of b * (k + 1))"
    using Suc.prems(1) by (simp add: power_add div_less_iff_less_mult algebra_simps)
  then have "length (show_base b upper ?w) = k + 1" using Suc.IH low by simp
  then show ?case using nz by (subst show_base.simps) simp
qed

lemma count_digits_loop_eq: "count_digits_loop b m n = n + length (show_base b upper m)"
proof (induction b m n rule: count_digits_loop.induct)
  case (1 b m n)
  then show ?case
    by (cases "m div 2 ^ bits_of b = 0"; subst count_digits_loop.simps; subst show_base.simps) simp_all
qed

lemma count_digits_bits_eq: "count_digits_bits b v = length (show_base b upper (uint_val v))"
proof (cases v)
  case (U32 n)
  define k where "k = bsr (unat n OR 1)"
  let ?q = "k div bits_of b"
  have hi: "unat n < 2 ^ (k + 1)" and lo: "k = 0 \<or> 2 ^ k \<le> unat n"
    using bsr_or_one [of "unat n"] by (simp_all add: k_def)
  have pos: "0 < bits_of b" by (cases b) simp_all
  have le: "bits_of b * ?q \<le> k" "k + 1 \<le> bits_of b * (?q + 1)"
    using pos by (simp_all add: dividend_less_times_div Suc_leI)
  have "unat n < 2 ^ (bits_of b * (?q + 1))"
    using hi power_increasing [OF le(2), of "2 :: nat"] by linarith
  moreover have "?q = 0 \<or> 2 ^ (bits_of b * ?q) \<le> unat n"
  proof (cases "?q = 0")
    case False
    then have "k \<noteq> 0" by (intro notI) simp
    then show ?thesis using lo power_increasing [OF le(1), of "2 :: nat"] by linarith
  qed simp
  ultimately have "length (show_base b upper (unat n)) = ?q + 1" by (rule length_show_base_eqI)
  then show ?thesis using U32 clz_xor [of n] by (simp add: k_def)
next
  case (U64 n)
  then show ?thesis by (simp add: count_digits_loop_eq [of _ _ _ upper])
qed

lemma count_digits_eq: "count_digits v = length (show_nat (uint_val v))"
  by (cases v) (simp_all add: do_count_digits_32_eq do_count_digits_64_eq ndigits_def)

lemma uint_val_less: "uint_val v < 2 ^ num_bits v"
proof (cases v)
  case (U32 n)
  have "unat n < 2 ^ LENGTH(32)" by (rule unsigned_less)
  then show ?thesis using U32 by simp
next
  case (U64 n)
  have "unat n < 2 ^ LENGTH(64)" by (rule unsigned_less)
  then show ?thesis using U64 by simp
qed

lemma format_decimal_out_eq: "format_decimal_out v (count_digits v) = Inr (show_nat (uint_val v))"
proof -
  have "length (show_nat (uint_val v)) \<le> digits10 v + 1"
    using ndigits_le [of "uint_val v" "digits10 v + 1"] uint_val_less [of v] by (cases v) (simp_all add: ndigits_def)
  then show ?thesis
    by (simp add: format_decimal_out_def format_decimal_def format_decimal_loop_eq store_before_def count_digits_eq)
qed

lemma format_uint_out_eq:
  "format_uint_out b v (count_digits_bits b v) upper = Inr (show_base b upper (uint_val v))"
proof -
  let ?d = "num_bits v div bits_of b + 1"
  have "num_bits v \<le> bits_of b * ?d" by (cases v; cases b) simp_all
  then have "(2 :: nat) ^ num_bits v \<le> 2 ^ (bits_of b * ?d)" by (rule power_increasing) simp
  then have "uint_val v < 2 ^ (bits_of b * ?d)" using uint_val_less [of v] by linarith
  then have "length (show_base b upper (uint_val v)) \<le> ?d" by (intro length_show_base) simp_all
  then show ?thesis
    by (simp add: format_uint_out_def format_uint_def format_uint_loop_eq store_before_def count_digits_bits_eq [of _ _ upper])
qed


section \<open>Prefixes\<close>

text \<open>The texts the packed prefixes stand for.\<close>

definition prefix_text :: "u32 \<Rightarrow> bytes \<Rightarrow> bool" where
  "prefix_text p t \<longleftrightarrow> prefix_bytes (p AND 0xffffff) = t \<and> unat (drop_bit 24 p) = length t \<and> (p = 0 \<longleftrightarrow> t = [])"

lemma prefix_bytes_simps [simp]:
  "prefix_bytes 0 = []"
  "p \<noteq> 0 \<Longrightarrow> prefix_bytes p = char_of (unat (p AND 0xff)) # prefix_bytes (drop_bit 8 p)"
  by (subst prefix_bytes.simps, simp)+

definition sign_text :: "int_arg \<Rightarrow> sign \<Rightarrow> bytes" where
  "sign_text v s =
     (if is_negative v then ''-'' else case s of Sign_plus \<Rightarrow> ''+'' | Sign_space \<Rightarrow> '' '' | _ \<Rightarrow> [])"

lemma sign_prefix_cases:
  "snd (make_write_int_arg v s) \<in> {0, 0x0100002D, 0x0100002B, 0x01000020}"
  by (cases s) (simp_all add: make_write_int_arg_def sign_prefixes_def)

lemma sign_prefix_text: "prefix_text (snd (make_write_int_arg v s)) (sign_text v s)"
proof -
  have c: "char_of (45 :: nat) = CHR ''-''" "char_of (43 :: nat) = CHR ''+''" "char_of (32 :: nat) = CHR '' ''"
    by code_simp+
  show ?thesis
    by (cases s) (simp_all add: make_write_int_arg_def sign_prefixes_def prefix_text_def sign_text_def c)
qed

lemma prefix_letter_text:
  assumes "k \<in> {CHR ''x'', CHR ''X'', CHR ''b'', CHR ''B''}"
  shows "prefix_text (prefix_append (snd (make_write_int_arg v s)) (push_bit 8 (of_char k) OR of_char (CHR ''0'')))
    (sign_text v s @ [CHR ''0'', k])"
proof -
  have c: "char_of (45 :: nat) = CHR ''-''" "char_of (43 :: nat) = CHR ''+''" "char_of (32 :: nat) = CHR '' ''"
    "char_of (48 :: nat) = CHR ''0''" "char_of (120 :: nat) = CHR ''x''" "char_of (88 :: nat) = CHR ''X''"
    "char_of (98 :: nat) = CHR ''b''" "char_of (66 :: nat) = CHR ''B''"
    by code_simp+
  show ?thesis
    using assms
    by (cases s)
      (auto simp: make_write_int_arg_def sign_prefixes_def prefix_text_def sign_text_def prefix_append_def c Let_def)
qed

lemma prefix_octal_text:
  "prefix_text (prefix_append (snd (make_write_int_arg v s)) (of_char (CHR ''0''))) (sign_text v s @ ''0'')"
proof -
  have c: "char_of (45 :: nat) = CHR ''-''" "char_of (43 :: nat) = CHR ''+''" "char_of (32 :: nat) = CHR '' ''"
    "char_of (48 :: nat) = CHR ''0''"
    by code_simp+
  show ?thesis
    by (cases s)
      (auto simp: make_write_int_arg_def sign_prefixes_def prefix_text_def sign_text_def prefix_append_def c Let_def)
qed


section \<open>Integers as texts\<close>

fun int_value :: "int_arg \<Rightarrow> int" where
  "int_value (Int_arg n) = sint n"
| "int_value (Uint_arg n) = uint n"
| "int_value (Long_long_arg n) = sint n"
| "int_value (Ulong_long_arg n) = uint n"

lemma is_negative_iff: "is_negative v \<longleftrightarrow> int_value v < 0"
  by (cases v) (simp_all add: not_less)

lemma unat_minus_negative_32: "sint (v :: u32) < 0 \<Longrightarrow> unat (0 - v) = nat (- sint v)"
proof -
  assume neg: "sint v < 0"
  have "sint v \<ge> - (2 ^ 31)" using sint_ge [of v] by simp
  then have "- sint v < 2 ^ 32" by simp
  then have "uint (word_of_int (- sint v) :: u32) = - sint v"
    using neg unfolding uint_word_of_int by simp
  moreover have "word_of_int (- sint v) = 0 - v" by simp
  ultimately have "uint (0 - v) = - sint v" by metis
  then show ?thesis by (metis unat_eq_nat_uint)
qed

lemma unat_nonnegative: "0 \<le> sint (v :: 'a::len word) \<Longrightarrow> unat v = nat (sint v)"
proof -
  assume "0 \<le> sint v"
  moreover have "sint v < 2 ^ LENGTH('a)" using sint_less [of v] by (smt (verit) one_le_numeral power_increasing diff_le_self)
  ultimately have "uint (word_of_int (sint v) :: 'a word) = sint v" unfolding uint_word_of_int by simp
  moreover have "word_of_int (sint v) = v" by simp
  ultimately have "uint v = sint v" by metis
  then show ?thesis by (simp add: unat_eq_nat_uint)
qed

lemma magnitude: "uint_val (if is_negative v then uint_neg (as_unsigned v) else as_unsigned v) = nat \<bar>int_value v\<bar>"
proof (cases v)
  case (Int_arg n)
  have "uint_val (if is_negative v then uint_neg (as_unsigned v) else as_unsigned v)
      = (if sint n < 0 then unat (0 - n) else unat n)"
    by (simp only: Int_arg is_negative.simps as_unsigned.simps uint_neg.simps if_distrib [of uint_val] uint_val.simps)
  also have "\<dots> = nat \<bar>sint n\<bar>"
  proof (cases "sint n < 0")
    case True
    then show ?thesis by (simp only: if_True unat_minus_negative_32 abs_of_neg)
  next
    case False
    then have "0 \<le> sint n" by simp
    with False show ?thesis by (simp only: if_False unat_nonnegative abs_of_nonneg)
  qed
  finally show ?thesis using Int_arg by simp
next
  case (Long_long_arg n)
  have "uint_val (if is_negative v then uint_neg (as_unsigned v) else as_unsigned v)
      = (if sint n < 0 then unat (0 - n) else unat n)"
    by (simp only: Long_long_arg is_negative.simps as_unsigned.simps uint_neg.simps if_distrib [of uint_val] uint_val.simps)
  also have "\<dots> = nat \<bar>sint n\<bar>"
  proof (cases "sint n < 0")
    case True
    then show ?thesis by (simp only: if_True unat_minus_negative abs_of_neg)
  next
    case False
    then have "0 \<le> sint n" by simp
    with False show ?thesis by (simp only: if_False unat_nonnegative abs_of_nonneg)
  qed
  finally show ?thesis using Long_long_arg by simp
next
  case (Uint_arg n)
  then show ?thesis by (simp flip: unat_eq_nat_uint)
next
  case (Ulong_long_arg n)
  then show ?thesis by (simp flip: unat_eq_nat_uint)
qed

definition digits_text :: "presentation_type \<Rightarrow> nat \<Rightarrow> bytes" where
  "digits_text t n =
     (case t of
        P_hex_lower \<Rightarrow> show_base Bits4 False n
      | P_hex_upper \<Rightarrow> show_base Bits4 True n
      | P_bin_lower \<Rightarrow> show_base Bits1 False n
      | P_bin_upper \<Rightarrow> show_base Bits1 False n
      | P_oct \<Rightarrow> show_base Bits3 False n
      | _ \<Rightarrow> show_nat n)"

definition alt_text :: "format_specs \<Rightarrow> nat \<Rightarrow> bytes" where
  "alt_text specs n =
     (if \<not> spec_alt specs then []
      else case spec_type specs of
        P_hex_lower \<Rightarrow> ''0x'' | P_hex_upper \<Rightarrow> ''0X'' | P_bin_lower \<Rightarrow> ''0b'' | P_bin_upper \<Rightarrow> ''0B''
      | P_oct \<Rightarrow> if n \<noteq> 0 then ''0'' else [] | _ \<Rightarrow> [])"

text \<open>The number with leading zeros after the prefix, or with fill around it.\<close>

definition number_columns :: "format_specs \<Rightarrow> bytes \<Rightarrow> bytes \<Rightarrow> bytes" where
  "number_columns specs prefix digits =
     (if spec_align specs = Align_numeric
      then prefix @ replicate (spec_width specs - length (prefix @ digits)) (CHR ''0'') @ digits
      else pad_columns Align_right specs (length (prefix @ digits)) (prefix @ digits))"

lemma pad_columns_wide: "spec_width specs \<le> w \<Longrightarrow> pad_columns dflt specs w t = t"
  by (cases "spec_align specs") (simp_all add: pad_columns_def)

lemma write_int_digits_eq:
  assumes "prefix_text p t" "spec_precision specs = -1" "spec_width specs < 2 ^ 31" "n = length ds"
  shows "write_int_digits n p specs ds = number_columns specs t ds"
proof (cases "spec_width specs = 0")
  case True
  then show ?thesis using assms by (auto simp: write_int_digits_def prefix_text_def number_columns_def pad_columns_wide)
next
  case False
  then show ?thesis
    using assms by (auto simp: write_int_digits_def write_int_data_def prefix_text_def number_columns_def
        pad_columns_wide write_padded_eq fill_n_def Let_def)
qed

lemma write_integer_eq:
  assumes "\<not> spec_localized specs" "spec_precision specs = -1" "spec_width specs < 2 ^ 31"
    and "spec_type specs \<in> {P_none, P_dec, P_oct, P_hex_lower, P_hex_upper, P_bin_lower, P_bin_upper}"
  shows "write_integer loc v specs
    = (let n = nat \<bar>int_value v\<bar> in
       Inr (number_columns specs (sign_text v (spec_sign specs) @ alt_text specs n) (digits_text (spec_type specs) n)))"
proof -
  obtain a p where ap: "make_write_int_arg v (spec_sign specs) = (a, p)" by fastforce
  have a: "uint_val a = nat \<bar>int_value v\<bar>"
    using ap magnitude [of v] by (auto simp: make_write_int_arg_def split: if_splits)
  have p: "p = snd (make_write_int_arg v (spec_sign specs))" using ap by simp
  note pfx = sign_prefix_text [of v "spec_sign specs"]
    prefix_letter_text [of _ v "spec_sign specs"] prefix_octal_text [of v "spec_sign specs"]
  note eq = write_int_digits_eq [OF _ assms(2,3)]
  have w: "write_integer loc v specs = write_int a p specs" using assms(1) ap by (simp add: write_integer_def)
  have dec: "write_int_digits (count_digits a) p specs (show_nat (uint_val a))
      = number_columns specs (sign_text v (spec_sign specs)) (show_nat (uint_val a))"
    by (rule eq) (simp_all add: p pfx count_digits_eq)
  have based: "write_int_digits (count_digits_bits b a) q specs (show_base b u (uint_val a))
      = number_columns specs t (show_base b u (uint_val a))" if "prefix_text q t" for b q u t
    by (rule eq) (simp_all add: that count_digits_bits_eq [of _ _ u])
  have pt: "prefix_text p (sign_text v (spec_sign specs))" by (simp add: p pfx)
  let ?s = "sign_text v (spec_sign specs)"
  have letter: "write_int_digits (count_digits_bits b a)
        (if spec_alt specs then prefix_append p (push_bit 8 (of_char k) OR of_char (CHR ''0'')) else p) specs
        (show_base b u (uint_val a))
      = number_columns specs (?s @ (if spec_alt specs then [CHR ''0'', k] else [])) (show_base b u (uint_val a))"
    if "k \<in> {CHR ''x'', CHR ''X'', CHR ''b'', CHR ''B''}" for b k u
    by (cases "spec_alt specs")
      (simp_all only: if_True if_False based [OF pt] based [OF pfx(2) [OF that, folded p]] append_Nil2)
  have octal: "write_int_digits (count_digits_bits Bits3 a)
        (if spec_alt specs \<and> spec_precision specs \<le> int (count_digits_bits Bits3 a) \<and> uint_val a \<noteq> 0
         then prefix_append p (of_char (CHR ''0'')) else p) specs (show_base Bits3 u (uint_val a))
      = number_columns specs (?s @ (if spec_alt specs \<and> uint_val a \<noteq> 0 then ''0'' else []))
          (show_base Bits3 u (uint_val a))" for u
  proof -
    have "spec_precision specs \<le> int (count_digits_bits Bits3 a)" using assms(2) by simp
    then show ?thesis
      by (cases "spec_alt specs \<and> uint_val a \<noteq> 0")
        (simp_all only: if_True if_False based [OF pt] based [OF pfx(3) [folded p]] append_Nil2 conj_commute simp_thms)
  qed
  note eval = w write_int_def Let_def format_decimal_out_eq format_uint_out_eq ub_simps bindE_simps
    presentation_type.case alt_text_def digits_text_def a
  consider "spec_type specs = P_none" | "spec_type specs = P_dec" | "spec_type specs = P_oct"
    | "spec_type specs = P_hex_lower" | "spec_type specs = P_hex_upper"
    | "spec_type specs = P_bin_lower" | "spec_type specs = P_bin_upper"
    using assms(4) by blast
  then show ?thesis
  proof cases
    case 1
    then show ?thesis by (simp only: eval dec [unfolded a]) simp
  next
    case 2
    then show ?thesis by (simp only: eval dec [unfolded a]) simp
  next
    case 3
    then show ?thesis by (simp only: eval octal [unfolded a]) simp
  next
    case 4
    have "CHR ''x'' \<in> {CHR ''x'', CHR ''X'', CHR ''b'', CHR ''B''}" by simp
    with 4 show ?thesis by (simp only: eval letter [unfolded a]) simp
  next
    case 5
    have "CHR ''X'' \<in> {CHR ''x'', CHR ''X'', CHR ''b'', CHR ''B''}" by simp
    with 5 show ?thesis by (simp only: eval letter [unfolded a]) simp
  next
    case 6
    have "CHR ''b'' \<in> {CHR ''x'', CHR ''X'', CHR ''b'', CHR ''B''}" by simp
    with 6 show ?thesis by (simp only: eval letter [unfolded a]) simp
  next
    case 7
    have "CHR ''B'' \<in> {CHR ''x'', CHR ''X'', CHR ''b'', CHR ''B''}" by simp
    with 7 show ?thesis by (simp only: eval letter [unfolded a]) simp
  qed
qed


lemma complement_neg: "uint_complement_neg u = uint_neg u"
  by (cases u) (simp_all add: minus_eq_not_plus_1)

lemma write_integer_default_eq: "write_integer_default v = Inr (show_int (int_value v))"
proof -
  let ?a = "if is_negative v then uint_neg (as_unsigned v) else as_unsigned v"
  have "write_integer_default v
      = Inr ((if is_negative v then ''-'' else '''') @ show_nat (uint_val ?a))"
    unfolding write_integer_default_def complement_neg Let_def format_decimal_out_eq ub_simps bindE_simps ..
  then show ?thesis unfolding magnitude by (simp add: show_int_def is_negative_iff)
qed

section \<open>Strings as texts\<close>

lemma invalid_not_encoded: "utf8_encode invalid_code_point = None"
  by (simp add: utf8_encode_def invalid_code_point_def)

lemma utf8_pieces_first:
  assumes "s \<noteq> []"
  shows "\<exists>c bs. utf8_pieces s = (c, bs) # utf8_pieces (drop (length bs) s) \<and> bs \<noteq> [] \<and> take (length bs) s = bs
    \<and> (utf8_encode c = Some bs \<or> c = invalid_code_point \<and> length bs = 1)
    \<and> (\<forall>c' bs'. utf8_encode c' = Some bs' \<longrightarrow> take (length bs') s = bs' \<longrightarrow> c' = c \<and> bs' = bs)"
proof (rule utf8_pieces_step [OF assms])
  fix c bs
  assume p: "utf8_pieces s = (c, bs) # utf8_pieces (drop (length bs) s)" "bs \<noteq> []" "take (length bs) s = bs"
    "utf8_encode c = Some bs \<or> c = invalid_code_point \<and> length bs = 1"
    and u: "\<And>c' bs'. utf8_encode c' = Some bs' \<Longrightarrow> take (length bs') s = bs' \<Longrightarrow> c' = c \<and> bs' = bs"
  have "\<forall>c' bs'. utf8_encode c' = Some bs' \<longrightarrow> take (length bs') s = bs' \<longrightarrow> c' = c \<and> bs' = bs" using u by blast
  with p show ?thesis by blast
qed

text \<open>Cutting between pieces leaves the pieces before the cut.\<close>

lemma utf8_pieces_take: "utf8_pieces (concat (map snd (take n (utf8_pieces s)))) = take n (utf8_pieces s)"
proof (induction n arbitrary: s)
  case (Suc n)
  show ?case
  proof (cases "s = []")
    case False
    obtain c bs where
      p: "utf8_pieces s = (c, bs) # utf8_pieces (drop (length bs) s)" "bs \<noteq> []" "take (length bs) s = bs"
        "utf8_encode c = Some bs \<or> c = invalid_code_point \<and> length bs = 1"
      and u: "\<And>c' bs'. utf8_encode c' = Some bs' \<Longrightarrow> take (length bs') s = bs' \<Longrightarrow> c' = c \<and> bs' = bs"
      using utf8_pieces_first [OF False] by blast
    let ?rest = "concat (map snd (take n (utf8_pieces (drop (length bs) s))))"
    have IH: "utf8_pieces ?rest = take n (utf8_pieces (drop (length bs) s))" by (rule Suc)
    have pre: "concat (map snd (take (Suc n) (utf8_pieces s))) = bs @ ?rest" by (simp only: p(1)) simp
    have "concat (map snd (take (Suc n) (utf8_pieces s))) @ concat (map snd (drop (Suc n) (utf8_pieces s))) = s"
      using utf8_pieces_concat [of s] by (metis append_take_drop_id concat_append map_append)
    then obtain tail where tail: "(bs @ ?rest) @ tail = s" using pre by metis
    have ne: "bs @ ?rest \<noteq> []" using p(2) by simp
    obtain c' bs' where
      q: "utf8_pieces (bs @ ?rest) = (c', bs') # utf8_pieces (drop (length bs') (bs @ ?rest))" "bs' \<noteq> []"
        "take (length bs') (bs @ ?rest) = bs'" "utf8_encode c' = Some bs' \<or> c' = invalid_code_point \<and> length bs' = 1"
      and v: "\<And>d ds. utf8_encode d = Some ds \<Longrightarrow> take (length ds) (bs @ ?rest) = ds \<Longrightarrow> d = c' \<and> ds = bs'"
      using utf8_pieces_first [OF ne] by blast
    have "c' = c \<and> bs' = bs"
    proof (cases "utf8_encode c = Some bs")
      case True
      then show ?thesis using v [OF True] by simp
    next
      case False
      then have inv: "c = invalid_code_point" "length bs = 1" using p(4) by simp_all
      have "utf8_encode c' \<noteq> Some bs'"
      proof
        assume e: "utf8_encode c' = Some bs'"
        have "bs @ ?rest = bs' @ drop (length bs') (bs @ ?rest)" using q(3) by (metis append_take_drop_id)
        then have "s = bs' @ drop (length bs') (bs @ ?rest) @ tail" using tail by (metis append_assoc)
        then have "take (length bs') s = bs'" by (metis append_eq_conv_conj)
        from u [OF e this] inv e show False by (simp add: invalid_not_encoded)
      qed
      then have "c' = invalid_code_point" "length bs' = 1" using q(4) by simp_all
      moreover have "bs' = bs" using q(3) inv(2) \<open>length bs' = 1\<close> by simp
      ultimately show ?thesis using inv by simp
    qed
    then show ?thesis using q(1) IH pre p(1) by simp
  qed simp
qed simp

text \<open>The pieces a string argument shows, and their columns.\<close>

definition shown_pieces :: "bytes \<Rightarrow> format_specs \<Rightarrow> (u32 \<times> bytes) list" where
  "shown_pieces s specs =
     (if spec_precision specs \<ge> 0 then take (nat (spec_precision specs)) (utf8_pieces s) else utf8_pieces s)"

definition columns :: "(u32 \<times> bytes) list \<Rightarrow> nat" where
  "columns ps = (\<Sum>p \<leftarrow> ps. 1 + of_bool (is_wide (fst p)))"

lemma compute_width_eq: "compute_width s = Inr (columns (utf8_pieces s))"
  unfolding compute_width_def for_each_codepoint_visits visit_width columns_def by (simp add: comp_def)

lemma code_point_index_eq:
  "code_point_index s n = Inr (length (concat (map snd (take n (utf8_pieces s)))))"
proof -
  have c: "concat (map snd (utf8_pieces s)) = s" using utf8_pieces_concat by blast
  show ?thesis
    unfolding code_point_index_def for_each_codepoint_visits map_sum.simps visit_index using c by simp
qed

lemma take_pieces: "take (length (concat (map snd (take n (utf8_pieces s))))) s = concat (map snd (take n (utf8_pieces s)))"
proof -
  have "concat (map snd (take n (utf8_pieces s))) @ concat (map snd (drop n (utf8_pieces s))) = s"
    using utf8_pieces_concat [of s] by (metis append_take_drop_id concat_append map_append)
  then show ?thesis by (metis append_eq_conv_conj)
qed

lemma length_pieces_le: "length (utf8_pieces s) \<le> length s"
proof -
  have "list_all (\<lambda>(c, bs). bs \<noteq> []) ps \<Longrightarrow> length ps \<le> length (concat (map snd ps))" for ps :: "(u32 \<times> bytes) list"
  proof (induction ps)
    case (Cons p ps)
    then have "0 < length (snd p)" by (cases p) auto
    moreover have "length ps \<le> length (concat (map snd ps))" using Cons by simp
    ultimately show ?case by (simp add: add_le_imp_le_diff del: length_0_conv length_greater_0_conv)
  qed simp
  from this [OF utf8_pieces_nonempty [of s]] show ?thesis using utf8_pieces_concat [of s] by metis
qed


lemma shown_columns:
  assumes "spec_type specs \<noteq> P_debug" "spec_width specs < 2 ^ 31"
  shows "write_string s specs
    = Inr (pad_columns Align_left specs (columns (shown_pieces s specs)) (concat (map snd (shown_pieces s specs))))"
proof -
  let ?ps = "shown_pieces s specs" let ?sz = "length (concat (map snd ?ps))"
  have c: "concat (map snd (utf8_pieces s)) = s" using utf8_pieces_concat by blast
  have cut: "take ?sz s = concat (map snd ?ps)" "utf8_pieces (concat (map snd ?ps)) = ?ps"
    using take_pieces [of "nat (spec_precision specs)" s] utf8_pieces_take [of "nat (spec_precision specs)" s] c
    by (simp_all add: shown_pieces_def)
  have all: "?ps = utf8_pieces s" if "\<not> (spec_precision specs \<ge> 0 \<and> nat (spec_precision specs) < length s)"
    using that length_pieces_le [of s] by (auto simp: shown_pieces_def)
  have sz: "(if spec_precision specs \<ge> 0 \<and> nat (spec_precision specs) < length s
      then ub (code_point_index s (nat (spec_precision specs))) else Inr (length s)) = Inr ?sz"
    using all c by (auto simp: code_point_index_eq shown_pieces_def)
  have le: "?sz \<le> length s" by (metis cut(1) length_take min.cobounded1 nat_le_linear take_all)
  have wr: "write_string s specs = Inr (write_padded Align_left specs
      (if spec_width specs \<noteq> 0 then columns ?ps else 0) (concat (map snd ?ps)))"
    unfolding write_string_def sz bindE_simps Let_def
    using assms(1) le by (simp add: read_at_def cut compute_width_eq del: length_concat)
  show ?thesis
  proof (cases "spec_width specs = 0")
    case True
    then show ?thesis by (simp add: wr write_padded_eq pad_columns_wide)
  next
    case False
    then show ?thesis using assms(2) by (simp add: wr write_padded_eq)
  qed
qed


section \<open>Writing never leaves a buffer\<close>

definition defined :: "fmt_failure + 'a \<Rightarrow> bool" where
  "defined r \<longleftrightarrow> (case r of Inl (Undefined _) \<Rightarrow> False | _ \<Rightarrow> True)"

lemma defined_simps [simp]: "defined (Inr a)" "defined (Inl (Format_Error m))" "\<not> defined (Inl (Undefined e))"
  by (simp_all add: defined_def)

lemma defined_bindE: "defined r \<Longrightarrow> (\<And>a. r = Inr a \<Longrightarrow> defined (f a)) \<Longrightarrow> defined (bindE r f)"
  by (cases r) (auto simp: defined_def split: fmt_failure.splits)

lemma defined_ub: "(\<exists>a. r = Inr a) \<Longrightarrow> defined (ub r)"
  by auto

lemma write_escaped_char_total: "\<exists>t. write_escaped_char c = Inr t"
  using needs_escape_total [of "scast (of_char c :: 8 word)"]
    write_escaped_cp_total [of "[c]" "scast (of_char c :: 8 word)"]
  by (auto simp: write_escaped_char_def)

lemma defined_write_char: "defined (write_char c specs)"
  unfolding write_char_def using write_escaped_char_total [of c] by (auto intro!: defined_bindE)

lemma defined_write_int: "defined (write_int a p specs)"
proof -
  have based: "defined (bindE (ub (format_uint_out b a (count_digits_bits b a) u)) (\<lambda>digits. Inr (g digits)))" for b u g
    by (simp only: format_uint_out_eq) simp
  have dec: "defined (bindE (ub (format_decimal_out a (count_digits a))) (\<lambda>digits. Inr (g digits)))" for g
    by (simp only: format_decimal_out_eq) simp
  show ?thesis
    unfolding write_int_def Let_def using based dec defined_write_char
    by (cases "spec_type specs") (simp_all only: presentation_type.case defined_simps)
qed

lemma defined_write_integer: "defined (write_integer loc v specs)"
  by (auto simp: write_integer_def defined_write_int split: option.split prod.split)

lemma defined_write_ptr: "defined (write_ptr p specs)"
  unfolding write_ptr_def Let_def by (simp only: format_uint_out_eq) simp

lemma defined_write_string: "defined (write_string s specs)"
proof -
  have esc: "write_escaped_string s = Inr ([CHR 0x22] @ concat (map escape_text (utf8_pieces s)) @ [CHR 0x22])"
    by (simp add: write_escaped_string_def write_escaped_body_eq)
  have le: "sz \<le> length s" if "(if P then ub (code_point_index s n) else Inr (length s)) = Inr sz" for P n sz
  proof (cases P)
    case True
    then have "sz = length (concat (map snd (take n (utf8_pieces s))))"
      using that by (simp add: code_point_index_eq del: length_concat)
    then show ?thesis by (metis take_pieces length_take min.cobounded1 nat_le_linear take_all)
  qed (use that in simp)
  show ?thesis
    unfolding write_string_def Let_def
    by (intro defined_bindE) (auto simp: esc compute_width_eq code_point_index_eq read_at_def dest: le simp del: length_concat)
qed

lemma defined_default_arg_formatter: "defined (default_arg_formatter a)"
  by (cases a) (simp_all add: write_integer_default_eq write_bool_def defined_write_integer defined_write_ptr)

lemma defined_arg_formatter: "defined (arg_formatter loc specs a)"
  by (cases a)
    (auto simp: defined_write_integer defined_write_ptr defined_write_string defined_write_char write_bool_def
      write_character_def check_char_specs_def write_cstring_def)

section \<open>What a field shows\<close>

text \<open>
  C29: Every integer is written as specified. For \<open>int\<close>, \<open>unsigned\<close>, \<open>long long\<close> and
  \<open>unsigned long long\<close>, the smallest values included, an integer presentation writes the sign the
  specification asks for, the prefix of the alternate form and the digits in base 2, 8, 10 or 16,
  zero-padded between prefix and digits for the \<open>0\<close> flag and filled around otherwise (to the
  left of the number unless an alignment says so).
\<close>

theorem integer_field_text:
  assumes "\<not> spec_localized specs" and "spec_precision specs = -1" and "spec_width specs < 2 ^ 31"
    and "spec_type specs \<in> {P_none, P_dec, P_oct, P_hex_lower, P_hex_upper, P_bin_lower, P_bin_upper}"
  shows "write_integer loc v specs
    = (let n = nat \<bar>int_value v\<bar> in
       Inr (number_columns specs (sign_text v (spec_sign specs) @ alt_text specs n) (digits_text (spec_type specs) n)))"
  by (rule write_integer_eq [OF assms])

theorem integer_field_text_witness:
  "write_integer (\<lambda>_ _. None) (Int_arg (- 255))
     (default_specs\<lparr>spec_width := 8, spec_type := P_hex_lower, spec_alt := True, spec_align := Align_numeric\<rparr>)
   = Inr ''-0x000ff''"
proof -
  let ?specs = "default_specs\<lparr>spec_width := 8, spec_type := P_hex_lower, spec_alt := True, spec_align := Align_numeric\<rparr>"
  have v: "int_value (Int_arg (- 255)) = - 255" by simp
  have h: "show_base Bits4 False 255 = ''ff''"
    by (simp add: show_base.simps digit_char_def)
  show ?thesis
    using integer_field_text [of ?specs "\<lambda>_ _. None" "Int_arg (- 255)"]
    by (simp add: default_specs_def v number_columns_def sign_text_def alt_text_def digits_text_def h
        is_negative_iff numeral_3_eq_3 del: int_value.simps is_negative.simps)
qed

text \<open>
  C30: A string field shows whole code points and pads by what they occupy. A precision keeps the
  first code points (stray bytes counting as one each), the width is filled up according to the
  columns of what is shown, wide characters counting twice; no precision splits a code point.
\<close>

theorem string_field_text:
  assumes "spec_type specs \<noteq> P_debug" and "spec_width specs < 2 ^ 31"
  shows "write_string s specs
    = Inr (pad_columns Align_left specs (columns (shown_pieces s specs)) (concat (map snd (shown_pieces s specs))))"
  by (rule shown_columns [OF assms])

theorem string_field_text_witness:
  "write_string ''abc'' (default_specs\<lparr>spec_width := 5, spec_precision := 2, spec_align := Align_right\<rparr>) = Inr ''   ab''"
proof -
  have p: "utf8_pieces ''abc'' = map (\<lambda>c. (of_char c, [c])) ''abc''" by (rule utf8_pieces_ascii) simp
  show ?thesis
    using string_field_text [of "default_specs\<lparr>spec_width := 5, spec_precision := 2, spec_align := Align_right\<rparr>" "''abc''"]
    by (simp add: default_specs_def shown_pieces_def p columns_def is_wide_def pad_columns_def numeral_3_eq_3)
qed

text \<open>
  The debug presentation ignores the precision: it measures and prints the whole string.
\<close>

theorem debug_ignores_precision:
  "write_string s (specs\<lparr>spec_type := P_debug, spec_precision := p\<rparr>) = write_string s (specs\<lparr>spec_type := P_debug, spec_precision := -1\<rparr>)"
  unfolding write_string_def by (simp add: code_point_index_eq write_padded_def Let_def del: length_concat)


end
