(* ===== verification/Fmt_Parse.thy ===== *)
theory Fmt_Parse
  imports Fmt_Write
begin

text \<open>
  How the bundled fmt reads a format string (\<open>fmt/bundled/core.h\<close>): argument numbering
  (\<open>basic_format_parse_context\<close>), numbers, argument references, format specifications
  (\<open>parse_format_specs\<close> and its small state machine), replacement fields and the string itself
  (\<open>parse_format_string\<close>, with its one-pass loop for short strings and its two passes over
  \<open>memchr\<close> for long ones).

  The pointer \<open>begin\<close> into \<open>[begin, end)\<close> is the list of the characters from it to \<open>end\<close>; reading
  at \<open>end\<close> is a fault. A result is the rest of the string and what was read.
\<close>

definition char_at :: "bytes \<Rightarrow> fmt_failure + char" where
  "char_at p = (case p of [] \<Rightarrow> Inl (Undefined OutOfBoundsRead) | c # _ \<Rightarrow> Inr c)"

definition throw_format_error :: "string \<Rightarrow> fmt_failure + 'a" where
  "throw_format_error message = Inl (Format_Error message)"

definition is_digit :: "char \<Rightarrow> bool" where
  "is_digit c \<longleftrightarrow> (48 :: nat) \<le> of_char c \<and> of_char c \<le> (57 :: nat)"

section \<open>Numbers\<close>

text \<open>
  The loop of \<open>parse_nonnegative_int\<close>: \<open>prev\<close> and \<open>v\<close> are \<open>unsigned\<close> and wrap, \<open>n\<close> counts the
  digits and \<open>d\<close> is \<open>p[-1]\<close>.
\<close>

fun parse_digits :: "bytes \<Rightarrow> u32 \<Rightarrow> u32 \<Rightarrow> nat \<Rightarrow> char \<Rightarrow> bytes \<times> u32 \<times> u32 \<times> nat \<times> char" where
  "parse_digits [] v prev n d = ([], v, prev, n, d)"
| "parse_digits (c # p) v prev n d =
     (if is_digit c then parse_digits p (v * 10 + of_nat (of_char c - 48)) v (n + 1) c
      else (c # p, v, prev, n, d))"

definition int_max :: int where "int_max = 2147483647"

definition parse_nonnegative_int :: "bytes \<Rightarrow> int \<Rightarrow> fmt_failure + bytes \<times> int" where
  "parse_nonnegative_int begin error_value =
     bindE (char_at begin) (\<lambda>c.
     let (p, v, prev, num_digits, d) = parse_digits (tl begin) (of_nat (of_char c - 48)) 0 1 c in
     Inr (p,
       if num_digits \<le> 9 then sint v
       else if num_digits = 10 \<and> unat prev * 10 + (of_char d - 48) \<le> nat int_max then sint v
       else error_value))"

section \<open>Argument references\<close>

definition parse_align :: "char \<Rightarrow> align" where
  "parse_align c =
     (if c = CHR ''<'' then Align_left else if c = CHR ''>'' then Align_right
      else if c = CHR ''^'' then Align_center else Align_none)"

definition is_name_start :: "char \<Rightarrow> bool" where
  "is_name_start c \<longleftrightarrow>
     (97 :: nat) \<le> of_char c \<and> of_char c \<le> (122 :: nat) \<or> (65 :: nat) \<le> of_char c \<and> of_char c \<le> (90 :: nat)
     \<or> c = CHR ''_''"

text \<open>What a reference to an argument says; the handlers of the code are functions of it.\<close>

datatype arg_id = Auto | Index int | Name bytes

definition do_parse_arg_id :: "bytes \<Rightarrow> fmt_failure + bytes \<times> arg_id" where
  "do_parse_arg_id begin =
     bindE (char_at begin) (\<lambda>c.
     if is_digit c then
       bindE (if c \<noteq> CHR ''0'' then parse_nonnegative_int begin int_max else Inr (tl begin, 0)) (\<lambda>(begin, index).
         case begin of
           [] \<Rightarrow> throw_format_error ''invalid format string''
         | c # _ \<Rightarrow>
             if c \<noteq> CHR ''}'' \<and> c \<noteq> CHR '':'' then throw_format_error ''invalid format string''
             else Inr (begin, Index index))
     else if \<not> is_name_start c then throw_format_error ''invalid format string''
     else
       let name = c # takeWhile (\<lambda>c. is_name_start c \<or> is_digit c) (tl begin)
       in Inr (drop (length name) begin, Name name))"

definition parse_arg_id :: "bytes \<Rightarrow> fmt_failure + bytes \<times> arg_id" where
  "parse_arg_id begin =
     bindE (char_at begin) (\<lambda>c.
     if c \<noteq> CHR ''}'' \<and> c \<noteq> CHR '':'' then do_parse_arg_id begin else Inr (begin, Auto))"

text \<open>
  The parse context's argument counter: the next automatic number, or \<open>-1\<close> once arguments are
  numbered by hand. The checks against the number of arguments run at compile time only.
\<close>

definition ctx_next_arg_id :: "int \<Rightarrow> fmt_failure + int \<times> int" where
  "ctx_next_arg_id next_id =
     (if next_id < 0 then throw_format_error ''cannot switch from manual to automatic argument indexing''
      else Inr (next_id + 1, next_id))"

definition ctx_check_arg_id :: "int \<Rightarrow> fmt_failure + int" where
  "ctx_check_arg_id next_id =
     (if next_id > 0 then throw_format_error ''cannot switch from automatic to manual argument indexing''
      else Inr (-1))"

datatype arg_ref = Ref_none | Ref_index int | Ref_name bytes

text \<open>\<open>dynamic_spec_id_handler\<close>: a width or precision that is an argument.\<close>

fun dynamic_spec_id :: "int \<Rightarrow> arg_id \<Rightarrow> fmt_failure + int \<times> arg_ref" where
  "dynamic_spec_id ctx Auto = bindE (ctx_next_arg_id ctx) (\<lambda>(ctx, id). Inr (ctx, Ref_index id))"
| "dynamic_spec_id ctx (Index i) = bindE (ctx_check_arg_id ctx) (\<lambda>ctx. Inr (ctx, Ref_index i))"
| "dynamic_spec_id ctx (Name n) = Inr (ctx, Ref_name n)"

text \<open>\<open>[integer | "{" [arg_id] "}"]\<close>; the result also carries the value, the reference and the counter.\<close>

definition parse_dynamic_spec :: "bytes \<Rightarrow> int \<Rightarrow> arg_ref \<Rightarrow> int \<Rightarrow> fmt_failure + bytes \<times> int \<times> arg_ref \<times> int" where
  "parse_dynamic_spec begin v ref ctx =
     bindE (char_at begin) (\<lambda>c.
     if is_digit c then
       bindE (parse_nonnegative_int begin (-1)) (\<lambda>(begin, val).
         if val \<noteq> -1 then Inr (begin, val, ref, ctx) else throw_format_error ''number is too big'')
     else if c = CHR ''{'' then
       bindE (case tl begin of
                [] \<Rightarrow> Inr ([], ref, ctx)
              | _ # _ \<Rightarrow>
                  bindE (parse_arg_id (tl begin)) (\<lambda>(begin, id).
                  bindE (dynamic_spec_id ctx id) (\<lambda>(ctx, ref). Inr (begin, ref, ctx)))) (\<lambda>(begin, ref, ctx).
         case begin of
           [] \<Rightarrow> throw_format_error ''invalid format string''
         | c # rest \<Rightarrow>
             if c = CHR ''}'' then Inr (rest, v, ref, ctx) else throw_format_error ''invalid format string'')
     else Inr (begin, v, ref, ctx))"

definition parse_precision :: "bytes \<Rightarrow> int \<Rightarrow> arg_ref \<Rightarrow> int \<Rightarrow> fmt_failure + bytes \<times> int \<times> arg_ref \<times> int" where
  "parse_precision begin v ref ctx =
     (case tl begin of
        [] \<Rightarrow> throw_format_error ''invalid precision''
      | c # rest \<Rightarrow>
          if c = CHR ''}'' then throw_format_error ''invalid precision''
          else parse_dynamic_spec (c # rest) v ref ctx)"

section \<open>Format specifications\<close>

datatype fmt_type =
    None_type | Int_type | Uint_type | Long_long_type | Ulong_long_type | Int128_type | Uint128_type
  | Bool_type | Char_type | Float_type | Double_type | Long_double_type | Cstring_type | String_type
  | Pointer_type | Custom_type

definition sint_set :: "fmt_type list" where "sint_set = [Int_type, Long_long_type, Int128_type]"
definition uint_set :: "fmt_type list" where "uint_set = [Uint_type, Ulong_long_type, Uint128_type]"
definition bool_set :: "fmt_type list" where "bool_set = [Bool_type]"
definition char_set :: "fmt_type list" where "char_set = [Char_type]"
definition float_set :: "fmt_type list" where "float_set = [Float_type, Double_type, Long_double_type]"
definition string_set :: "fmt_type list" where "string_set = [String_type]"
definition cstring_set :: "fmt_type list" where "cstring_set = [Cstring_type]"
definition pointer_set :: "fmt_type list" where "pointer_set = [Pointer_type]"

definition integral_set :: "fmt_type list" where
  "integral_set = sint_set @ uint_set @ bool_set @ char_set"

definition is_arithmetic_type :: "fmt_type \<Rightarrow> bool" where
  "is_arithmetic_type t \<longleftrightarrow> t \<in> set (integral_set @ float_set)"

text \<open>
  The states in their order, and the parser's variables: the state, the specifications, the two
  dynamic references and the context's argument counter.
\<close>

datatype spec_stage = S_start | S_align | S_sign | S_hash | S_zero | S_width | S_precision | S_locale

fun stage_num :: "spec_stage \<Rightarrow> nat" where
  "stage_num S_start = 0"
| "stage_num S_align = 1"
| "stage_num S_sign = 2"
| "stage_num S_hash = 3"
| "stage_num S_zero = 4"
| "stage_num S_width = 5"
| "stage_num S_precision = 6"
| "stage_num S_locale = 7"

record spec_parser =
  sp_stage :: spec_stage
  sp_specs :: format_specs
  sp_width_ref :: arg_ref
  sp_precision_ref :: arg_ref
  sp_ctx :: int

definition enter_state :: "spec_stage \<Rightarrow> bool \<Rightarrow> spec_parser \<Rightarrow> fmt_failure + spec_parser" where
  "enter_state s valid sp =
     (if stage_num (sp_stage sp) \<ge> stage_num s \<or> \<not> valid then throw_format_error ''invalid format specifier''
      else Inr (sp\<lparr>sp_stage := s\<rparr>))"

definition code_point_length :: "char \<Rightarrow> nat" where
  "code_point_length c = unat (drop_bit (2 * (of_char c div 8)) (0x3a55000000000000 :: u64) AND 3) + 1"

text \<open>A step answers whether it was the last one, the rest and the parser's variables.\<close>

type_synonym spec_result = "fmt_failure + bool \<times> bytes \<times> spec_parser"

definition parse_presentation_type ::
  "presentation_type \<Rightarrow> fmt_type list \<Rightarrow> fmt_type \<Rightarrow> bytes \<Rightarrow> spec_parser \<Rightarrow> spec_result" where
  "parse_presentation_type pres_type ts arg_type begin sp =
     (if arg_type \<notin> set ts then
        if arg_type = None_type then Inr (True, begin, sp)
        else throw_format_error ''invalid format specifier''
      else Inr (True, tl begin, sp\<lparr>sp_specs := (sp_specs sp)\<lparr>spec_type := pres_type\<rparr>\<rparr>))"

text \<open>The letters that choose a presentation, in the order of the \<open>switch\<close>.\<close>

definition presentations :: "(char \<times> presentation_type \<times> fmt_type list) list" where
  "presentations =
     [(CHR ''d'', P_dec, integral_set), (CHR ''o'', P_oct, integral_set),
      (CHR ''x'', P_hex_lower, integral_set), (CHR ''X'', P_hex_upper, integral_set),
      (CHR ''b'', P_bin_lower, integral_set), (CHR ''B'', P_bin_upper, integral_set),
      (CHR ''a'', P_hexfloat_lower, float_set), (CHR ''A'', P_hexfloat_upper, float_set),
      (CHR ''e'', P_exp_lower, float_set), (CHR ''E'', P_exp_upper, float_set),
      (CHR ''f'', P_fixed_lower, float_set), (CHR ''F'', P_fixed_upper, float_set),
      (CHR ''g'', P_general_lower, float_set), (CHR ''G'', P_general_upper, float_set),
      (CHR ''c'', P_chr, integral_set), (CHR ''s'', P_string, bool_set @ string_set @ cstring_set),
      (CHR ''p'', P_pointer, pointer_set @ cstring_set),
      (CHR ''?'', P_debug, char_set @ string_set @ cstring_set)]"

text \<open>The \<open>default\<close> branch: a fill and its alignment.\<close>

definition parse_fill :: "bytes \<Rightarrow> spec_parser \<Rightarrow> spec_result" where
  "parse_fill begin sp =
     bindE (char_at begin) (\<lambda>c.
     if c = CHR ''}'' then Inr (True, begin, sp)
     else
       let len = code_point_length c; fill_end = drop len begin in
       if length begin \<le> len then throw_format_error ''invalid format specifier''
       else if c = CHR ''{'' then throw_format_error (''invalid fill character '' @ [CHR 0x27, CHR ''{'', CHR 0x27])
       else
         bindE (char_at fill_end) (\<lambda>d.
         bindE (enter_state S_align (parse_align d \<noteq> Align_none) sp) (\<lambda>sp.
           Inr (False, tl fill_end,
                sp\<lparr>sp_specs := (sp_specs sp)\<lparr>spec_fill := take len begin, spec_align := parse_align d\<rparr>\<rparr>))))"


text \<open>
  One pass of the loop. \<open>nul\<close> stands for \<open>c = '\0'\<close>, the first character before an alignment;
  otherwise \<open>c\<close> is the character at \<open>begin\<close>.
\<close>

definition spec_step :: "bool \<Rightarrow> fmt_type \<Rightarrow> bytes \<Rightarrow> spec_parser \<Rightarrow> spec_result" where
  "spec_step nul arg_type begin sp =
     bindE (if nul then Inr (CHR 0x00) else char_at begin) (\<lambda>c.
     let specs = sp_specs sp;
         set_specs = (\<lambda>specs sp. Inr (False, tl begin, sp\<lparr>sp_specs := specs\<rparr>))
     in
     if c = CHR ''<'' \<or> c = CHR ''>'' \<or> c = CHR ''^'' then
       bindE (enter_state S_align True sp) (set_specs (specs\<lparr>spec_align := parse_align c\<rparr>))
     else if c = CHR ''+'' \<or> c = CHR ''-'' \<or> c = CHR '' '' then
       if arg_type = None_type then Inr (True, begin, sp)
       else bindE (enter_state S_sign (arg_type \<in> set (sint_set @ float_set)) sp)
              (set_specs (specs\<lparr>spec_sign :=
                 (if c = CHR ''+'' then Sign_plus else if c = CHR ''-'' then Sign_minus else Sign_space)\<rparr>))
     else if c = CHR ''#'' then
       if arg_type = None_type then Inr (True, begin, sp)
       else bindE (enter_state S_hash (is_arithmetic_type arg_type) sp) (set_specs (specs\<lparr>spec_alt := True\<rparr>))
     else if c = CHR ''0'' then
       bindE (enter_state S_zero True sp) (\<lambda>sp.
         if \<not> is_arithmetic_type arg_type then
           if arg_type = None_type then Inr (True, begin, sp)
           else throw_format_error ''format specifier requires numeric argument''
         else set_specs
           (if spec_align specs = Align_none
            then specs\<lparr>spec_align := Align_numeric, spec_fill := (spec_fill specs)[0 := CHR ''0'']\<rparr> else specs) sp)
     else if is_digit c \<or> c = CHR ''{'' then
       bindE (enter_state S_width True sp) (\<lambda>sp.
       bindE (parse_dynamic_spec begin (int (spec_width specs)) (sp_width_ref sp) (sp_ctx sp)) (\<lambda>(begin, v, ref, ctx).
         Inr (False, begin, sp\<lparr>sp_specs := specs\<lparr>spec_width := nat v\<rparr>, sp_width_ref := ref, sp_ctx := ctx\<rparr>)))
     else if c = CHR ''.'' then
       if arg_type = None_type then Inr (True, begin, sp)
       else
         bindE (enter_state S_precision (arg_type \<in> set (float_set @ string_set @ cstring_set)) sp) (\<lambda>sp.
         bindE (parse_precision begin (spec_precision specs) (sp_precision_ref sp) (sp_ctx sp)) (\<lambda>(begin, v, ref, ctx).
           Inr (False, begin, sp\<lparr>sp_specs := specs\<lparr>spec_precision := v\<rparr>, sp_precision_ref := ref, sp_ctx := ctx\<rparr>)))
     else if c = CHR ''L'' then
       if arg_type = None_type then Inr (True, begin, sp)
       else bindE (enter_state S_locale (is_arithmetic_type arg_type) sp) (set_specs (specs\<lparr>spec_localized := True\<rparr>))
     else
       case map_of presentations c of
         Some (pres_type, ts) \<Rightarrow>
           if c = CHR ''c'' \<and> arg_type = Bool_type then throw_format_error ''invalid format specifier''
           else parse_presentation_type pres_type ts arg_type begin sp
       | None \<Rightarrow> if c = CHR ''}'' then Inr (True, begin, sp) else parse_fill begin sp)"

section \<open>Every step moves on\<close>

declare bindE_split [split del]

lemma bindE_throw [simp]: "bindE (throw_format_error m) f = throw_format_error m"
  by (simp add: throw_format_error_def)

lemma throw_not_Inr [simp]: "throw_format_error m \<noteq> Inr r"
  by (simp add: throw_format_error_def)

lemma char_at_eq_Inr [simp]: "char_at p = Inr c \<longleftrightarrow> (\<exists>r. p = c # r)"
  by (auto simp: char_at_def split: list.splits)

lemma char_at_Cons [simp]: "char_at (c # p) = Inr c"
  by (simp add: char_at_def)

lemma char_at_Nil [simp]: "char_at [] = Inl (Undefined OutOfBoundsRead)"
  by (simp add: char_at_def)

lemma parse_digits_length: "length (fst (parse_digits p v prev n d)) \<le> length p"
  by (induction p v prev n d rule: parse_digits.induct) auto

lemma parse_nonnegative_int_shorter:
  "parse_nonnegative_int p ev = Inr (r, v) \<Longrightarrow> length r < length p"
proof -
  assume "parse_nonnegative_int p ev = Inr (r, v)"
  then obtain c q where p: "p = c # q" and r: "r = fst (parse_digits q (of_nat (of_char c - 48)) 0 1 c)"
    by (auto simp: parse_nonnegative_int_def bindE_eq_Inr_iff case_prod_beta)
  then show ?thesis using parse_digits_length [of q] by (simp add: le_imp_less_Suc)
qed

lemma length_drop_le: "length (drop n xs) \<le> length xs"
  by simp

lemma do_parse_arg_id_shorter: "do_parse_arg_id p = Inr (r, i) \<Longrightarrow> length r \<le> length p"
proof (cases p)
  case (Cons c q)
  assume d: "do_parse_arg_id p = Inr (r, i)"
  show ?thesis
  proof (cases "is_digit c")
    case True
    let ?num = "if c \<noteq> CHR ''0'' then parse_nonnegative_int p int_max else Inr (q, 0)"
    obtain b k where num: "?num = Inr (b, k)" and b: "b = r"
      using d Cons True by (cases ?num) (auto simp: do_parse_arg_id_def split: list.split_asm if_split_asm)
    then show ?thesis using Cons by (auto dest!: parse_nonnegative_int_shorter split: if_split_asm)
  next
    case False
    then show ?thesis using d Cons by (auto simp: do_parse_arg_id_def Let_def split: if_split_asm)
  qed
qed (simp add: do_parse_arg_id_def)

lemma parse_arg_id_shorter: "parse_arg_id p = Inr (r, i) \<Longrightarrow> length r \<le> length p"
  by (cases p) (auto simp: parse_arg_id_def dest: do_parse_arg_id_shorter split: if_split_asm)

lemma parse_dynamic_spec_shorter:
  assumes "parse_dynamic_spec (c # p) v ref ctx = Inr (r, v', ref', ctx')" "is_digit c \<or> c = CHR ''{''"
  shows "length r < length (c # p)"
proof (cases "is_digit c")
  case True
  then show ?thesis
    using assms(1) by (auto simp: parse_dynamic_spec_def bindE_eq_Inr_iff dest!: parse_nonnegative_int_shorter split: if_split_asm)
next
  case False
  then have c: "c = CHR ''{''" using assms(2) by simp
  let ?inner = "case p of
      [] \<Rightarrow> Inr ([], ref, ctx)
    | _ # _ \<Rightarrow> bindE (parse_arg_id p) (\<lambda>(begin, id). bindE (dynamic_spec_id ctx id) (\<lambda>(ctx, ref). Inr (begin, ref, ctx)))"
  obtain b ref1 ctx1 where inner: "?inner = Inr (b, ref1, ctx1)" and r: "length r < length b \<or> b = [] \<and> False"
    using assms(1) False c
    by (cases ?inner) (auto simp: parse_dynamic_spec_def split: list.split_asm if_split_asm)
  have "length b \<le> length p"
  proof (cases p)
    case (Cons x xs)
    then obtain i where "parse_arg_id p = Inr (b, i)"
      using inner by (cases "parse_arg_id p") (auto simp: bindE_eq_Inr_iff)
    then show ?thesis by (rule parse_arg_id_shorter)
  qed (use inner in simp)
  then show ?thesis using r by simp
qed

text \<open>No sub-parser reads past the end.\<close>

lemma defined_throw [simp]: "defined (throw_format_error m)"
  by (simp add: throw_format_error_def)

lemma defined_char_at [simp]: "defined (char_at p) \<longleftrightarrow> p \<noteq> []"
  by (cases p) simp_all

lemma defined_parse_nonnegative_int: "p \<noteq> [] \<Longrightarrow> defined (parse_nonnegative_int p ev)"
  unfolding parse_nonnegative_int_def by (rule defined_bindE) (auto simp: Let_def split: prod.split)

lemma defined_do_parse_arg_id: "p \<noteq> [] \<Longrightarrow> defined (do_parse_arg_id p)"
  unfolding do_parse_arg_id_def
proof (rule defined_bindE, simp)
  fix c
  assume "p \<noteq> []"
  then have "defined (if c \<noteq> CHR ''0'' then parse_nonnegative_int p int_max else Inr (tl p, 0))"
    by (simp add: defined_parse_nonnegative_int)
  then show "defined (if is_digit c then
       bindE (if c \<noteq> CHR ''0'' then parse_nonnegative_int p int_max else Inr (tl p, 0)) (\<lambda>(begin, index).
         case begin of
           [] \<Rightarrow> throw_format_error ''invalid format string''
         | c # _ \<Rightarrow>
             if c \<noteq> CHR ''}'' \<and> c \<noteq> CHR '':'' then throw_format_error ''invalid format string''
             else Inr (begin, Index index))
     else if \<not> is_name_start c then throw_format_error ''invalid format string''
     else
       let name = c # takeWhile (\<lambda>c. is_name_start c \<or> is_digit c) (tl p)
       in Inr (drop (length name) p, Name name))"
    by (auto simp: Let_def intro!: defined_bindE split: list.split)
qed

lemma defined_parse_arg_id: "p \<noteq> [] \<Longrightarrow> defined (parse_arg_id p)"
  unfolding parse_arg_id_def by (rule defined_bindE) (simp_all add: defined_do_parse_arg_id)

lemma defined_dynamic_spec_id: "defined (dynamic_spec_id ctx i)"
  by (cases i) (simp_all add: ctx_next_arg_id_def ctx_check_arg_id_def)

lemma defined_parse_dynamic_spec: "p \<noteq> [] \<Longrightarrow> defined (parse_dynamic_spec p v ref ctx)"
  unfolding parse_dynamic_spec_def
  by (auto intro!: defined_bindE defined_parse_nonnegative_int defined_parse_arg_id defined_dynamic_spec_id
      split: list.split)

lemma defined_parse_precision: "defined (parse_precision p v ref ctx)"
  by (auto simp: parse_precision_def intro: defined_parse_dynamic_spec split: list.split)

text \<open>Where the rest is: \<open>P\<close> holds of the answer, and nothing undefined happens.\<close>

definition ends :: "('a \<Rightarrow> bool) \<Rightarrow> fmt_failure + 'a \<Rightarrow> bool" where
  "ends P r \<longleftrightarrow> defined r \<and> (\<forall>a. r = Inr a \<longrightarrow> P a)"

lemma ends_simps [simp]:
  "ends P (Inr a) \<longleftrightarrow> P a"
  "ends P (throw_format_error m)"
  "ends P (Inl (Format_Error m))"
  by (simp_all add: ends_def)

lemma ends_bindE: "ends Q r \<Longrightarrow> (\<And>a. r = Inr a \<Longrightarrow> Q a \<Longrightarrow> ends P (f a)) \<Longrightarrow> ends P (bindE r f)"
  by (auto simp: ends_def intro: defined_bindE simp: bindE_eq_Inr_iff)

lemma ends_defined: "defined r \<Longrightarrow> ends (\<lambda>_. True) r"
  by (simp add: ends_def)

lemma ends_weaken: "ends Q r \<Longrightarrow> (\<And>a. Q a \<Longrightarrow> P a) \<Longrightarrow> ends P r"
  by (auto simp: ends_def)

lemma ends_if: "(b \<Longrightarrow> ends P x) \<Longrightarrow> (\<not> b \<Longrightarrow> ends P y) \<Longrightarrow> ends P (if b then x else y)"
  by simp

lemma ends_enter_state: "ends (\<lambda>_. True) (enter_state s valid sp)"
  by (simp add: enter_state_def)

lemma ends_dynamic_spec:
  "is_digit c \<or> c = CHR ''{'' \<Longrightarrow> ends (\<lambda>(r, _). length r < length (c # p)) (parse_dynamic_spec (c # p) v ref ctx)"
  using parse_dynamic_spec_shorter [of c p v ref ctx] defined_parse_dynamic_spec [of "c # p" v ref ctx]
  unfolding ends_def by auto

lemma ends_dynamic_spec_le:
  "p \<noteq> [] \<Longrightarrow> ends (\<lambda>(r, _). length r \<le> length p) (parse_dynamic_spec p v ref ctx)"
proof (cases p)
  case (Cons c q)
  show ?thesis
  proof (cases "is_digit c \<or> c = CHR ''{''")
    case True
    then show ?thesis using ends_weaken [OF ends_dynamic_spec [OF True]] Cons by (auto intro: ends_weaken)
  next
    case False
    then show ?thesis using Cons by (simp add: parse_dynamic_spec_def)
  qed
qed simp

lemma ends_precision: "ends (\<lambda>(r, _). length r < length (c # p)) (parse_precision (c # p) v ref ctx)"
  using ends_dynamic_spec_le [of p v ref ctx]
  by (cases p) (auto simp: parse_precision_def elim!: ends_weaken)

definition moves :: "bytes \<Rightarrow> spec_result \<Rightarrow> bool" where
  "moves p r \<longleftrightarrow> ends (\<lambda>(fin, q, _). length q \<le> length p \<and> (fin \<or> length q < length p)) r"

lemma moves_simps [simp]:
  "moves p (Inr (fin, q, sp)) \<longleftrightarrow> length q \<le> length p \<and> (fin \<or> length q < length p)"
  "moves p (throw_format_error m)"
  by (simp_all add: moves_def)

lemma moves_bindE: "ends Q r \<Longrightarrow> (\<And>a. Q a \<Longrightarrow> moves p (f a)) \<Longrightarrow> moves p (bindE r f)"
  unfolding moves_def by (rule ends_bindE)

lemma moves_if: "(b \<Longrightarrow> moves p x) \<Longrightarrow> (\<not> b \<Longrightarrow> moves p y) \<Longrightarrow> moves p (if b then x else y)"
  by simp

lemma moves_option:
  "(\<And>a b. r = Some (a, b) \<Longrightarrow> moves p (f a b)) \<Longrightarrow> (r = None \<Longrightarrow> moves p g) \<Longrightarrow>
     moves p (case r of None \<Rightarrow> g | Some (a, b) \<Rightarrow> f a b)"
  by (auto split: option.split)

lemma moves_fill: "p \<noteq> [] \<Longrightarrow> moves p (parse_fill p sp)"
proof -
  assume "p \<noteq> []"
  then obtain c q where p: "p = c # q" by (cases p) auto
  let ?len = "code_point_length c"
  have "moves p (bindE (char_at (drop ?len p)) (\<lambda>d.
      bindE (enter_state S_align (parse_align d \<noteq> Align_none) sp) (\<lambda>sp.
        Inr (False, tl (drop ?len p),
             sp\<lparr>sp_specs := (sp_specs sp)\<lparr>spec_fill := take ?len p, spec_align := parse_align d\<rparr>\<rparr>))))"
    if "?len < length p"
    by (intro moves_bindE [OF ends_defined] moves_bindE [OF ends_enter_state]) (use that in auto)
  then show ?thesis unfolding parse_fill_def p by (simp add: Let_def)
qed

lemma moves_presentation: "p \<noteq> [] \<Longrightarrow> moves p (parse_presentation_type pres ts t p sp)"
  by (simp add: parse_presentation_type_def)

lemma moves_spec_step:
  assumes "p \<noteq> []"
  shows "moves p (spec_step nul t p sp)"
proof -
  obtain c0 q where p: "p = c0 # q" using assms by (cases p) auto
  define c where "c = (if nul then CHR 0x00 else c0)"
  have first: "(if nul then Inr (CHR 0x00) else char_at p) = Inr c" by (simp add: c_def p)
  have own: "c = c0" if "is_digit c \<or> c = CHR ''{''" using that by (auto simp: c_def is_digit_def split: if_splits)
  have simple: "moves p (bindE (enter_state s valid sp) (\<lambda>sp. Inr (False, tl p, sp\<lparr>sp_specs := specs\<rparr>)))" for s valid specs
    by (intro moves_bindE [OF ends_enter_state]) (simp add: p)
  have zero: "moves p (bindE (enter_state S_zero True sp) (\<lambda>sp.
         if \<not> is_arithmetic_type t then
           if t = None_type then Inr (True, p, sp) else throw_format_error m
         else Inr (False, tl p, sp\<lparr>sp_specs := specs\<rparr>)))" for specs m
    by (intro moves_bindE [OF ends_enter_state]) (simp add: p)
  have width: "moves p (bindE (enter_state S_width True sp) (\<lambda>sp'. bindE (parse_dynamic_spec p v (ref sp') (ctx sp'))
       (\<lambda>(begin, v, ref, ctx). Inr (False, begin, g sp' v ref ctx))))" if "is_digit c \<or> c = CHR ''{''" for v ref ctx g
    by (intro moves_bindE [OF ends_enter_state] moves_bindE [OF ends_dynamic_spec [of c q, folded p [folded own [OF that]]]])
      (use that in auto)
  have prec: "moves p (bindE (enter_state S_precision valid sp) (\<lambda>sp'. bindE (parse_precision p v (ref sp') (ctx sp'))
       (\<lambda>(begin, v, ref, ctx). Inr (False, begin, g sp' v ref ctx))))" for valid v ref ctx g
    by (intro moves_bindE [OF ends_enter_state] moves_bindE [OF ends_precision [of c0 q, folded p]]) auto
  show ?thesis
    unfolding spec_step_def first bindE_simps Let_def
    by (intro moves_if moves_option simple zero width prec moves_presentation [OF assms] moves_fill [OF assms])
      (simp_all add: p)
qed

section \<open>The loop over specifications\<close>

lemma spec_step_Nil: "\<exists>e. spec_step nul t [] sp = Inl e"
  by (cases nul) (simp_all add: spec_step_def parse_fill_def is_digit_def presentations_def Let_def)

lemma spec_step_shorter:
  "spec_step nul t p sp = Inr (False, q, sp') \<Longrightarrow> length q < length p"
  using moves_spec_step [of p nul t sp] spec_step_Nil [of nul t sp] by (cases "p = []") (auto simp: moves_def ends_def)

function spec_loop :: "bool \<Rightarrow> fmt_type \<Rightarrow> bytes \<Rightarrow> spec_parser \<Rightarrow> fmt_failure + bytes \<times> spec_parser" where
  "spec_loop nul t begin sp =
     (case spec_step nul t begin sp of
        Inl e \<Rightarrow> Inl e
      | Inr (fin, begin, sp) \<Rightarrow>
          if fin then Inr (begin, sp)
          else if begin = [] then Inr (begin, sp)
          else spec_loop False t begin sp)"
  by pat_completeness auto
termination
  by (relation "measure (\<lambda>(nul, t, p, sp). length p)") (use spec_step_shorter in force)+

declare spec_loop.simps [simp del]

definition spec_parser_new :: "int \<Rightarrow> spec_parser" where
  "spec_parser_new ctx =
     \<lparr>sp_stage = S_start, sp_specs = default_specs, sp_width_ref = Ref_none, sp_precision_ref = Ref_none, sp_ctx = ctx\<rparr>"

definition parse_format_specs :: "bytes \<Rightarrow> int \<Rightarrow> fmt_type \<Rightarrow> fmt_failure + bytes \<times> spec_parser" where
  "parse_format_specs begin ctx arg_type =
     (case begin of
        [] \<Rightarrow> Inr (begin, spec_parser_new ctx)
      | [_] \<Rightarrow> spec_loop False arg_type begin (spec_parser_new ctx)
      | _ # next # _ \<Rightarrow> spec_loop (parse_align next \<noteq> Align_none) arg_type begin (spec_parser_new ctx))"

lemma ends_spec_loop: "p \<noteq> [] \<Longrightarrow> ends (\<lambda>(q, _). length q \<le> length p) (spec_loop nul t p sp)"
proof (induction nul t p sp rule: spec_loop.induct)
  case (1 nul t p sp)
  from 1(2) have m: "moves p (spec_step nul t p sp)" by (rule moves_spec_step)
  show ?case
  proof (cases "spec_step nul t p sp")
    case (Inl e)
    then show ?thesis using m by (subst spec_loop.simps) (auto simp: moves_def ends_def defined_def)
  next
    case (Inr r)
    obtain fin q sp' where r: "r = (fin, q, sp')" by (cases r) auto
    have q: "length q \<le> length p" using m Inr r by simp
    show ?thesis
    proof (cases "fin \<or> q = []")
      case True
      then show ?thesis using Inr r q by (subst spec_loop.simps) auto
    next
      case False
      then have "ends (\<lambda>(q', _). length q' \<le> length q) (spec_loop False t q sp')"
        using 1(1) [OF Inr, of fin "(q, sp')" q sp'] r by simp
      then have "ends (\<lambda>(q', _). length q' \<le> length p) (spec_loop False t q sp')"
        by (rule ends_weaken) (use q in auto)
      then show ?thesis using Inr r False by (subst spec_loop.simps) simp
    qed
  qed
qed

lemma ends_parse_format_specs: "ends (\<lambda>(q, _). length q \<le> length p) (parse_format_specs p ctx t)"
  using ends_spec_loop [of p] by (auto simp: parse_format_specs_def split: list.split)

section \<open>Replacement fields and the string\<close>

text \<open>
  What \<open>parse_format_string\<close> asks of its handler. The callbacks change the handler's state \<open>'h\<close>;
  \<open>on_error\<close> throws, as in \<open>error_handler\<close>.
\<close>

record 'h fmt_handler =
  on_text :: "bytes \<Rightarrow> 'h \<Rightarrow> fmt_failure + 'h"
  on_arg_id :: "arg_id \<Rightarrow> 'h \<Rightarrow> fmt_failure + int \<times> 'h"
  on_replacement_field :: "int \<Rightarrow> bytes \<Rightarrow> 'h \<Rightarrow> fmt_failure + 'h"
  on_format_specs :: "int \<Rightarrow> bytes \<Rightarrow> 'h \<Rightarrow> fmt_failure + bytes \<times> 'h"

definition on_error :: "string \<Rightarrow> fmt_failure + 'a" where
  "on_error message = throw_format_error message"

definition missing_brace :: string where
  "missing_brace = ''missing '' @ [CHR 0x27, CHR ''}'', CHR 0x27] @ '' in format string''"

definition unmatched_brace :: string where
  "unmatched_brace = ''unmatched '' @ [CHR 0x27, CHR ''}'', CHR 0x27] @ '' in format string''"

definition parse_replacement_field :: "'h fmt_handler \<Rightarrow> bytes \<Rightarrow> 'h \<Rightarrow> fmt_failure + bytes \<times> 'h" where
  "parse_replacement_field H begin h =
     (case tl begin of
        [] \<Rightarrow> on_error ''invalid format string''
      | c # rest \<Rightarrow>
          if c = CHR ''}'' then
            bindE (on_arg_id H Auto h) (\<lambda>(i, h).
            bindE (on_replacement_field H i (c # rest) h) (\<lambda>h. Inr (rest, h)))
          else if c = CHR ''{'' then bindE (on_text H [c] h) (\<lambda>h. Inr (rest, h))
          else
            bindE (parse_arg_id (c # rest)) (\<lambda>(begin, i).
            bindE (on_arg_id H i h) (\<lambda>(arg_id, h).
            case begin of
              [] \<Rightarrow> on_error missing_brace
            | c # rest \<Rightarrow>
                if c = CHR ''}'' then bindE (on_replacement_field H arg_id begin h) (\<lambda>h. Inr (rest, h))
                else if c = CHR '':'' then
                  bindE (on_format_specs H arg_id rest h) (\<lambda>(begin, h).
                  case begin of
                    [] \<Rightarrow> on_error ''unknown format specifier''
                  | c # rest \<Rightarrow> if c \<noteq> CHR ''}'' then on_error ''unknown format specifier'' else Inr (rest, h))
                else on_error missing_brace)))"

text \<open>The text between two positions.\<close>

definition text_between :: "bytes \<Rightarrow> bytes \<Rightarrow> bytes" where
  "text_between from to = take (length from - length to) from"

text \<open>
  The simple loop for strings shorter than 32 bytes. That it ends depends on the handler, so
  \<open>None\<close> would be no return.
\<close>

partial_function (option) simple_loop ::
  "'h fmt_handler \<Rightarrow> bytes \<Rightarrow> bytes \<Rightarrow> 'h \<Rightarrow> (fmt_failure + 'h) option" where
  "simple_loop H begin p h =
     (case p of
        [] \<Rightarrow> Some (on_text H begin h)
      | c # q \<Rightarrow>
          if c = CHR ''{'' then
            (case bindE (on_text H (text_between begin p) h) (parse_replacement_field H p) of
               Inl e \<Rightarrow> Some (Inl e)
             | Inr (begin, h) \<Rightarrow> simple_loop H begin begin h)
          else if c = CHR ''}'' then
            (if q = [] \<or> hd q \<noteq> CHR ''}'' then Some (on_error unmatched_brace)
             else
               case on_text H (text_between begin q) h of
                 Inl e \<Rightarrow> Some (Inl e)
               | Inr h \<Rightarrow> simple_loop H (tl q) (tl q) h)
          else simple_loop H begin q h)"

text \<open>The \<open>writer\<close>: text with doubled closing braces, found by \<open>memchr\<close>.\<close>

function writer_loop :: "'h fmt_handler \<Rightarrow> bytes \<Rightarrow> 'h \<Rightarrow> fmt_failure + 'h" where
  "writer_loop H from h =
     (let p = dropWhile (\<lambda>c. c \<noteq> CHR ''}'') from in
      if p = [] then on_text H from h
      else if tl p = [] \<or> hd (tl p) \<noteq> CHR ''}'' then on_error unmatched_brace
      else bindE (on_text H (text_between from (tl p)) h) (\<lambda>h. writer_loop H (tl (tl p)) h))"
  by pat_completeness auto
termination
proof (relation "measure (\<lambda>(H, from, h). length from)")
  fix H :: "'h fmt_handler" and s p :: bytes and h h' :: 'h
  assume "p = dropWhile (\<lambda>c. c \<noteq> CHR ''}'') s" "p \<noteq> []"
  then have "p \<noteq> [] \<and> length p \<le> length s" using length_dropWhile_le by blast
  then show "((H, tl (tl p), h'), H, s, h) \<in> measure (\<lambda>(H, from, h). length from)"
    by (cases p) (auto simp: le_imp_less_Suc)
qed simp

declare writer_loop.simps [simp del]

definition writer :: "'h fmt_handler \<Rightarrow> bytes \<Rightarrow> 'h \<Rightarrow> fmt_failure + 'h" where
  "writer H from h = (if from = [] then Inr h else writer_loop H from h)"

text \<open>The two passes for longer strings.\<close>

partial_function (option) memchr_loop :: "'h fmt_handler \<Rightarrow> bytes \<Rightarrow> 'h \<Rightarrow> (fmt_failure + 'h) option" where
  "memchr_loop H begin h =
     (if begin = [] then Some (Inr h)
      else
        let p = (if hd begin = CHR ''{'' then begin else dropWhile (\<lambda>c. c \<noteq> CHR ''{'') (tl begin)) in
        if p = [] then Some (writer H begin h)
        else
          case bindE (writer H (text_between begin p) h) (parse_replacement_field H p) of
            Inl e \<Rightarrow> Some (Inl e)
          | Inr (begin, h) \<Rightarrow> memchr_loop H begin h)"

definition parse_format_string :: "'h fmt_handler \<Rightarrow> bytes \<Rightarrow> 'h \<Rightarrow> (fmt_failure + 'h) option" where
  "parse_format_string H format_str h =
     (if length format_str < 32 then simple_loop H format_str format_str h else memchr_loop H format_str h)"


section \<open>The contract of a handler\<close>

text \<open>
  The reference both loops are measured by: one character at a time. It is what the loops do for
  handlers for which text is text: handing over two pieces is handing over their concatenation.
\<close>

partial_function (option) scan :: "'h fmt_handler \<Rightarrow> bytes \<Rightarrow> 'h \<Rightarrow> (fmt_failure + 'h) option" where
  "scan H p h =
     (case p of
        [] \<Rightarrow> Some (Inr h)
      | c # q \<Rightarrow>
          if c = CHR ''{'' then
            (case parse_replacement_field H p h of Inl e \<Rightarrow> Some (Inl e) | Inr (begin, h) \<Rightarrow> scan H begin h)
          else if c = CHR ''}'' \<and> (q = [] \<or> hd q \<noteq> CHR ''}'') then Some (on_error unmatched_brace)
          else
            case on_text H [c] h of
              Inl e \<Rightarrow> Some (Inl e)
            | Inr h \<Rightarrow> scan H (if c = CHR ''}'' then tl q else q) h)"

locale text_handler =
  fixes H :: "'h fmt_handler" and put :: "bytes \<Rightarrow> 'h \<Rightarrow> 'h"
  assumes on_text_put: "on_text H t h = Inr (put t h)"
    and put_append: "put (a @ b) h = put b (put a h)"
    and put_Nil: "put [] h = h"
    and arg_id_defined: "defined (on_arg_id H i h)"
    and field_defined: "defined (on_replacement_field H k p h)"
    and specs_ends: "ends (\<lambda>(q, _). length q \<le> length p) (on_format_specs H k p h)"
begin

lemma ends_field: "ends (\<lambda>(q, _). length q < length (c # p)) (parse_replacement_field H (c # p) h)"
proof (cases p)
  case (Cons d rest)
  have auto_field: "ends (\<lambda>(q, _). length q < length (c # p))
      (bindE (on_arg_id H Auto h) (\<lambda>(i, h). bindE (on_replacement_field H i (d # rest) h) (\<lambda>h. Inr (rest, h))))"
    by (auto intro!: ends_bindE [OF ends_defined] arg_id_defined field_defined simp: Cons)
  let ?tail = "\<lambda>(begin, i). bindE (on_arg_id H i h) (\<lambda>(arg_id, h).
      case begin of
        [] \<Rightarrow> on_error missing_brace
      | c # rest \<Rightarrow>
          if c = CHR ''}'' then bindE (on_replacement_field H arg_id begin h) (\<lambda>h. Inr (rest, h))
          else if c = CHR '':'' then
            bindE (on_format_specs H arg_id rest h) (\<lambda>(begin, h).
            case begin of
              [] \<Rightarrow> on_error ''unknown format specifier''
            | c # rest \<Rightarrow> if c \<noteq> CHR ''}'' then on_error ''unknown format specifier'' else Inr (rest, h))
          else on_error missing_brace)"
  have "ends (\<lambda>(q, _). length q < length (c # p)) (?tail (at, i))" if "length at \<le> length p" for at i
  proof (cases at)
    case Nil
    then show ?thesis by (auto intro!: ends_bindE [OF ends_defined] arg_id_defined simp: on_error_def)
  next
    case b: (Cons e more)
    have specs: "ends (\<lambda>(q, _). length q < length (c # p)) (bindE (on_format_specs H k more h') (\<lambda>(begin, h).
            case begin of
              [] \<Rightarrow> on_error ''unknown format specifier''
            | c # rest \<Rightarrow> if c \<noteq> CHR ''}'' then on_error ''unknown format specifier'' else Inr (rest, h)))" for k h'
      by (rule ends_bindE [OF specs_ends]) (use that b in \<open>auto simp: on_error_def split: list.split\<close>)
    have field: "ends (\<lambda>(q, _). length q < length (c # p)) (bindE (on_replacement_field H k (e # more) h') (\<lambda>h. Inr (more, h)))" for k h'
      by (rule ends_bindE [OF ends_defined [OF field_defined]]) (use that b in auto)
    show ?thesis unfolding b prod.case list.case
      by (rule ends_bindE [OF ends_defined [OF arg_id_defined]])
        (simp only: prod.case_eq_if, intro ends_if specs field, simp add: on_error_def)
  qed
  then have "ends (\<lambda>(q, _). length q < length (c # p)) (bindE (parse_arg_id (d # rest)) ?tail)"
    using parse_arg_id_shorter [of "d # rest"] defined_parse_arg_id [of "d # rest"] Cons
    by (intro ends_bindE [of "\<lambda>(q, _). length q \<le> length p"]) (auto simp: ends_def)
  then show ?thesis
    unfolding parse_replacement_field_def using auto_field Cons by (auto simp: on_text_put)
qed (simp add: parse_replacement_field_def on_error_def)

lemma field_shorter: "parse_replacement_field H (c # p) h = Inr (q, h') \<Longrightarrow> length q < length (c # p)"
  using ends_field [of c p h] by (simp add: ends_def)

lemma simple_loop_scan: "simple_loop H (pre @ p) p h = scan H p (put pre h)"
proof (induction p arbitrary: pre h rule: length_induct)
  case (1 p)
  show ?case
  proof (cases p)
    case Nil
    then show ?thesis by (simp add: simple_loop.simps [of H pre] scan.simps [of H "[]"] on_text_put)
  next
    case (Cons c q)
    have between: "text_between (pre @ p) p = pre" "text_between (pre @ p) q = pre @ [c]"
      by (simp_all add: text_between_def Cons)
    consider (field) "c = CHR ''{''" | (brace) "c = CHR ''}''" | (plain) "c \<noteq> CHR ''{''" "c \<noteq> CHR ''}''" by blast
    then show ?thesis
    proof cases
      case field
      show ?thesis
      proof (cases "parse_replacement_field H p (put pre h)")
        case (Inl e)
        then show ?thesis
          using field Cons between by (subst simple_loop.simps, subst scan.simps) (simp add: on_text_put)
      next
        case (Inr r)
        obtain b h' where r: "r = (b, h')" by fastforce
        then have "length b < length p" using Inr Cons field_shorter by blast
        then have "simple_loop H b b h' = scan H b h'" using 1 [rule_format, of b "[]" h'] by (simp add: put_Nil)
        then show ?thesis
          using field Cons between Inr r by (subst simple_loop.simps, subst scan.simps) (simp add: on_text_put)
      qed
    next
      case brace
      have "simple_loop H (tl q) (tl q) h' = scan H (tl q) h'" for h'
        using 1 [rule_format, of "tl q" "[]" h'] Cons by (simp add: put_Nil)
      then show ?thesis
        using brace Cons between
        by (subst simple_loop.simps, subst scan.simps) (simp add: on_text_put put_append)
    next
      case plain
      have "simple_loop H ((pre @ [c]) @ q) q h = scan H q (put (pre @ [c]) h)"
        using 1 [rule_format, of q "pre @ [c]" h] Cons by simp
      then show ?thesis
        using plain Cons by (subst simple_loop.simps, subst scan.simps) (simp add: on_text_put put_append)
    qed
  qed
qed

end


context text_handler
begin

lemma scan_text:
  "CHR ''{'' \<notin> set s \<Longrightarrow> CHR ''}'' \<notin> set s \<Longrightarrow> scan H (s @ r) h = scan H r (put s h)"
proof (induction s arbitrary: h)
  case (Cons c s)
  have "c \<noteq> CHR ''{''" "c \<noteq> CHR ''}''" using Cons.prems by auto
  then have "scan H ((c # s) @ r) h = scan H (s @ r) (put [c] h)"
    by (subst scan.simps) (simp add: on_text_put)
  then show ?case using Cons put_append [of "[c]" s h] by simp
qed (simp add: put_Nil)

lemma writer_loop_eq: "writer H s h = writer_loop H s h"
  by (simp add: writer_def writer_loop.simps [of H "[]"] on_text_put put_Nil)

lemma scan_writer:
  assumes "CHR ''{'' \<notin> set s" "r = [] \<or> hd r = CHR ''{''"
  shows "scan H (s @ r) h = (case writer H s h of Inl e \<Rightarrow> Some (Inl e) | Inr h' \<Rightarrow> scan H r h')"
  unfolding writer_loop_eq using assms(1)
proof (induction s arbitrary: h rule: length_induct)
  case (1 s)
  define pre p where "pre = takeWhile (\<lambda>c. c \<noteq> CHR ''}'') s" and "p = dropWhile (\<lambda>c. c \<noteq> CHR ''}'') s"
  have s: "s = pre @ p" by (simp add: pre_def p_def)
  have wl: "writer_loop H s h = (if p = [] then on_text H s h
      else if tl p = [] \<or> hd (tl p) \<noteq> CHR ''}'' then on_error unmatched_brace
      else bindE (on_text H (text_between s (tl p)) h) (\<lambda>h. writer_loop H (tl (tl p)) h))"
    by (subst writer_loop.simps) (simp only: p_def Let_def)
  have pre: "CHR ''}'' \<notin> set pre" "CHR ''{'' \<notin> set pre"
    using 1(2) by (auto simp: pre_def dest: set_takeWhileD)
  show ?case
  proof (cases p)
    case Nil
    then show ?thesis
      using s scan_text [OF pre(2,1), of r h] wl by (simp add: on_text_put)
  next
    case (Cons c q)
    have c: "c = CHR ''}''" using Cons hd_dropWhile [of "\<lambda>c. c \<noteq> CHR ''}''" s] by (simp add: p_def)
    have start: "scan H (s @ r) h = scan H (CHR ''}'' # q @ r) (put pre h)"
      using s Cons c scan_text [OF pre(2,1)] by simp
    show ?thesis
    proof (cases "q = [] \<or> hd q \<noteq> CHR ''}''")
      case True
      then have "q @ r = [] \<or> hd (q @ r) \<noteq> CHR ''}''" using assms(2) by (cases q) auto
      then have "scan H (CHR ''}'' # q @ r) (put pre h) = Some (on_error unmatched_brace)"
        by (subst scan.simps) simp
      then show ?thesis
        using True Cons c start by (simp add: wl on_error_def throw_format_error_def)
    next
      case False
      then obtain q' where q: "q = CHR ''}'' # q'" by (cases q) auto
      have short: "length q' < length s" "CHR ''{'' \<notin> set q'" using s Cons q 1(2) by auto
      have between: "text_between s q = pre @ ''}''" using s Cons c by (simp add: text_between_def)
      have "scan H (s @ r) h = scan H (q' @ r) (put (pre @ ''}'') h)"
        using start q by (simp add: scan.simps [of H "CHR ''}'' # CHR ''}'' # q' @ r"] on_text_put put_append)
      also have "\<dots> = (case writer_loop H q' (put (pre @ ''}'') h) of Inl e \<Rightarrow> Some (Inl e) | Inr h' \<Rightarrow> scan H r h')"
        using 1 short by blast
      finally show ?thesis
        using Cons c q between by (simp add: wl on_text_put)
    qed
  qed
qed

lemma memchr_loop_scan: "memchr_loop H p h = scan H p h"
proof (induction p arbitrary: h rule: length_induct)
  case (1 p)
  show ?case
  proof (cases "p = []")
    case True
    then show ?thesis by (simp add: memchr_loop.simps [of H "[]"] scan.simps [of H "[]"])
  next
    case False
    define q where "q = (if hd p = CHR ''{'' then p else dropWhile (\<lambda>c. c \<noteq> CHR ''{'') (tl p))"
    define s where "s = (if hd p = CHR ''{'' then [] else hd p # takeWhile (\<lambda>c. c \<noteq> CHR ''{'') (tl p))"
    have p: "p = s @ q" using False by (cases p) (auto simp: s_def q_def)
    have s: "CHR ''{'' \<notin> set s" by (auto simp: s_def dest: set_takeWhileD)
    have q: "q = [] \<or> hd q = CHR ''{''"
      using hd_dropWhile [of "\<lambda>c. c \<noteq> CHR ''{''" "tl p"] by (auto simp: q_def)
    have between: "text_between p q = s" by (simp add: text_between_def p)
    have whole: "scan H p h = (case writer H s h of Inl e \<Rightarrow> Some (Inl e) | Inr h' \<Rightarrow> scan H q h')"
      using scan_writer [OF s q] p by simp
    have loop: "memchr_loop H p h = (if q = [] then Some (writer H p h)
        else case bindE (writer H s h) (parse_replacement_field H q) of
            Inl e \<Rightarrow> Some (Inl e) | Inr (b, h) \<Rightarrow> memchr_loop H b h)"
      using False by (subst memchr_loop.simps) (simp add: q_def [symmetric] between Let_def)
    show ?thesis
    proof (cases q)
      case Nil
      then show ?thesis using whole loop p by (simp add: scan.simps [of H "[]"] split: sum.split)
    next
      case (Cons c q')
      have c: "c = CHR ''{''" using q Cons by simp
      show ?thesis
      proof (cases "writer H s h")
        case (Inl e)
        then show ?thesis using whole loop Cons by simp
      next
        case w: (Inr h1)
        show ?thesis
        proof (cases "parse_replacement_field H q h1")
          case (Inl e)
          then show ?thesis using whole loop Cons c w by (simp add: scan.simps [of H "CHR ''{'' # q'"])
        next
          case (Inr r)
          obtain b h2 where r: "r = (b, h2)" by fastforce
          have "length b < length q" using Inr r Cons field_shorter by blast
          then have "length b < length p" using p by simp
          then have "memchr_loop H b h2 = scan H b h2" using 1 by blast
          then show ?thesis using whole loop Cons c w Inr r by (simp add: scan.simps [of H "CHR ''{'' # q'"])
        qed
      qed
    qed
  qed
qed

lemma loops_agree: "simple_loop H p p h = memchr_loop H p h"
  using simple_loop_scan [of "[]" p h] by (simp add: memchr_loop_scan put_Nil)

lemma parse_format_string_scan: "parse_format_string H p h = scan H p h"
  using simple_loop_scan [of "[]" p h] by (simp add: parse_format_string_def memchr_loop_scan put_Nil)

lemma scan_returns: "\<exists>r. scan H p h = Some r \<and> defined r"
proof (induction p arbitrary: h rule: length_induct)
  case (1 p)
  show ?case
  proof (cases p)
    case Nil
    then show ?thesis by (simp add: scan.simps [of H "[]"])
  next
    case (Cons c q)
    show ?thesis
    proof (cases "c = CHR ''{''")
      case True
      show ?thesis
      proof (cases "parse_replacement_field H p h")
        case (Inl e)
        then have "defined (Inl e :: fmt_failure + bytes)"
          using ends_field [of c q h] Cons by (auto simp: ends_def defined_def split: fmt_failure.splits)
        then have "defined (Inl e :: fmt_failure + 'a)" by (auto simp: defined_def split: fmt_failure.splits)
        then show ?thesis using Inl True Cons by (subst scan.simps) simp
      next
        case (Inr r)
        obtain b h' where r: "r = (b, h')" by fastforce
        have "length b < length p" using Inr r Cons field_shorter by blast
        then have "\<exists>r. scan H b h' = Some r \<and> defined r" using 1 by blast
        then show ?thesis using Inr r True Cons by (subst scan.simps) simp
      qed
    next
      case False
      have "\<exists>r. scan H x h' = Some r \<and> defined r" if "length x \<le> length q" for x h' using 1 that Cons by simp
      from this [of "if c = CHR ''}'' then tl q else q" "put [c] h"] have
        "\<exists>r. scan H (if c = CHR ''}'' then tl q else q) (put [c] h) = Some r \<and> defined r" by simp
      then show ?thesis using False Cons by (subst scan.simps) (auto simp: on_text_put on_error_def)
    qed
  qed
qed

end


section \<open>Numbers are read exactly\<close>

definition decimal_digit :: "char \<Rightarrow> nat" where
  "decimal_digit c = of_char c - 48"

definition decimal_value :: "nat \<Rightarrow> bytes \<Rightarrow> nat" where
  "decimal_value = foldl (\<lambda>v c. v * 10 + decimal_digit c)"

lemma decimal_value_simps [simp]:
  "decimal_value v [] = v"
  "decimal_value v (c # cs) = decimal_value (v * 10 + decimal_digit c) cs"
  "decimal_value v (cs @ [c]) = decimal_value v cs * 10 + decimal_digit c"
  by (simp_all add: decimal_value_def)

lemma decimal_digit_less: "is_digit c \<Longrightarrow> decimal_digit c < 10"
  unfolding is_digit_def decimal_digit_def by linarith

lemma decimal_value_less:
  assumes "list_all is_digit ds"
  shows "decimal_value v ds < (v + 1) * 10 ^ length ds"
  using assms
proof (induction ds arbitrary: v)
  case (Cons c ds)
  then have "v * 10 + decimal_digit c + 1 \<le> (v + 1) * 10" using decimal_digit_less [of c] by simp
  then have le: "(v * 10 + decimal_digit c + 1) * 10 ^ length ds \<le> (v + 1) * 10 * 10 ^ length ds"
    by (rule mult_right_mono) simp
  have "decimal_value v (c # ds) < (v * 10 + decimal_digit c + 1) * 10 ^ length ds"
    using Cons.IH [of "v * 10 + decimal_digit c"] Cons.prems by simp
  also note le
  also have "(v + 1) * 10 * 10 ^ length ds = (v + 1) * 10 ^ length (c # ds)" by (simp add: algebra_simps)
  finally show ?case .
qed simp

lemma parse_digits_reads:
  assumes "list_all is_digit ds" "rest = [] \<or> \<not> is_digit (hd rest)"
  shows "parse_digits (ds @ rest) (of_nat v) prev n d
    = (rest, of_nat (decimal_value v ds), if ds = [] then prev else of_nat (decimal_value v (butlast ds)),
       n + length ds, last (d # ds))"
  using assms(1)
proof (induction ds arbitrary: v prev n d)
  case Nil
  then show ?case using assms(2) by (cases rest) auto
next
  case (Cons c ds)
  have "(of_nat v :: u32) * 10 + of_nat (of_char c - 48) = of_nat (v * 10 + decimal_digit c)"
    by (simp add: decimal_digit_def)
  then show ?case
    using Cons.IH [of "v * 10 + decimal_digit c" "of_nat v" "n + 1" c] Cons.prems by simp
qed

lemma unat_of_nat_u32: "n < 2 ^ 32 \<Longrightarrow> unat (of_nat n :: u32) = n"
  by (simp add: unat_of_nat)

lemma sint_of_nat_u32: "n < 2 ^ 31 \<Longrightarrow> sint (of_nat n :: u32) = int n"
  by (simp add: signed_of_nat signed_take_bit_int_eq_self)

lemma parse_nonnegative_int_reads:
  assumes digits: "list_all is_digit ds" "ds \<noteq> []" and rest: "rest = [] \<or> \<not> is_digit (hd rest)"
  shows "parse_nonnegative_int (ds @ rest) error_value
    = Inr (rest, if length ds \<le> 10 \<and> int (decimal_value 0 ds) \<le> int_max then int (decimal_value 0 ds) else error_value)"
proof -
  obtain ls l where ls: "ds = ls @ [l]" using digits(2) by (cases ds rule: rev_cases) auto
  obtain c cs where c: "ds = c # cs" using digits(2) by (cases ds) auto
  have prev: "(if cs = [] then 0 else of_nat (decimal_value (decimal_digit c) (butlast cs)) :: u32)
      = of_nat (decimal_value 0 ls)"
    using ls c by (cases ls) auto
  have "parse_digits (cs @ rest) (of_nat (decimal_digit c)) 0 1 c
      = (rest, of_nat (decimal_value 0 ds), of_nat (decimal_value 0 ls), length ds, l)"
  proof -
    have "list_all is_digit cs" using digits(1) unfolding c by simp
    moreover have "length ds = 1 + length cs" "decimal_value (decimal_digit c) cs = decimal_value 0 ds"
      unfolding c by simp_all
    moreover have "last (c # cs) = l" unfolding c [symmetric] ls by simp
    ultimately show ?thesis using parse_digits_reads [of cs rest "decimal_digit c" 0 1 c] rest prev by simp
  qed
  then have read: "parse_nonnegative_int (ds @ rest) error_value = Inr (rest,
      if length ds \<le> 9 then sint (of_nat (decimal_value 0 ds) :: u32)
      else if length ds = 10 \<and> unat (of_nat (decimal_value 0 ls) :: u32) * 10 + decimal_digit l \<le> nat int_max
        then sint (of_nat (decimal_value 0 ds) :: u32)
      else error_value)"
    by (simp add: parse_nonnegative_int_def c char_at_def decimal_digit_def)
  have all: "decimal_value 0 ds = decimal_value 0 ls * 10 + decimal_digit l" by (simp add: ls)
  have less: "decimal_value 0 ds < 10 ^ length ds" "decimal_value 0 ls < 10 ^ length ls"
    using decimal_value_less [of ds 0] decimal_value_less [of ls 0] digits(1) ls by simp_all
  show ?thesis
  proof (cases "length ds \<le> 9")
    case True
    then have "decimal_value 0 ds < 10 ^ 9"
      using less(1) power_increasing [of "length ds" 9 "10 :: nat"] by linarith
    then show ?thesis using True by (simp add: read sint_of_nat_u32 int_max_def)
  next
    case False
    show ?thesis
    proof (cases "length ds = 10")
      case True
      then have "decimal_value 0 ls < 10 ^ 9" using less(2) ls by simp
      then have "unat (of_nat (decimal_value 0 ls) :: u32) = decimal_value 0 ls" by (intro unat_of_nat_u32) simp
      moreover have "sint (of_nat (decimal_value 0 ds) :: u32) = int (decimal_value 0 ds)" if "decimal_value 0 ds \<le> nat int_max"
        using that by (intro sint_of_nat_u32) (simp add: int_max_def)
      ultimately show ?thesis using True False by (auto simp: read all [symmetric] int_max_def)
    next
      case other: False
      then show ?thesis using False by (simp add: read)
    qed
  qed
qed

text \<open>
  C34: Numbers in format strings are read exactly, in 32 bits. From a run of digits the parser reads
  its value when it is an \<open>int\<close> and has at most ten digits, and reports the caller's error value
  otherwise: the wrap-around of the accumulator is never seen, but leading zeros count as digits.
\<close>

theorem parse_nonnegative_int_exact:
  assumes "list_all is_digit ds" "ds \<noteq> []" "rest = [] \<or> \<not> is_digit (hd rest)"
  shows "parse_nonnegative_int (ds @ rest) error_value
    = Inr (rest, if length ds \<le> 10 \<and> int (decimal_value 0 ds) \<le> int_max then int (decimal_value 0 ds) else error_value)"
  using assms by (rule parse_nonnegative_int_reads)

theorem parse_nonnegative_int_exact_witness:
  "parse_nonnegative_int (''2147483648'' @ ''}'') (-1) = Inr (''}'', -1)
   \<and> parse_nonnegative_int (''00000000005'' @ ''}'') (-1) = Inr (''}'', -1)"
  using parse_nonnegative_int_exact [of "''2147483648''" "''}''" "-1"]
    parse_nonnegative_int_exact [of "''00000000005''" "''}''" "-1"]
  by (simp add: is_digit_def decimal_digit_def int_max_def)

end
