(* ===== verification/Fmt_Format.thy ===== *)
theory Fmt_Format
  imports Fmt_Parse
begin

text \<open>
  \<open>detail::vformat_to\<close> (\<open>fmt/bundled/format.h\<close>): the handler that writes the text of a format
  string and its arguments into a buffer, and the shortcut for the format \<open>{}\<close>. This is what
  turns the arguments of a log call into the message's text.
\<close>

section \<open>Arguments\<close>

text \<open>
  \<open>basic_format_args\<close>: the arguments by number, and the numbers of the named ones. A number past
  the end gives the argument that is not there.
\<close>

record format_args =
  fa_args :: "fmt_arg list"
  fa_named :: "(bytes \<times> nat) list"

definition args_get :: "format_args \<Rightarrow> int \<Rightarrow> fmt_arg" where
  "args_get args i = (if 0 \<le> i \<and> nat i < length (fa_args args) then fa_args args ! nat i else Arg_none)"

definition args_get_id :: "format_args \<Rightarrow> bytes \<Rightarrow> int" where
  "args_get_id args name = (case map_of (fa_named args) name of None \<Rightarrow> -1 | Some i \<Rightarrow> int i)"

definition args_get_named :: "format_args \<Rightarrow> bytes \<Rightarrow> fmt_arg" where
  "args_get_named args name = (let i = args_get_id args name in if i \<ge> 0 then args_get args i else Arg_none)"

fun arg_type :: "fmt_arg \<Rightarrow> fmt_type" where
  "arg_type Arg_none = None_type"
| "arg_type (Arg_integer (Int_arg _)) = Int_type"
| "arg_type (Arg_integer (Uint_arg _)) = Uint_type"
| "arg_type (Arg_integer (Long_long_arg _)) = Long_long_type"
| "arg_type (Arg_integer (Ulong_long_arg _)) = Ulong_long_type"
| "arg_type (Arg_bool _) = Bool_type"
| "arg_type (Arg_char _) = Char_type"
| "arg_type (Arg_cstring _ _) = Cstring_type"
| "arg_type (Arg_string _) = String_type"
| "arg_type (Arg_pointer _) = Pointer_type"

text \<open>\<open>get_arg\<close> throws for an argument that is not there.\<close>

definition get_arg :: "fmt_arg \<Rightarrow> fmt_failure + fmt_arg" where
  "get_arg arg = (if arg = Arg_none then throw_format_error ''argument not found'' else Inr arg)"

section \<open>Dynamic width and precision\<close>

text \<open>\<open>width_checker\<close> and \<open>precision_checker\<close>; \<open>what\<close> is the word of their messages.\<close>

definition spec_checker :: "string \<Rightarrow> fmt_arg \<Rightarrow> fmt_failure + nat" where
  "spec_checker what arg =
     (case arg of
        Arg_integer v \<Rightarrow>
          if is_negative v then throw_format_error (''negative '' @ what) else Inr (uint_val (as_unsigned v))
      | _ \<Rightarrow> throw_format_error (what @ '' is not integer''))"

definition get_dynamic_spec :: "string \<Rightarrow> fmt_arg \<Rightarrow> fmt_failure + int" where
  "get_dynamic_spec what arg =
     bindE (spec_checker what arg) (\<lambda>v.
       if int v > int_max then throw_format_error ''number is too big'' else Inr (int v))"

fun handle_dynamic_spec :: "string \<Rightarrow> format_args \<Rightarrow> int \<Rightarrow> arg_ref \<Rightarrow> fmt_failure + int" where
  "handle_dynamic_spec what args v Ref_none = Inr v"
| "handle_dynamic_spec what args v (Ref_index i) = bindE (get_arg (args_get args i)) (get_dynamic_spec what)"
| "handle_dynamic_spec what args v (Ref_name n) = bindE (get_arg (args_get_named args n)) (get_dynamic_spec what)"

section \<open>The handler\<close>

text \<open>The parse context's counter and the text written so far.\<close>

record format_state =
  fs_ctx :: int
  fs_out :: bytes

definition fs_append :: "bytes \<Rightarrow> format_state \<Rightarrow> format_state" where
  "fs_append t s = s\<lparr>fs_out := fs_out s @ t\<rparr>"

definition format_on_arg_id :: "format_args \<Rightarrow> arg_id \<Rightarrow> format_state \<Rightarrow> fmt_failure + int \<times> format_state" where
  "format_on_arg_id args i s =
     (case i of
        Auto \<Rightarrow> bindE (ctx_next_arg_id (fs_ctx s)) (\<lambda>(ctx, i). Inr (i, s\<lparr>fs_ctx := ctx\<rparr>))
      | Index i \<Rightarrow> bindE (ctx_check_arg_id (fs_ctx s)) (\<lambda>ctx. Inr (i, s\<lparr>fs_ctx := ctx\<rparr>))
      | Name n \<Rightarrow>
          if args_get_id args n < 0 then throw_format_error ''argument not found'' else Inr (args_get_id args n, s))"

definition format_on_replacement_field :: "format_args \<Rightarrow> int \<Rightarrow> format_state \<Rightarrow> fmt_failure + format_state" where
  "format_on_replacement_field args i s =
     bindE (get_arg (args_get args i)) (\<lambda>arg.
     bindE (default_arg_formatter arg) (\<lambda>t. Inr (fs_append t s)))"

definition format_on_format_specs ::
  "write_loc \<Rightarrow> format_args \<Rightarrow> int \<Rightarrow> bytes \<Rightarrow> format_state \<Rightarrow> fmt_failure + bytes \<times> format_state" where
  "format_on_format_specs loc args i begin s =
     bindE (get_arg (args_get args i)) (\<lambda>arg.
     bindE (parse_format_specs begin (fs_ctx s) (arg_type arg)) (\<lambda>(begin, sp).
     let specs = sp_specs sp; s = s\<lparr>fs_ctx := sp_ctx sp\<rparr> in
     bindE (handle_dynamic_spec ''width'' args (int (spec_width specs)) (sp_width_ref sp)) (\<lambda>width.
     bindE (handle_dynamic_spec ''precision'' args (spec_precision specs) (sp_precision_ref sp)) (\<lambda>precision.
     let specs = specs\<lparr>spec_width := nat width, spec_precision := precision\<rparr> in
     if begin = [] \<or> hd begin \<noteq> CHR ''}'' then throw_format_error missing_brace
     else bindE (arg_formatter loc specs arg) (\<lambda>t. Inr (begin, fs_append t s))))))"

definition format_handler :: "write_loc \<Rightarrow> format_args \<Rightarrow> format_state fmt_handler" where
  "format_handler loc args =
     \<lparr>on_text = (\<lambda>t s. Inr (fs_append t s)),
      on_arg_id = format_on_arg_id args,
      on_replacement_field = (\<lambda>i _. format_on_replacement_field args i),
      on_format_specs = format_on_format_specs loc args\<rparr>"

definition vformat_to :: "write_loc \<Rightarrow> bytes \<Rightarrow> bytes \<Rightarrow> format_args \<Rightarrow> (fmt_failure + bytes) option" where
  "vformat_to loc buf fmt args =
     (if length fmt = 2 \<and> fmt = ''{}'' then
        let arg = args_get args 0 in
        if arg = Arg_none then Some (throw_format_error ''argument not found'')
        else Some (bindE (default_arg_formatter arg) (\<lambda>t. Inr (buf @ t)))
      else
        map_option (map_sum id fs_out)
          (parse_format_string (format_handler loc args) fmt \<lparr>fs_ctx = 0, fs_out = buf\<rparr>))"

section \<open>The handler keeps its contract\<close>

lemma defined_get_arg [simp]: "defined (get_arg a)"
  by (simp add: get_arg_def)

lemma defined_dynamic: "defined (handle_dynamic_spec what args v ref)"
  by (cases ref)
    (auto intro!: defined_bindE simp: get_dynamic_spec_def spec_checker_def split: fmt_arg.split)

interpretation fmt: text_handler "format_handler loc args" fs_append for loc args
proof unfold_locales
  fix t h
  show "on_text (format_handler loc args) t h = Inr (fs_append t h)" by (simp add: format_handler_def)
next
  fix a b h
  show "fs_append (a @ b) h = fs_append b (fs_append a h)" by (simp add: fs_append_def)
next
  fix h
  show "fs_append [] h = h" by (simp add: fs_append_def)
next
  fix i h
  show "defined (on_arg_id (format_handler loc args) i h)"
    by (cases i) (auto intro!: defined_bindE simp: format_handler_def format_on_arg_id_def ctx_next_arg_id_def ctx_check_arg_id_def)
next
  fix k p h
  show "defined (on_replacement_field (format_handler loc args) k p h)"
    by (auto intro!: defined_bindE defined_default_arg_formatter simp: format_handler_def format_on_replacement_field_def)
next
  fix p k h
  show "ends (\<lambda>(q, _). length q \<le> length p) (on_format_specs (format_handler loc args) k p h)"
    unfolding format_handler_def fmt_handler.simps format_on_format_specs_def Let_def
    by (intro ends_bindE [OF ends_defined] ends_bindE [OF ends_parse_format_specs] defined_get_arg)
      (auto intro!: ends_bindE [OF ends_defined] defined_dynamic defined_arg_formatter)
qed

section \<open>Every string, every argument\<close>

text \<open>
  C32: The two ways of reading a format string agree. The one-pass loop for strings below 32 bytes
  and the two passes over \<open>memchr\<close> for longer ones write the same text and fail with the same
  error on every format string, whatever its braces, with every list of arguments.
\<close>

theorem format_loops_agree:
  "simple_loop (format_handler loc args) s s h = memchr_loop (format_handler loc args) s h"
  by (rule fmt.loops_agree)

lemma vformat_to_ends:
  "\<exists>r. vformat_to loc buf fmt args = Some r \<and> defined r"
proof -
  let ?s = "\<lparr>fs_ctx = 0, fs_out = buf\<rparr>"
  obtain r where r: "parse_format_string (format_handler loc args) fmt ?s = Some r" "defined r"
    using fmt.scan_returns [of loc args fmt ?s] by (auto simp: fmt.parse_format_string_scan)
  have "defined (map_sum id fs_out r)" using r(2) by (cases r) (auto simp: defined_def split: fmt_failure.splits)
  moreover have "defined (bindE (default_arg_formatter a) (\<lambda>t. Inr (buf @ t)))" for a
    by (intro defined_bindE defined_default_arg_formatter) simp
  ultimately show ?thesis using r(1) by (auto simp: vformat_to_def Let_def)
qed

text \<open>
  C33: Formatting always returns and stays in bounds. For every format string (unclosed fields,
  numbers too big, broken specifications, bytes that are no characters) and all arguments,
  \<open>vformat_to\<close> ends with a text or a \<open>format_error\<close>; no character is read past the end of the
  string and no digit written outside of a buffer.
\<close>

theorem vformat_to_returns:
  "\<exists>r. vformat_to loc buf fmt args = Some r \<and> defined r"
  by (rule vformat_to_ends)

section \<open>Templates\<close>

text \<open>A format string as its author means it: literal text and fields without specifications.\<close>

datatype segment = Lit bytes | Field

fun double_braces :: "bytes \<Rightarrow> bytes" where
  "double_braces [] = []"
| "double_braces (c # cs) = (if c = CHR ''{'' \<or> c = CHR ''}'' then [c, c] else [c]) @ double_braces cs"

fun render :: "segment list \<Rightarrow> bytes" where
  "render [] = []"
| "render (Lit t # ss) = double_braces t @ render ss"
| "render (Field # ss) = ''{}'' @ render ss"

text \<open>The text a template gives with the texts of its arguments; \<open>None\<close> when one is missing.\<close>

fun filled :: "segment list \<Rightarrow> bytes list \<Rightarrow> bytes option" where
  "filled [] ts = Some []"
| "filled (Lit t # ss) ts = map_option (\<lambda>r. t @ r) (filled ss ts)"
| "filled (Field # ss) [] = None"
| "filled (Field # ss) (t # ts) = map_option (\<lambda>r. t @ r) (filled ss ts)"

text \<open>The text of an argument that is there.\<close>

definition shows_as :: "fmt_arg \<Rightarrow> bytes \<Rightarrow> bool" where
  "shows_as a t \<longleftrightarrow> a \<noteq> Arg_none \<and> default_arg_formatter a = Inr t"

lemma scan_literal:
  "scan (format_handler loc args) (double_braces t @ r) h = scan (format_handler loc args) r (fs_append t h)"
proof (induction t arbitrary: h)
  case (Cons c t)
  let ?H = "format_handler loc args" let ?rest = "double_braces t @ r"
  have app: "fs_append t (fs_append [c] h) = fs_append (c # t) h" by (simp add: fs_append_def)
  have put: "on_text ?H x h = Inr (fs_append x h)" for x by (rule fmt.on_text_put)
  consider (l) "c = CHR ''{''" | (r) "c = CHR ''}''" | (p) "c \<noteq> CHR ''{''" "c \<noteq> CHR ''}''" by blast
  then have "scan ?H (double_braces (c # t) @ r) h = scan ?H ?rest (fs_append [c] h)"
  proof cases
    case l
    have "parse_replacement_field ?H (CHR ''{'' # CHR ''{'' # ?rest) h = Inr (?rest, fs_append ''{'' h)"
      by (simp add: parse_replacement_field_def put)
    then show ?thesis using l by (simp add: scan.simps [of ?H "CHR ''{'' # CHR ''{'' # ?rest"])
  next
    case r
    then show ?thesis by (simp add: scan.simps [of ?H "CHR ''}'' # CHR ''}'' # ?rest"] put)
  next
    case p
    then show ?thesis by (simp add: scan.simps [of ?H "c # ?rest"] put)
  qed
  then show ?case using Cons app by simp
qed (simp add: fs_append_def)

lemma scan_field:
  assumes "0 \<le> fs_ctx h"
  shows "scan (format_handler loc args) (''{}'' @ r) h
    = (case bindE (get_arg (args_get args (fs_ctx h))) default_arg_formatter of
         Inl e \<Rightarrow> Some (Inl e)
       | Inr t \<Rightarrow> scan (format_handler loc args) r (fs_append t (h\<lparr>fs_ctx := fs_ctx h + 1\<rparr>)))"
proof -
  let ?H = "format_handler loc args"
  have "parse_replacement_field ?H (CHR ''{'' # CHR ''}'' # r) h
      = bindE (get_arg (args_get args (fs_ctx h))) (\<lambda>a. bindE (default_arg_formatter a)
          (\<lambda>t. Inr (r, fs_append t (h\<lparr>fs_ctx := fs_ctx h + 1\<rparr>))))"
    using assms by (cases "get_arg (args_get args (fs_ctx h))")
      (auto simp: parse_replacement_field_def format_handler_def format_on_arg_id_def ctx_next_arg_id_def
        format_on_replacement_field_def bindE_def split: sum.split)
  then show ?thesis
    by (subst scan.simps) (auto simp: bindE_def split: sum.split)
qed

lemma scan_template:
  assumes "list_all2 shows_as (fa_args args) ts" "0 \<le> fs_ctx h"
  shows "scan (format_handler loc args) (render ss) h
    = Some (case filled ss (drop (nat (fs_ctx h)) ts) of
        None \<Rightarrow> throw_format_error ''argument not found''
      | Some t \<Rightarrow> Inr (\<lparr>fs_ctx = fs_ctx h + int (length (filter (\<lambda>s. s = Field) ss)), fs_out = fs_out h @ t\<rparr>))"
  using assms(2)
proof (induction ss arbitrary: h)
  case Nil
  then show ?case by (simp add: scan.simps [of _ "[]"])
next
  case (Cons s ss)
  have len: "length (fa_args args) = length ts" using assms(1) by (rule list_all2_lengthD)
  show ?case
  proof (cases s)
    case (Lit t)
    then show ?thesis
      using Cons.IH [of "fs_append t h"] Cons.prems by (auto simp: scan_literal fs_append_def split: option.split)
  next
    case Field
    let ?n = "nat (fs_ctx h)"
    show ?thesis
    proof (cases "?n < length ts")
      case False
      then have "args_get args (fs_ctx h) = Arg_none" "drop ?n ts = []" by (simp_all add: args_get_def len)
      then show ?thesis using Field scan_field [OF Cons.prems, of loc args "render ss"]
        by (simp add: get_arg_def throw_format_error_def)
    next
      case True
      then have sh: "shows_as (fa_args args ! ?n) (ts ! ?n)" using assms(1) len by (simp add: list_all2_conv_all_nth)
      then have a: "args_get args (fs_ctx h) = fa_args args ! ?n" using True Cons.prems by (simp add: args_get_def len)
      have d: "drop ?n ts = ts ! ?n # drop (Suc ?n) ts" using True by (simp add: Cons_nth_drop_Suc)
      have n: "nat (fs_ctx h + 1) = Suc ?n" using Cons.prems by simp
      have "scan (format_handler loc args) (render (Field # ss)) h
          = scan (format_handler loc args) (render ss) (fs_append (ts ! ?n) (h\<lparr>fs_ctx := fs_ctx h + 1\<rparr>))"
        using scan_field [OF Cons.prems, of loc args "render ss"] sh by (simp add: a get_arg_def shows_as_def)
      then show ?thesis
        using Field Cons.IH [of "fs_append (ts ! ?n) (h\<lparr>fs_ctx := fs_ctx h + 1\<rparr>)"] Cons.prems
        by (auto simp: d n fs_append_def split: option.split)
    qed
  qed
qed

text \<open>The shortcut for \<open>{}\<close> gives what the loops would give.\<close>

lemma vformat_to_scan:
  "vformat_to loc buf fmt args
    = map_option (map_sum id fs_out) (scan (format_handler loc args) fmt \<lparr>fs_ctx = 0, fs_out = buf\<rparr>)"
proof (cases "fmt = ''{}''")
  case False
  then show ?thesis by (simp add: vformat_to_def fmt.parse_format_string_scan)
next
  case True
  have nil: "scan (format_handler loc args) [] h = Some (Inr h)" for h
    by (simp add: scan.simps [of _ "[]"])
  show ?thesis
    using scan_field [of "\<lparr>fs_ctx = 0, fs_out = buf\<rparr>" loc args "[]"] True
    by (auto simp: vformat_to_def nil get_arg_def throw_format_error_def fs_append_def bindE_def Let_def split: sum.split)
qed

lemma template_text:
  assumes "list_all2 shows_as (fa_args args) ts"
  shows "vformat_to loc buf (render ss) args
    = Some (case filled ss ts of
        None \<Rightarrow> Inl (Format_Error ''argument not found'') | Some t \<Rightarrow> Inr (buf @ t))"
  using scan_template [OF assms, of "\<lparr>fs_ctx = 0, fs_out = buf\<rparr>" loc ss]
  by (auto simp: vformat_to_scan throw_format_error_def split: option.split)

text \<open>
  C31: A template is filled in. The format string of literal text (its braces doubled) and fields
  without specifications gives the literal text and, in order, the texts of its arguments, and
  throws \<open>argument not found\<close> exactly when the fields outnumber the arguments.
\<close>

theorem template_is_filled:
  assumes "list_all2 shows_as (fa_args args) ts"
  shows "vformat_to loc buf (render ss) args
    = Some (case filled ss ts of
        None \<Rightarrow> Inl (Format_Error ''argument not found'') | Some t \<Rightarrow> Inr (buf @ t))"
  using assms by (rule template_text)

lemma shows_as_simps [simp]:
  "shows_as (Arg_string s) t \<longleftrightarrow> t = s"
  "p \<noteq> 0 \<Longrightarrow> shows_as (Arg_cstring p s) t \<longleftrightarrow> t = s"
  "shows_as (Arg_integer v) t \<longleftrightarrow> t = show_int (int_value v)"
  by (auto simp: shows_as_def write_integer_default_eq)

theorem template_is_filled_witness:
  "vformat_to (\<lambda>_ _. None) ''> '' (render [Lit ''{got} '', Field]) \<lparr>fa_args = [Arg_string ''x''], fa_named = []\<rparr>
    = Some (Inr ''> {got} x'')"
  using template_is_filled [of "\<lparr>fa_args = [Arg_string ''x''], fa_named = []\<rparr>" "[''x'']" "\<lambda>_ _. None" "''> ''"
      "[Lit ''{got} '', Field]"]
  by simp

end
