(* ===== verification/Log_Format.thy ===== *)
theory Log_Format
  imports Fmt_Format Client_Remote
begin

text \<open>
  The templated log call \<open>logger::log_\<close> (\<open>spdlog/logger.h\<close>): the format string and its
  arguments become the message's text, and an exception of the formatter goes to the logger's
  error handler (\<open>logger-inl.h\<close>). The client's log calls are then the texts its model uses.
\<close>

section \<open>The log call\<close>

record call_loc =
  loc_filename :: "string option"
  loc_line :: u32

definition no_loc :: call_loc where
  "no_loc = \<lparr>loc_filename = None, loc_line = 0\<rparr>"

text \<open>
  What \<open>SPDLOG_LOGGER_CATCH\<close> hands to the error handler for the exception text \<open>what\<close>. The
  \<open>what()\<close> pointer is not null.
\<close>

definition catch_text :: "call_loc \<Rightarrow> string \<Rightarrow> (fmt_failure + bytes) option" where
  "catch_text location what =
     (case loc_filename location of
        Some filename \<Rightarrow>
          vformat_to (\<lambda>_ _. None) [] ''{} [{}({})]''
            \<lparr>fa_args = [Arg_cstring 1 what, Arg_cstring 1 filename, Arg_integer (Int_arg (loc_line location))],
             fa_named = []\<rparr>
      | None \<Rightarrow> Some (Inr what))"

text \<open>\<open>None\<close> is a call that does not return a value: endless, undefined, or an exception let out.\<close>

definition logger_log_format ::
  "write_loc \<Rightarrow> (string \<Rightarrow> 's \<Rightarrow> 's) \<Rightarrow> call_loc \<Rightarrow> level \<Rightarrow> bytes \<Rightarrow> format_args \<Rightarrow> 's logger \<Rightarrow> 's
    \<Rightarrow> ('s logger \<times> 's) option" where
  "logger_log_format lcl handler loc lvl fmt args lg s =
     (let log_enabled = should_log lg lvl;
          traceback_enabled = bt_enabled (logger_tracer lg)
      in if \<not> log_enabled \<and> \<not> traceback_enabled then Some (lg, s)
         else
           case vformat_to lcl [] fmt args of
             Some (Inr buf) \<Rightarrow>
               Some (logger_log_it \<lparr>msg_logger_name = logger_name lg, msg_level = lvl, msg_payload = buf\<rparr>
                       log_enabled traceback_enabled lg s)
           | Some (Inl (Format_Error what)) \<Rightarrow>
               (case catch_text loc what of Some (Inr t) \<Rightarrow> Some (lg, handler t s) | _ \<Rightarrow> None)
           | _ \<Rightarrow> None)"

section \<open>The default error handler\<close>

text \<open>
  \<open>err_handler_\<close> without a custom handler: a clock in nanoseconds since the epoch, one report a
  second at most. \<open>strftime\<close> of the local time is the parameter \<open>date\<close>.
\<close>

record err_state =
  last_report_time :: int
  err_counter :: u64
  err_printed :: "(int \<times> string) list"

definition err_state_new :: err_state where
  "err_state_new = \<lparr>last_report_time = 0, err_counter = 0, err_printed = []\<rparr>"

definition err_line :: "(int \<Rightarrow> string) \<Rightarrow> int \<Rightarrow> u64 \<Rightarrow> string \<Rightarrow> string \<Rightarrow> string" where
  "err_line date now counter name msg =
     (let digits = show_nat (unat counter)
      in ''[*** LOG ERROR #'' @ replicate (4 - length digits) (CHR ''0'') @ digits @ '' ***] ['' @ date now @ ''] [''
         @ name @ ''] '' @ msg @ [CHR 0x0A])"

definition err_handler :: "(int \<Rightarrow> string) \<Rightarrow> int \<Rightarrow> string \<Rightarrow> string \<Rightarrow> err_state \<Rightarrow> err_state" where
  "err_handler date now name msg s =
     (let s = s\<lparr>err_counter := err_counter s + 1\<rparr>
      in if now - last_report_time s < 1000000000 then s
         else s\<lparr>last_report_time := now, err_printed := err_printed s @ [(now, err_line date now (err_counter s) name msg)]\<rparr>)"

definition report_errors :: "(int \<Rightarrow> string) \<Rightarrow> string \<Rightarrow> (int \<times> string) list \<Rightarrow> err_state \<Rightarrow> err_state" where
  "report_errors date name errs s = fold (\<lambda>(now, msg). err_handler date now name msg) errs s"

text \<open>The times of the printed reports, the last one remembered.\<close>

definition err_inv :: "err_state \<Rightarrow> bool" where
  "err_inv s \<longleftrightarrow> sorted_wrt (\<lambda>a b. b - a \<ge> 1000000000) (0 # map fst (err_printed s))
     \<and> last_report_time s = last (0 # map fst (err_printed s))"

lemma spaced_snoc:
  assumes "sorted_wrt (\<lambda>a b :: int. b - a \<ge> d) (x # xs)" "t - last (x # xs) \<ge> d" "d \<ge> 0"
  shows "sorted_wrt (\<lambda>a b. b - a \<ge> d) (x # xs @ [t])"
proof -
  obtain ys l where l: "x # xs = ys @ [l]" by (cases "x # xs" rule: rev_cases) auto
  then have "\<forall>y\<in>set (x # xs). t - y \<ge> d"
    using assms by (fastforce simp: l sorted_wrt_append)
  then show ?thesis using assms(1) by (simp add: sorted_wrt_append)
qed

lemma err_inv_step: "err_inv s \<Longrightarrow> err_inv (err_handler date now name msg s)"
  using spaced_snoc [of 1000000000 0 "map fst (err_printed s)" now]
  by (auto simp: err_inv_def err_handler_def Let_def)

lemma report_errors_inv:
  "err_inv s \<Longrightarrow> err_inv (report_errors date name errs s)
     \<and> err_counter (report_errors date name errs s) = err_counter s + of_nat (length errs)"
proof (induction errs arbitrary: s)
  case (Cons e errs)
  obtain now msg where e: "e = (now, msg)" by fastforce
  let ?s = "err_handler date now name msg s"
  have "report_errors date name (e # errs) s = report_errors date name errs ?s"
    by (simp add: report_errors_def e)
  moreover have "err_counter ?s = err_counter s + 1" by (simp add: err_handler_def Let_def)
  ultimately show ?case
    using Cons.IH [OF err_inv_step [OF Cons.prems, of date now name msg]] by simp
qed (simp add: report_errors_def)

text \<open>
  Log errors are reported at most once a second. Whatever errors the loggers have and however
  the clock moves, the reports on \<open>stderr\<close> are at least a second apart, while the counter they
  show counts every error.
\<close>

theorem error_reports_spaced:
  "sorted_wrt (\<lambda>a b. b - a \<ge> 1000000000) (map fst (err_printed (report_errors date name errs err_state_new)))
   \<and> err_counter (report_errors date name errs err_state_new) = of_nat (length errs)"
proof -
  have "err_inv err_state_new" by (simp add: err_inv_def err_state_new_def)
  from report_errors_inv [OF this, of date name errs] show ?thesis
    by (simp add: err_inv_def) (simp add: err_state_new_def)
qed

section \<open>What a log call does\<close>

lemma catch_text_eq:
  "catch_text location what = Some (Inr (case loc_filename location of
     Some filename \<Rightarrow> what @ '' ['' @ filename @ ''('' @ show_int (sint (loc_line location)) @ '')]''
   | None \<Rightarrow> what))"
proof (cases "loc_filename location")
  case (Some f)
  have "render [Field, Lit '' ['', Field, Lit ''('', Field, Lit '')]''] = ''{} [{}({})]''" by simp
  then show ?thesis
    using Some template_text [of "\<lparr>fa_args = [Arg_cstring 1 what, Arg_cstring 1 f, Arg_integer (Int_arg (loc_line location))],
             fa_named = []\<rparr>" "[what, f, show_int (sint (loc_line location))]" "\<lambda>_ _. None" "[]"
        "[Field, Lit '' ['', Field, Lit ''('', Field, Lit '')]'']"]
    by (simp add: catch_text_def)
qed (simp add: catch_text_def)

lemma log_format_returns:
  "(\<exists>text. logger_log_format lcl handler loc lvl fmt args lg s = Some (logger_log lvl text lg s))
   \<or> (\<exists>what. logger_log_format lcl handler loc lvl fmt args lg s = Some (lg, handler what s))"
proof -
  obtain r where r: "vformat_to lcl [] fmt args = Some r" "defined r" using vformat_to_ends by blast
  show ?thesis
  proof (cases r)
    case (Inl e)
    then show ?thesis
      using r by (cases e) (auto simp: logger_log_format_def logger_log_def catch_text_eq Let_def)
  next
    case (Inr buf)
    then show ?thesis using r by (auto simp: logger_log_format_def logger_log_def Let_def)
  qed
qed

text \<open>
  C35: A log call cannot fail. For every format string, all arguments and every logger a log call
  returns: it logs a text as the plain call does, or tells the error handler and leaves the logger
  and its sinks alone. No \<open>format_error\<close> reaches the caller.
\<close>

theorem log_call_cannot_fail:
  "(\<exists>text. logger_log_format lcl handler loc lvl fmt args lg s = Some (logger_log lvl text lg s))
   \<or> (\<exists>what. logger_log_format lcl handler loc lvl fmt args lg s = Some (lg, handler what s))"
  by (rule log_format_returns)

lemma log_format_template:
  assumes "list_all2 shows_as (fa_args args) ts" "filled ss ts = Some t"
  shows "logger_log_format lcl handler loc lvl (render ss) args lg s = Some (logger_log lvl t lg s)"
  using template_text [OF assms(1), of lcl "[]" ss] assms(2)
  by (auto simp: logger_log_format_def logger_log_def Let_def)

section \<open>The client's log calls\<close>

text \<open>
  A log call of the client: its default logger, no source location. The arguments are
  \<open>std::string\<close> values, C strings (\<open>what()\<close>, the receive buffer) and \<open>int\<close> values.
\<close>

definition client_log :: "write_loc \<Rightarrow> (string \<Rightarrow> client \<Rightarrow> client) \<Rightarrow> level \<Rightarrow> bytes \<Rightarrow> fmt_arg list \<Rightarrow> client \<Rightarrow> client option" where
  "client_log lcl handler lvl fmt args c =
     map_option snd (logger_log_format lcl handler no_loc lvl fmt \<lparr>fa_args = args, fa_named = []\<rparr> client_logger c)"

lemma client_log_template:
  assumes "fmt = render ss" "list_all2 shows_as args ts" "filled ss ts = Some t"
  shows "client_log lcl handler lvl fmt args c = Some (spd lvl t c)"
  using log_format_template [of "\<lparr>fa_args = args, fa_named = []\<rparr>" ts ss t lcl handler no_loc lvl client_logger c] assms
  by (simp add: client_log_def spd_def)

lemma client_log_1:
  assumes "fmt = render [Lit a, Field, Lit b]" "shows_as x t"
  shows "client_log lcl handler lvl fmt [x] c = Some (spd lvl (a @ t @ b) c)"
  using assms by (intro client_log_template [of _ "[Lit a, Field, Lit b]" _ "[t]"]) simp_all

lemma client_log_2:
  assumes "fmt = render [Lit a, Field, Lit b, Field, Lit d]" "shows_as x t" "shows_as y u"
  shows "client_log lcl handler lvl fmt [x, y] c = Some (spd lvl (a @ t @ b @ u @ d) c)"
  using assms by (intro client_log_template [of _ "[Lit a, Field, Lit b, Field, Lit d]" _ "[t, u]"]) simp_all

text \<open>
  The receive buffer is an argument, not a format: braces and percent signs in what the relay
  server sends stay as they are.
\<close>

lemma received_log_line:
  assumes "p \<noteq> 0"
  shows "client_log lcl handler Info
      (''[RemoteServerConnection] Received '' @ [CHR 0x27] @ ''{}'' @ [CHR 0x27] @ '' from remote server'')
      [Arg_cstring p buffer] c
    = Some (spd Info (''[RemoteServerConnection] Received '' @ [CHR 0x27] @ buffer @ [CHR 0x27]
                       @ '' from remote server'') c)"
  using client_log_1 [of _ "''[RemoteServerConnection] Received '' @ [CHR 0x27]" "[CHR 0x27] @ '' from remote server''"
      "Arg_cstring p buffer" buffer lcl handler Info c] assms
  by simp

lemma client_log_lines:
  "client_log lcl handler Info ''[Config] Attempting to load config from: {}'' [Arg_string path] c
     = Some (spd Info (''[Config] Attempting to load config from: '' @ path) c)"
  "client_log lcl handler Info ''[Config] Config loaded successfully from: {}'' [Arg_string path] c
     = Some (spd Info (''[Config] Config loaded successfully from: '' @ path) c)"
  "client_log lcl handler Err ''[Config] Failed to load config from: {}: {}'' [Arg_string path, Arg_cstring 1 what] c
     = Some (spd Err (''[Config] Failed to load config from: '' @ path @ '': '' @ what) c)"
  "client_log lcl handler Warn ''[TUI] Ran out of color pairs. Using default color for channel: {}'' [Arg_string name] c
     = Some (spd Warn (''[TUI] Ran out of color pairs. Using default color for channel: '' @ name) c)"
  "client_log lcl handler Err ''[RemoteServerConnection] Failed to create socket for remote server: {}'' [Arg_integer (Int_arg n)] c
     = Some (spd Err (''[RemoteServerConnection] Failed to create socket for remote server: '' @ show_int (sint n)) c)"
  "client_log lcl handler Err ''[RemoteServerConnection] Connection to remote server failed: {}'' [Arg_integer (Int_arg n)] c
     = Some (spd Err (''[RemoteServerConnection] Connection to remote server failed: '' @ show_int (sint n)) c)"
  "client_log lcl handler Info ''[RemoteServerConnection] Connected to remote server at {}:{}'' [Arg_string ip, Arg_integer (Int_arg n)] c
     = Some (spd Info (''[RemoteServerConnection] Connected to remote server at '' @ ip @ '':'' @ show_int (sint n)) c)"
  "client_log lcl handler Err ''[RemoteServerConnection] Failed to send message to remote server: {}'' [Arg_integer (Int_arg n)] c
     = Some (spd Err (''[RemoteServerConnection] Failed to send message to remote server: '' @ show_int (sint n)) c)"
  "client_log lcl handler Err ''[RemoteServerConnection] Failed to connect to remote server. Retrying in {} seconds...'' [Arg_integer (Int_arg n)] c
     = Some (spd Err (''[RemoteServerConnection] Failed to connect to remote server. Retrying in '' @ show_int (sint n) @ '' seconds...'') c)"
  "client_log lcl handler Err ''[RemoteServerConnection] recv failed from remote server: Error code {} '' [Arg_integer (Int_arg n)] c
     = Some (spd Err (''[RemoteServerConnection] recv failed from remote server: Error code '' @ show_int (sint n) @ '' '') c)"
  "client_log lcl handler Info ''[CS2ConsoleConnection] Connected to CS2 console at {}:{}'' [Arg_string ip, Arg_integer (Int_arg n)] c
     = Some (spd Info (''[CS2ConsoleConnection] Connected to CS2 console at '' @ ip @ '':'' @ show_int (sint n)) c)"
  "client_log lcl handler Err ''[CS2ConsoleConnection] Failed to connect to CS2 console. Retrying in {} seconds...'' [Arg_integer (Int_arg n)] c
     = Some (spd Err (''[CS2ConsoleConnection] Failed to connect to CS2 console. Retrying in '' @ show_int (sint n) @ '' seconds...'') c)"
  "client_log lcl handler Info ''[CS2ConsoleConnection] CVAR loaded: {}'' [Arg_cstring 1 name] c
     = Some (spd Info (''[CS2ConsoleConnection] CVAR loaded: '' @ name) c)"
  "client_log lcl handler Info ''[CS2ConsoleConnection] ADON: {}'' [Arg_string name] c
     = Some (spd Info (''[CS2ConsoleConnection] ADON: '' @ name) c)"
  "client_log lcl handler Info ''[Main] Interrupt signal {} received.'' [Arg_integer (Int_arg n)] c
     = Some (spd Info (''[Main] Interrupt signal '' @ show_int (sint n) @ '' received.'') c)"
  "client_log lcl handler Info ''[Main] Starting {}'' [Arg_string name] c
     = Some (spd Info (''[Main] Starting '' @ name) c)"
  by (simp_all add: client_log_1 [of "''[Config] Attempting to load config from: {}''" "''[Config] Attempting to load config from: ''" "[]"]
      client_log_1 [of "''[Config] Config loaded successfully from: {}''" "''[Config] Config loaded successfully from: ''" "[]"]
      client_log_2 [of "''[Config] Failed to load config from: {}: {}''" "''[Config] Failed to load config from: ''" "'': ''" "[]"]
      client_log_1 [of "''[TUI] Ran out of color pairs. Using default color for channel: {}''" "''[TUI] Ran out of color pairs. Using default color for channel: ''" "[]"]
      client_log_1 [of "''[RemoteServerConnection] Failed to create socket for remote server: {}''" "''[RemoteServerConnection] Failed to create socket for remote server: ''" "[]"]
      client_log_1 [of "''[RemoteServerConnection] Connection to remote server failed: {}''" "''[RemoteServerConnection] Connection to remote server failed: ''" "[]"]
      client_log_2 [of "''[RemoteServerConnection] Connected to remote server at {}:{}''" "''[RemoteServerConnection] Connected to remote server at ''" "'':''" "[]"]
      client_log_1 [of "''[RemoteServerConnection] Failed to send message to remote server: {}''" "''[RemoteServerConnection] Failed to send message to remote server: ''" "[]"]
      client_log_1 [of "''[RemoteServerConnection] Failed to connect to remote server. Retrying in {} seconds...''" "''[RemoteServerConnection] Failed to connect to remote server. Retrying in ''" "'' seconds...''"]
      client_log_1 [of "''[RemoteServerConnection] recv failed from remote server: Error code {} ''" "''[RemoteServerConnection] recv failed from remote server: Error code ''" "'' ''"]
      client_log_2 [of "''[CS2ConsoleConnection] Connected to CS2 console at {}:{}''" "''[CS2ConsoleConnection] Connected to CS2 console at ''" "'':''" "[]"]
      client_log_1 [of "''[CS2ConsoleConnection] Failed to connect to CS2 console. Retrying in {} seconds...''" "''[CS2ConsoleConnection] Failed to connect to CS2 console. Retrying in ''" "'' seconds...''"]
      client_log_1 [of "''[CS2ConsoleConnection] CVAR loaded: {}''" "''[CS2ConsoleConnection] CVAR loaded: ''" "[]"]
      client_log_1 [of "''[CS2ConsoleConnection] ADON: {}''" "''[CS2ConsoleConnection] ADON: ''" "[]"]
      client_log_1 [of "''[Main] Interrupt signal {} received.''" "''[Main] Interrupt signal ''" "'' received.''"]
      client_log_1 [of "''[Main] Starting {}''" "''[Main] Starting ''" "[]"])


end
