(* ===== verification/Os_Files.thy ===== *)
theory Os_Files
  imports Prelude
begin

text \<open>
  Files as spdlog uses them (\<open>spdlog/details/os-inl.h\<close>, the branches for POSIX): what the C
  library's streams and the file system calls do, and the functions of \<open>details::os\<close> on top.

  A file system is the contents of its files, by path, and its directories. Names are resolved by
  their components: repeated and trailing separators do not matter; \<open>.\<close>, \<open>..\<close> and links are not
  interpreted. Calls that may fail take their outcome from a list, so a statement for every list
  holds for every way of failing; with the list empty nothing fails for a reason of its own.
\<close>

section \<open>Paths\<close>

text \<open>Absolute or relative to the working directory, and the names on the way.\<close>

type_synonym path = "bool \<times> string list"

fun components :: "string \<Rightarrow> string \<Rightarrow> string list" where
  "components acc [] = (if acc = [] then [] else [acc])"
| "components acc (c # cs) =
     (if c = CHR ''/'' then (if acc = [] then [] else [acc]) @ components [] cs
      else components (acc @ [c]) cs)"

definition path_of :: "string \<Rightarrow> path" where
  "path_of name = (name \<noteq> [] \<and> hd name = CHR ''/'', components [] name)"

definition parent :: "path \<Rightarrow> path" where
  "parent p = (fst p, butlast (snd p))"

definition names_directory :: "string \<Rightarrow> bool" where
  "names_directory name \<longleftrightarrow> name \<noteq> [] \<and> last name = CHR ''/''"

section \<open>The file system\<close>

text \<open>What a call does when nothing else forbids it; the number is how many bytes it moves.\<close>

datatype outcome = Works nat | Fails nat

datatype file_event =
    Before_open string
  | After_open string
  | Before_close string
  | After_close string

record disk =
  dk_files :: "path \<Rightarrow> bytes option"
  dk_dirs :: "path list"
  dk_coming :: "outcome list"
  dk_slept :: nat
  dk_events :: "file_event list"

definition disk_next :: "disk \<Rightarrow> outcome \<times> disk" where
  "disk_next d = (case dk_coming d of [] \<Rightarrow> (Works 0, d) | o1 # os \<Rightarrow> (o1, d\<lparr>dk_coming := os\<rparr>))"

definition is_dir :: "path \<Rightarrow> disk \<Rightarrow> bool" where
  "is_dir p d \<longleftrightarrow> snd p = [] \<or> p \<in> set (dk_dirs d)"

definition put_file :: "path \<Rightarrow> bytes \<Rightarrow> disk \<Rightarrow> disk" where
  "put_file p bs d = d\<lparr>dk_files := (dk_files d)(p := Some bs)\<rparr>"

text \<open>Bytes reach a file that is still there; those for a file that is gone are lost.\<close>

definition append_file :: "path \<Rightarrow> bytes \<Rightarrow> disk \<Rightarrow> disk" where
  "append_file p bs d = (case dk_files d p of None \<Rightarrow> d | Some old \<Rightarrow> put_file p (old @ bs) d)"

text \<open>A \<open>FILE\<close> open for writing: its file and the bytes in its buffer.\<close>

record stream =
  st_path :: path
  st_pending :: bytes

text \<open>\<open>fopen\<close> in the modes the code uses: \<open>wb\<close> empties the file, \<open>ab\<close> keeps it.\<close>

definition libc_fopen :: "string \<Rightarrow> bool \<Rightarrow> disk \<Rightarrow> stream option \<times> disk" where
  "libc_fopen name wb d =
     (let p = path_of name in
      case disk_next d of
        (Fails _, d) \<Rightarrow> (None, d)
      | (Works _, d) \<Rightarrow>
          if name = [] \<or> names_directory name \<or> is_dir p d \<or> \<not> is_dir (parent p) d then (None, d)
          else
            let old = (case dk_files d p of Some bs \<Rightarrow> if wb then [] else bs | None \<Rightarrow> [])
            in (Some \<lparr>st_path = p, st_pending = []\<rparr>, put_file p old d))"

text \<open>
  \<open>fwrite\<close> takes as many bytes as it answers and may move some of the buffer to the file;
  \<open>fflush\<close> moves all of it, or part of it when it fails; \<open>fclose\<close> drops what it could not move.
\<close>

definition libc_fwrite :: "bytes \<Rightarrow> stream \<Rightarrow> disk \<Rightarrow> nat \<times> stream \<times> disk" where
  "libc_fwrite bs st d =
     (case disk_next d of
        (Works n, d) \<Rightarrow>
          let all = st_pending st @ bs in
          (length bs, st\<lparr>st_pending := drop n all\<rparr>, append_file (st_path st) (take n all) d)
      | (Fails n, d) \<Rightarrow> (min n (length bs), st\<lparr>st_pending := st_pending st @ take n bs\<rparr>, d))"

definition libc_fflush :: "stream \<Rightarrow> disk \<Rightarrow> bool \<times> stream \<times> disk" where
  "libc_fflush st d =
     (case disk_next d of
        (Works _, d) \<Rightarrow> (True, st\<lparr>st_pending := []\<rparr>, append_file (st_path st) (st_pending st) d)
      | (Fails n, d) \<Rightarrow>
          (False, st\<lparr>st_pending := drop n (st_pending st)\<rparr>, append_file (st_path st) (take n (st_pending st)) d))"

definition libc_fclose :: "stream \<Rightarrow> disk \<Rightarrow> disk" where
  "libc_fclose st d = (case libc_fflush st d of (_, _, d) \<Rightarrow> d)"

text \<open>\<open>fstat\<close>: the size of the file itself, without the buffer; \<open>fsync\<close> leaves the buffer alone too.\<close>

definition libc_fstat :: "stream \<Rightarrow> disk \<Rightarrow> nat option \<times> disk" where
  "libc_fstat st d =
     (case disk_next d of
        (Works _, d) \<Rightarrow> (Some (case dk_files d (st_path st) of Some bs \<Rightarrow> length bs | None \<Rightarrow> 0), d)
      | (Fails _, d) \<Rightarrow> (None, d))"

definition libc_fsync :: "stream \<Rightarrow> disk \<Rightarrow> bool \<times> disk" where
  "libc_fsync st d = (case disk_next d of (Works _, d) \<Rightarrow> (True, d) | (Fails _, d) \<Rightarrow> (False, d))"

definition libc_mkdir :: "string \<Rightarrow> disk \<Rightarrow> bool \<times> disk" where
  "libc_mkdir name d =
     (let p = path_of name in
      case disk_next d of
        (Fails _, d) \<Rightarrow> (False, d)
      | (Works _, d) \<Rightarrow>
          if name = [] \<or> is_dir p d \<or> dk_files d p \<noteq> None \<or> \<not> is_dir (parent p) d then (False, d)
          else (True, d\<lparr>dk_dirs := p # dk_dirs d\<rparr>))"

text \<open>\<open>remove\<close> is used on files only; \<open>rename\<close> replaces its target.\<close>

definition libc_remove :: "string \<Rightarrow> disk \<Rightarrow> bool \<times> disk" where
  "libc_remove name d =
     (let p = path_of name in
      case disk_next d of
        (Fails _, d) \<Rightarrow> (False, d)
      | (Works _, d) \<Rightarrow>
          if names_directory name \<or> dk_files d p = None then (False, d)
          else (True, d\<lparr>dk_files := (dk_files d)(p := None)\<rparr>))"

definition libc_rename :: "string \<Rightarrow> string \<Rightarrow> disk \<Rightarrow> bool \<times> disk" where
  "libc_rename src target d =
     (let p = path_of src; q = path_of target in
      case disk_next d of
        (Fails _, d) \<Rightarrow> (False, d)
      | (Works _, d) \<Rightarrow>
          (case dk_files d p of
             None \<Rightarrow> (False, d)
           | Some bs \<Rightarrow>
               if target = [] \<or> names_directory target \<or> is_dir q d \<or> \<not> is_dir (parent q) d then (False, d)
               else (True, d\<lparr>dk_files := (dk_files d)(p := None, q := Some bs)\<rparr>)))"

section \<open>\<open>details::os\<close>\<close>

definition path_exists :: "string \<Rightarrow> disk \<Rightarrow> bool" where
  "path_exists name d \<longleftrightarrow>
     name \<noteq> [] \<and> (is_dir (path_of name) d \<or> dk_files d (path_of name) \<noteq> None \<and> \<not> names_directory name)"

definition os_sleep_for_millis :: "nat \<Rightarrow> disk \<Rightarrow> disk" where
  "os_sleep_for_millis n d = d\<lparr>dk_slept := dk_slept d + n\<rparr>"

text \<open>\<open>fopen_s\<close> answers true when it fails.\<close>

definition fopen_s :: "string \<Rightarrow> bool \<Rightarrow> disk \<Rightarrow> bool \<times> stream option \<times> disk" where
  "fopen_s name wb d = (case libc_fopen name wb d of (fp, d) \<Rightarrow> (fp = None, fp, d))"

definition find_last_of :: "char \<Rightarrow> string \<Rightarrow> nat option" where
  "find_last_of c s =
     (if c \<in> set s then Some (length s - 1 - length (takeWhile (\<lambda>x. x \<noteq> c) (rev s))) else None)"

definition dir_name :: "string \<Rightarrow> string" where
  "dir_name path = (case find_last_of (CHR ''/'') path of Some pos \<Rightarrow> take pos path | None \<Rightarrow> [])"

text \<open>The position of the next separator from \<open>off\<close> on, or the end of the path.\<close>

definition token_end :: "string \<Rightarrow> nat \<Rightarrow> nat" where
  "token_end path off =
     (let rest = drop off path
      in if CHR ''/'' \<in> set rest then off + length (takeWhile (\<lambda>c. c \<noteq> CHR ''/'') rest) else length path)"

function create_dir_loop :: "string \<Rightarrow> nat \<Rightarrow> disk \<Rightarrow> bool \<times> disk" where
  "create_dir_loop path search_offset d =
     (let token_pos = token_end path search_offset;
          subdir = take token_pos path;
          (made, d) = (if subdir \<noteq> [] \<and> \<not> path_exists subdir d then libc_mkdir subdir d else (True, d))
      in if \<not> made then (False, d)
         else if token_pos + 1 < length path then create_dir_loop path (token_pos + 1) d
         else (True, d))"
  by pat_completeness auto
termination
  by (relation "measure (\<lambda>(path, off, d). length path - off)") (auto simp: token_end_def Let_def)

declare create_dir_loop.simps [simp del]

definition create_dir :: "string \<Rightarrow> disk \<Rightarrow> bool \<times> disk" where
  "create_dir path d =
     (if path_exists path d then (True, d)
      else if path = [] then (False, d)
      else create_dir_loop path 0 d)"

section \<open>Paths and their components\<close>

lemma components_slash: "components acc (t @ CHR ''/'' # u) = components acc t @ components [] u"
  by (induction t arbitrary: acc) auto

lemma components_plain: "CHR ''/'' \<notin> set x \<Longrightarrow> components acc x = (if acc @ x = [] then [] else [acc @ x])"
  by (induction x arbitrary: acc) auto

text \<open>A directory part is empty or ends with a separator.\<close>

definition dir_part :: "string \<Rightarrow> bool" where
  "dir_part t \<longleftrightarrow> t = [] \<or> last t = CHR ''/''"

lemma components_dir_part:
  assumes "dir_part t" "CHR ''/'' \<notin> set x"
  shows "components [] (t @ x) = components [] t @ (if x = [] then [] else [x])"
proof (cases "t = []")
  case False
  then obtain u where u: "t = u @ [CHR ''/'']" using assms(1) unfolding dir_part_def by (metis append_butlast_last_id)
  show ?thesis using components_slash [of "[]" u x] components_slash [of "[]" u "[]"] components_plain [OF assms(2), of "[]"]
    by (simp add: u)
qed (use components_plain [OF assms(2), of "[]"] in simp)

lemma path_of_dir_part:
  assumes "dir_part t" "CHR ''/'' \<notin> set x" "x \<noteq> []"
  shows "path_of (t @ x) = (fst (path_of t), snd (path_of t) @ [x])"
  using components_dir_part [OF assms(1,2)] assms by (cases t; cases x) (auto simp: path_of_def)

lemma parent_dir_part:
  "dir_part t \<Longrightarrow> CHR ''/'' \<notin> set x \<Longrightarrow> x \<noteq> [] \<Longrightarrow> parent (path_of (t @ x)) = path_of t"
  by (simp add: path_of_dir_part parent_def)

lemma path_of_snoc_slash: "snd (path_of (t @ [CHR ''/''])) = snd (path_of t)"
  using components_slash [of "[]" t "[]"] by (simp add: path_of_def)

lemma is_dir_snoc_slash: "is_dir (path_of t) d \<Longrightarrow> is_dir (path_of (t @ [CHR ''/''])) d"
  using path_of_snoc_slash [of t] by (cases t) (auto simp: is_dir_def path_of_def)

section \<open>Making a directory and those on the way\<close>

lemma disk_next_calm [simp]: "dk_coming d = [] \<Longrightarrow> disk_next d = (Works 0, d)"
  by (simp add: disk_next_def)

lemma token_end_props:
  assumes "off \<le> length path"
  shows "off \<le> token_end path off" "token_end path off \<le> length path"
    "CHR ''/'' \<notin> set (drop off (take (token_end path off) path))"
    "token_end path off < length path \<Longrightarrow> path ! token_end path off = CHR ''/''"
proof -
  let ?rest = "drop off path" let ?k = "length (takeWhile (\<lambda>c. c \<noteq> CHR ''/'') ?rest)"
  have k: "?k \<le> length ?rest" by (rule length_takeWhile_le)
  show "off \<le> token_end path off" using assms by (simp add: token_end_def Let_def)
  have "off + ?k \<le> length path" using k assms unfolding length_drop by linarith
  then show "token_end path off \<le> length path" by (simp add: token_end_def Let_def)
  have "drop off (take (off + ?k) path) = takeWhile (\<lambda>c. c \<noteq> CHR ''/'') ?rest"
    unfolding drop_take add_diff_cancel_left' by (rule takeWhile_eq_take [symmetric])
  then show "CHR ''/'' \<notin> set (drop off (take (token_end path off) path))"
    by (auto simp: token_end_def Let_def dest: set_takeWhileD)
  assume less: "token_end path off < length path"
  then have "CHR ''/'' \<in> set ?rest" by (auto simp: token_end_def Let_def split: if_splits)
  moreover from this have "?k < length ?rest" unfolding length_takeWhile_less_iff by auto
  ultimately show "path ! token_end path off = CHR ''/''"
    using nth_length_takeWhile [of "\<lambda>c. c \<noteq> CHR ''/''" ?rest] assms by (simp add: token_end_def Let_def)
qed

text \<open>Nothing changes but that directories on the way to \<open>path\<close> are added.\<close>

definition only_dirs :: "string \<Rightarrow> disk \<Rightarrow> disk \<Rightarrow> bool" where
  "only_dirs path d d' \<longleftrightarrow> (\<exists>ps. d' = d\<lparr>dk_dirs := ps @ dk_dirs d\<rparr> \<and> set ps \<subseteq> range (\<lambda>n. path_of (take n path)))"

lemma only_dirs_simps [simp]: "only_dirs path d d"
  by (simp add: only_dirs_def exI [of _ "[]"])

lemma only_dirs_trans:
  assumes "only_dirs path d d'" "only_dirs path d' d''"
  shows "only_dirs path d d''"
proof -
  obtain ps qs where "d' = d\<lparr>dk_dirs := ps @ dk_dirs d\<rparr>" "set ps \<subseteq> range (\<lambda>n. path_of (take n path))"
    "d'' = d'\<lparr>dk_dirs := qs @ dk_dirs d'\<rparr>" "set qs \<subseteq> range (\<lambda>n. path_of (take n path))"
    using assms unfolding only_dirs_def by blast
  then show ?thesis unfolding only_dirs_def by (intro exI [of _ "qs @ ps"]) simp
qed

lemma only_dirsD:
  assumes "only_dirs path d d'"
  shows "dk_files d' = dk_files d" "dk_coming d' = dk_coming d" "dk_slept d' = dk_slept d"
    "is_dir p d \<Longrightarrow> is_dir p d'"
    "is_dir p d' \<Longrightarrow> is_dir p d \<or> p \<in> range (\<lambda>n. path_of (take n path))"
  using assms by (auto simp: only_dirs_def is_dir_def)

lemma components_longer: "length (components acc t) \<le> length (components acc (t @ u))"
proof (induction t arbitrary: acc)
  case Nil
  have "acc \<noteq> [] \<Longrightarrow> components acc u \<noteq> []" for acc by (induction u arbitrary: acc) auto
  then show ?case by (cases "components acc u") auto
next
  case (Cons c t)
  then show ?case by simp
qed

lemma take_path_shorter: "length (snd (path_of (take n s))) \<le> length (snd (path_of s))"
  using components_longer [of "[]" "take n s" "drop n s"] by (simp add: path_of_def)

lemma make_token:
  assumes "dir_part t" "CHR ''/'' \<notin> set x" "is_dir (path_of t) d" "dk_coming d = []" "dk_files d (path_of (t @ x)) = None"
    and path: "t @ x = take n path"
  shows "\<exists>d'. (if t @ x \<noteq> [] \<and> \<not> path_exists (t @ x) d then libc_mkdir (t @ x) d else (True, d)) = (True, d')
    \<and> only_dirs path d d' \<and> is_dir (path_of (t @ x)) d'"
proof (cases "x = []")
  case True
  then show ?thesis using assms by (auto simp: path_exists_def)
next
  case False
  have up: "is_dir (parent (path_of (t @ x))) d" using parent_dir_part [OF assms(1,2) False] assms(3) by simp
  show ?thesis
  proof (cases "path_exists (t @ x) d")
    case True
    then show ?thesis using assms(5) by (auto simp: path_exists_def)
  next
    case no: False
    let ?d = "d\<lparr>dk_dirs := path_of (t @ x) # dk_dirs d\<rparr>"
    have "libc_mkdir (t @ x) d = (True, ?d)"
      using no up False assms(4,5) by (simp add: libc_mkdir_def path_exists_def Let_def)
    moreover have "only_dirs path d ?d" unfolding only_dirs_def path by (rule exI [of _ "[path_of (take n path)]"]) simp
    ultimately show ?thesis using no False by (auto simp: is_dir_def)
  qed
qed

lemma create_dir_loop_works:
  assumes "off \<le> length path" "dir_part (take off path)" "is_dir (path_of (take off path)) d" "dk_coming d = []"
    "\<forall>n. dk_files d (path_of (take n path)) = None"
  shows "\<exists>d'. create_dir_loop path off d = (True, d') \<and> only_dirs path d d' \<and> is_dir (path_of path) d'"
  using assms
proof (induction path off d rule: create_dir_loop.induct)
  case (1 path off d)
  let ?e = "token_end path off" let ?t = "take off path" let ?x = "drop off (take ?e path)"
  note e = token_end_props [OF 1(2)]
  have split: "take ?e path = ?t @ ?x"
    using e(1,2) by (metis append_take_drop_id min.absorb1 take_take)
  have "dk_files d (path_of (?t @ ?x)) = None" using 1(6) unfolding split [symmetric] by (rule spec)
  from make_token [OF 1(3) e(3) 1(4,5) this split [symmetric]] obtain d1 where made:
      "(if take ?e path \<noteq> [] \<and> \<not> path_exists (take ?e path) d then libc_mkdir (take ?e path) d else (True, d)) = (True, d1)"
    and d1: "only_dirs path d d1" "is_dir (path_of (take ?e path)) d1"
    unfolding split [symmetric] by (elim exE conjE)
  have next_dir: "?e < length path \<Longrightarrow> take (?e + 1) path = take ?e path @ [CHR ''/'']"
    using e(4) by (simp add: take_Suc_conv_app_nth)
  show ?case
  proof (cases "?e + 1 < length path")
    case True
    then have s: "take (?e + 1) path = take ?e path @ [CHR ''/'']" using next_dir by simp
    have "\<exists>d'. create_dir_loop path (?e + 1) d1 = (True, d') \<and> only_dirs path d1 d' \<and> is_dir (path_of path) d'"
    proof (rule 1(1) [OF refl refl made [symmetric]])
      show "dir_part (take (?e + 1) path)" unfolding s by (simp add: dir_part_def)
      show "is_dir (path_of (take (?e + 1) path)) d1" unfolding s by (rule is_dir_snoc_slash [OF d1(2)])
    qed (use True 1(5,6) only_dirsD [OF d1(1)] in auto)
    then show ?thesis using made True only_dirs_trans [OF d1(1)]
      by (subst create_dir_loop.simps) (auto simp: Let_def)
  next
    case False
    then consider "?e = length path" | "?e < length path" "path = take ?e path @ [CHR ''/'']"
      using e(2) next_dir by fastforce
    then have "is_dir (path_of path) d1"
      by cases (use d1(2) is_dir_snoc_slash [OF d1(2)] in \<open>simp, metis\<close>)
    then show ?thesis using made False d1(1) by (subst create_dir_loop.simps) (auto simp: Let_def)
  qed
qed

lemma create_dir_works:
  assumes "path \<noteq> []" "dk_coming d = []" "\<forall>n. dk_files d (path_of (take n path)) = None"
  shows "\<exists>d'. create_dir path d = (True, d') \<and> only_dirs path d d' \<and> is_dir (path_of path) d'"
proof (cases "path_exists path d")
  case True
  moreover have "dk_files d (path_of path) = None" using assms(3) [rule_format, of "length path"] by simp
  ultimately show ?thesis by (auto simp: create_dir_def path_exists_def)
next
  case False
  then show ?thesis using create_dir_loop_works [of 0 path d] assms
    by (simp add: create_dir_def dir_part_def is_dir_def path_of_def)
qed

end
