(* ===== verification/File_Sink.thy ===== *)
theory File_Sink
  imports Os_Files Pattern_Lines
begin

text \<open>
  spdlog's log files: \<open>details::file_helper\<close> (\<open>details/file_helper-inl.h\<close>) and \<open>basic_file_sink\<close>
  (\<open>sinks/basic_file_sink-inl.h\<close>), the sink of the client's log file. Writes, flushes and opens may
  fail in every way the model of the C library has; the logger catches what the sink throws.
\<close>

section \<open>\<open>file_helper\<close>\<close>

text \<open>Which of the event handlers are set; their calls are recorded in the disk's events.\<close>

record file_event_handlers =
  before_open_set :: bool
  after_open_set :: bool
  before_close_set :: bool
  after_close_set :: bool

definition no_handlers :: file_event_handlers where
  "no_handlers = \<lparr>before_open_set = False, after_open_set = False, before_close_set = False, after_close_set = False\<rparr>"

definition notify :: "bool \<Rightarrow> file_event \<Rightarrow> disk \<Rightarrow> disk" where
  "notify is_set e d = (if is_set then d\<lparr>dk_events := dk_events d @ [e]\<rparr> else d)"

record file_helper =
  fh_fd :: "stream option"
  fh_filename :: string
  fh_handlers :: file_event_handlers

text \<open>An exception: its text, to which \<open>Spdlog_ex_errno\<close> adds what \<open>errno\<close> says.\<close>

datatype spdlog_ex = Spdlog_ex string | Spdlog_ex_errno string

type_synonym file_result = "(spdlog_ex + unit) \<times> file_helper \<times> disk"

definition open_tries :: nat where "open_tries = 5"
definition open_interval :: nat where "open_interval = 10"

definition file_helper_new :: "file_event_handlers \<Rightarrow> file_helper" where
  "file_helper_new event_handlers = \<lparr>fh_fd = None, fh_filename = [], fh_handlers = event_handlers\<rparr>"

definition fh_close :: "file_helper \<Rightarrow> disk \<Rightarrow> file_helper \<times> disk" where
  "fh_close h d =
     (case fh_fd h of
        None \<Rightarrow> (h, d)
      | Some fd \<Rightarrow>
          let d = notify (before_close_set (fh_handlers h)) (Before_close (fh_filename h)) d;
              d = libc_fclose fd d;
              d = notify (after_close_set (fh_handlers h)) (After_close (fh_filename h)) d
          in (h\<lparr>fh_fd := None\<rparr>, d))"

text \<open>Opening and closing in mode \<open>wb\<close>; the left result is whether it was opened.\<close>

definition truncate_file :: "string \<Rightarrow> disk \<Rightarrow> bool \<times> disk" where
  "truncate_file fname d =
     (case fopen_s fname True d of (failed, tmp, d) \<Rightarrow>
        (case tmp of None \<Rightarrow> (False, d) | Some fp \<Rightarrow> (True, libc_fclose fp d)))"

fun open_attempts :: "nat \<Rightarrow> string \<Rightarrow> bool \<Rightarrow> file_helper \<Rightarrow> disk \<Rightarrow> bool \<times> file_helper \<times> disk" where
  "open_attempts 0 fname truncate_it h d = (False, h, d)"
| "open_attempts (Suc tries) fname truncate_it h d =
     (let (_, d) = create_dir (dir_name fname) d;
          (ready, d) = (if truncate_it then truncate_file fname d else (True, d))
      in if \<not> ready then open_attempts tries fname truncate_it h d
         else
           case fopen_s fname False d of (failed, fd, d) \<Rightarrow>
             let h = h\<lparr>fh_fd := fd\<rparr> in
             if \<not> failed then (True, h, notify (after_open_set (fh_handlers h)) (After_open (fh_filename h)) d)
             else open_attempts tries fname truncate_it h (os_sleep_for_millis open_interval d))"

definition fh_open :: "string \<Rightarrow> bool \<Rightarrow> file_helper \<Rightarrow> disk \<Rightarrow> file_result" where
  "fh_open fname truncate_it h d =
     (let (h, d) = fh_close h d;
          h = h\<lparr>fh_filename := fname\<rparr>;
          d = notify (before_open_set (fh_handlers h)) (Before_open (fh_filename h)) d;
          (opened, h, d) = open_attempts open_tries fname truncate_it h d
      in if opened then (Inr (), h, d)
         else (Inl (Spdlog_ex_errno (''Failed opening file '' @ fh_filename h @ '' for writing'')), h, d))"

definition fh_reopen :: "bool \<Rightarrow> file_helper \<Rightarrow> disk \<Rightarrow> file_result" where
  "fh_reopen truncate_it h d =
     (if fh_filename h = [] then (Inl (Spdlog_ex ''Failed re opening file - was not opened before''), h, d)
      else fh_open (fh_filename h) truncate_it h d)"

text \<open>Without an open file \<open>fflush(NULL)\<close> finds no stream of this helper to flush.\<close>

definition fh_flush :: "file_helper \<Rightarrow> disk \<Rightarrow> file_result" where
  "fh_flush h d =
     (case fh_fd h of
        None \<Rightarrow> (Inr (), h, d)
      | Some fd \<Rightarrow>
          (case libc_fflush fd d of (flushed, fd, d) \<Rightarrow>
             (if flushed then Inr () else Inl (Spdlog_ex_errno (''Failed flush to file '' @ fh_filename h)),
              h\<lparr>fh_fd := Some fd\<rparr>, d)))"

text \<open>\<open>fileno\<close> of a null pointer is undefined: \<open>None\<close>.\<close>

definition fh_sync :: "file_helper \<Rightarrow> disk \<Rightarrow> file_result option" where
  "fh_sync h d =
     (case fh_fd h of
        None \<Rightarrow> None
      | Some fd \<Rightarrow>
          (case libc_fsync fd d of (synced, d) \<Rightarrow>
             Some (if synced then Inr () else Inl (Spdlog_ex_errno (''Failed to fsync file '' @ fh_filename h)), h, d)))"

definition fh_write :: "bytes \<Rightarrow> file_helper \<Rightarrow> disk \<Rightarrow> file_result" where
  "fh_write buf h d =
     (case fh_fd h of
        None \<Rightarrow> (Inr (), h, d)
      | Some fd \<Rightarrow>
          (case libc_fwrite buf fd d of (n, fd, d) \<Rightarrow>
             (if n \<noteq> length buf then Inl (Spdlog_ex_errno (''Failed writing to file '' @ fh_filename h)) else Inr (),
              h\<lparr>fh_fd := Some fd\<rparr>, d)))"

definition fh_size :: "file_helper \<Rightarrow> disk \<Rightarrow> (spdlog_ex + nat) \<times> disk" where
  "fh_size h d =
     (case fh_fd h of
        None \<Rightarrow> (Inl (Spdlog_ex (''Cannot use size() on closed file '' @ fh_filename h)), d)
      | Some fd \<Rightarrow>
          (case libc_fstat fd d of
             (Some n, d) \<Rightarrow> (Inr n, d)
           | (None, d) \<Rightarrow> (Inl (Spdlog_ex_errno ''Failed getting file size from fd''), d)))"

definition split_by_extension :: "string \<Rightarrow> string \<times> string" where
  "split_by_extension fname =
     (case find_last_of (CHR ''.'') fname of
        None \<Rightarrow> (fname, [])
      | Some ext_index \<Rightarrow>
          if ext_index = 0 \<or> ext_index = length fname - 1 then (fname, [])
          else
            case find_last_of (CHR ''/'') fname of
              Some folder_index \<Rightarrow>
                if folder_index \<ge> ext_index - 1 then (fname, []) else (take ext_index fname, drop ext_index fname)
            | None \<Rightarrow> (take ext_index fname, drop ext_index fname))"

section \<open>\<open>basic_file_sink\<close>\<close>

record basic_file_sink =
  bfs_helper :: file_helper
  bfs_formatter :: pattern_formatter

definition basic_file_sink_new ::
  "string \<Rightarrow> bool \<Rightarrow> file_event_handlers \<Rightarrow> pattern_formatter \<Rightarrow> disk \<Rightarrow> (spdlog_ex + unit) \<times> basic_file_sink \<times> disk" where
  "basic_file_sink_new filename truncate_it event_handlers pf d =
     (case fh_open filename truncate_it (file_helper_new event_handlers) d of (r, h, d) \<Rightarrow>
        (r, \<lparr>bfs_helper = h, bfs_formatter = pf\<rparr>, d))"

definition bfs_sink_it ::
  "log_env \<Rightarrow> log_record \<Rightarrow> basic_file_sink \<Rightarrow> disk \<Rightarrow> fault + (spdlog_ex + unit) \<times> basic_file_sink \<times> disk" where
  "bfs_sink_it env msg sink d =
     bindE (pf_format env msg (bfs_formatter sink) []) (\<lambda>(pf, _, formatted).
       case fh_write formatted (bfs_helper sink) d of (r, h, d) \<Rightarrow>
         Inr (r, \<lparr>bfs_helper = h, bfs_formatter = pf\<rparr>, d))"

definition bfs_flush :: "basic_file_sink \<Rightarrow> disk \<Rightarrow> (spdlog_ex + unit) \<times> basic_file_sink \<times> disk" where
  "bfs_flush sink d =
     (case fh_flush (bfs_helper sink) d of (r, h, d) \<Rightarrow> (r, sink\<lparr>bfs_helper := h\<rparr>, d))"

text \<open>The destructor of the sink's \<open>file_helper\<close>.\<close>

definition bfs_destroy :: "basic_file_sink \<Rightarrow> disk \<Rightarrow> disk" where
  "bfs_destroy sink d = snd (fh_close (bfs_helper sink) d)"

section \<open>A life of the sink\<close>

text \<open>
  What the logger does with the sink: messages and flushes, each in a \<open>try\<close> whose \<open>catch\<close> hands the
  exception to the error handler. The result lists, for each request, whether it threw.
\<close>

datatype request = Log log_record | Flush

definition serve :: "log_env \<Rightarrow> request \<Rightarrow> basic_file_sink \<Rightarrow> disk \<Rightarrow> fault + (spdlog_ex + unit) \<times> basic_file_sink \<times> disk" where
  "serve env q sink d = (case q of Log msg \<Rightarrow> bfs_sink_it env msg sink d | Flush \<Rightarrow> Inr (bfs_flush sink d))"

fun serve_all :: "log_env \<Rightarrow> request list \<Rightarrow> basic_file_sink \<Rightarrow> disk \<Rightarrow> fault + bool list \<times> basic_file_sink \<times> disk" where
  "serve_all env [] sink d = Inr ([], sink, d)"
| "serve_all env (q # qs) sink d =
     bindE (serve env q sink d) (\<lambda>(r, sink, d).
     bindE (serve_all env qs sink d) (\<lambda>(thrown, sink, d). Inr (isl r # thrown, sink, d)))"

section \<open>What streams do to files\<close>

text \<open>The stream's file and its buffer together hold a text.\<close>

definition holds :: "stream \<Rightarrow> bytes \<Rightarrow> disk \<Rightarrow> bool" where
  "holds st t d \<longleftrightarrow> (\<exists>c. dk_files d (st_path st) = Some c \<and> c @ st_pending st = t)"

lemma disk_next_files: "disk_next d = (x, d') \<Longrightarrow> dk_files d' = dk_files d \<and> dk_dirs d' = dk_dirs d"
  by (auto simp: disk_next_def split: list.splits)

lemma append_file_same: "dk_files d p = Some c \<Longrightarrow> dk_files (append_file p bs d) p = Some (c @ bs)"
  by (simp add: append_file_def put_file_def)

lemma append_file_other: "q \<noteq> p \<Longrightarrow> dk_files (append_file p bs d) q = dk_files d q"
  by (simp add: append_file_def put_file_def split: option.split)

lemma fwrite_holds:
  assumes "holds st t d" "libc_fwrite bs st d = (n, st', d')"
  shows "st_path st' = st_path st \<and> n \<le> length bs \<and> holds st' (t @ take n bs) d'"
proof -
  obtain x d1 where x: "disk_next d = (x, d1)" by fastforce
  obtain c where c: "dk_files d1 (st_path st) = Some c" "c @ st_pending st = t"
    using assms(1) disk_next_files [OF x] by (auto simp: holds_def)
  show ?thesis
  proof (cases x)
    case (Works k)
    then have st': "st' = st\<lparr>st_pending := drop k (st_pending st @ bs)\<rparr>" "n = length bs"
        "d' = append_file (st_path st) (take k (st_pending st @ bs)) d1"
      using assms(2) x by (auto simp: libc_fwrite_def Let_def)
    let ?all = "st_pending st @ bs"
    have cont: "dk_files d' (st_path st') = Some (c @ take k ?all)"
      unfolding st' using append_file_same [OF c(1), of "take k ?all"] by simp
    have pend: "st_pending st' = drop k ?all" unfolding st' by (cases st) (simp del: drop_append)
    have "(c @ take k ?all) @ drop k ?all = t @ bs"
      unfolding c(2) [symmetric] by (simp only: append_assoc append_take_drop_id)
    then have "holds st' (t @ bs) d'" unfolding holds_def pend using cont by blast
    then show ?thesis by (simp add: st'(1,2))
  next
    case (Fails k)
    then have "st' = st\<lparr>st_pending := st_pending st @ take k bs\<rparr>" "n = min k (length bs)" "d' = d1"
      using assms(2) x by (auto simp: libc_fwrite_def)
    then show ?thesis using c by (auto simp: holds_def min_def)
  qed
qed

lemma fflush_holds:
  assumes "holds st t d" "libc_fflush st d = (flushed, st', d')"
  shows "st_path st' = st_path st \<and> holds st' t d' \<and> (flushed \<longrightarrow> st_pending st' = [])"
proof -
  obtain x d1 where x: "disk_next d = (x, d1)" by fastforce
  obtain c where c: "dk_files d1 (st_path st) = Some c" "c @ st_pending st = t"
    using assms(1) disk_next_files [OF x] by (auto simp: holds_def)
  show ?thesis
    using assms(2) x c append_file_same [OF c(1)]
    by (cases x) (auto simp: libc_fflush_def holds_def)
qed

lemma fopen_opens:
  assumes "libc_fopen name wb d = (Some st, d')"
  shows "st_path st = path_of name \<and> st_pending st = []
    \<and> dk_files d' = (dk_files d)(path_of name := Some (if wb then [] else case dk_files d (path_of name) of None \<Rightarrow> [] | Some bs \<Rightarrow> bs))"
  using assms disk_next_files [of d]
  by (auto simp: libc_fopen_def put_file_def Let_def split: prod.splits outcome.splits if_splits option.splits)

lemma fopen_fails: "libc_fopen name wb d = (None, d') \<Longrightarrow> dk_files d' = dk_files d"
  using disk_next_files [of d]
  by (auto simp: libc_fopen_def Let_def split: prod.splits outcome.splits if_splits)

lemma fclose_empty:
  assumes "st_pending st = []"
  shows "dk_files (libc_fclose st d) = dk_files d"
proof -
  obtain x d1 where x: "disk_next d = (x, d1)" by fastforce
  show ?thesis
    using assms x disk_next_files [OF x]
    by (cases x) (auto simp: libc_fclose_def libc_fflush_def append_file_def put_file_def split: option.split)
qed

lemma mkdir_files: "dk_files (snd (libc_mkdir name d)) = dk_files d"
proof -
  obtain x d1 where x: "disk_next d = (x, d1)" by fastforce
  show ?thesis using x disk_next_files [OF x] by (cases x) (simp_all add: libc_mkdir_def Let_def)
qed

lemma create_dir_loop_files: "dk_files (snd (create_dir_loop path off d)) = dk_files d"
proof (induction path off d rule: create_dir_loop.induct)
  case (1 path off d)
  let ?sub = "take (token_end path off) path"
  obtain made d1 where m: "(if ?sub \<noteq> [] \<and> \<not> path_exists ?sub d then libc_mkdir ?sub d else (True, d)) = (made, d1)"
    by fastforce
  have "dk_files d1 = dk_files d" using m mkdir_files [of ?sub d] by (auto split: if_splits)
  then show ?case using 1 [OF refl refl m [symmetric]] m
    by (subst create_dir_loop.simps) (auto simp: Let_def)
qed

lemma create_dir_files: "dk_files (snd (create_dir path d)) = dk_files d"
  by (simp add: create_dir_def create_dir_loop_files)

lemma notify_files [simp]: "dk_files (notify b e d) = dk_files d"
  by (simp add: notify_def)

lemma sleep_files [simp]: "dk_files (os_sleep_for_millis n d) = dk_files d"
  by (simp add: os_sleep_for_millis_def)

section \<open>Opening\<close>

text \<open>What a file opened for appending holds at first.\<close>

definition old_text :: "bool \<Rightarrow> string \<Rightarrow> disk \<Rightarrow> bytes" where
  "old_text truncate_it fname d =
     (if truncate_it then [] else case dk_files d (path_of fname) of None \<Rightarrow> [] | Some bs \<Rightarrow> bs)"

lemma truncate_file_files:
  "truncate_file fname d = (ready, d') \<Longrightarrow> ready \<Longrightarrow> dk_files d' (path_of fname) = Some []"
  using fopen_opens [of fname True d] fclose_empty
  by (auto simp: truncate_file_def fopen_s_def split: prod.splits option.splits)

lemma open_attempts_opens:
  "open_attempts tries fname truncate_it h d = (True, h', d') \<Longrightarrow>
     \<exists>st. h' = h\<lparr>fh_fd := Some st\<rparr> \<and> st_path st = path_of fname \<and> st_pending st = []
       \<and> dk_files d' (path_of fname) = Some (old_text truncate_it fname d)"
proof (induction tries fname truncate_it h d rule: open_attempts.induct)
  case (2 tries fname truncate_it h d)
  obtain made d1 where d1: "create_dir (dir_name fname) d = (made, d1)" by fastforce
  obtain ready d2 where d2: "(if truncate_it then truncate_file fname d1 else (True, d1)) = (ready, d2)" by fastforce
  obtain failed fd d3 where d3: "fopen_s fname False d2 = (failed, fd, d3)" by (cases "fopen_s fname False d2")
  have f1: "dk_files d1 = dk_files d" using create_dir_files [of "dir_name fname" d] d1 by simp
  note IH = "2.IH"
  show ?case
  proof (cases ready)
    case False
    then have t: "truncate_it" using d2 by (auto split: if_splits)
    have "open_attempts tries fname truncate_it h d2 = (True, h', d')"
      using "2.prems" False d1 d2 by (simp add: Let_def)
    from "2.IH"(1) [OF d1 [symmetric] refl d2 [symmetric] refl _ this] False show ?thesis using t by (simp add: old_text_def)
  next
    case True
    have f2: "old_text truncate_it fname d = old_text False fname d2"
      using d2 True f1 truncate_file_files [of fname d1 ready d2] by (auto simp: old_text_def split: if_splits)
    show ?thesis
    proof (cases failed)
      case False
      then obtain st where "fd = Some st" "libc_fopen fname False d2 = (Some st, d3)"
        using d3 by (auto simp: fopen_s_def split: prod.splits)
      then show ?thesis using fopen_opens [of fname False d2 st d3] "2.prems" False True d1 d2 d3 f2
        by (auto simp: Let_def old_text_def)
    next
      case failed: True
      then have "fd = None" "dk_files d3 = dk_files d2"
        using d3 fopen_fails [of fname False d2] by (auto simp: fopen_s_def split: prod.splits)
      then have "old_text truncate_it fname (os_sleep_for_millis open_interval d3) = old_text truncate_it fname d"
        using f2 by (auto simp: old_text_def)
      moreover have "open_attempts tries fname truncate_it (h\<lparr>fh_fd := fd\<rparr>) (os_sleep_for_millis open_interval d3) = (True, h', d')"
        using "2.prems" True failed d1 d2 d3 by (simp add: Let_def)
      ultimately show ?thesis using "2.IH"(2) [OF d1 [symmetric] refl d2 [symmetric] refl] True failed d3 by force
    qed
  qed
qed simp

lemma fh_open_opens:
  assumes "fh_open fname truncate_it h d = (Inr u, h', d')" "fh_fd h = None"
  shows "\<exists>st. fh_fd h' = Some st \<and> fh_filename h' = fname \<and> fh_handlers h' = fh_handlers h \<and> st_path st = path_of fname
    \<and> st_pending st = [] \<and> dk_files d' (path_of fname) = Some (old_text truncate_it fname d)"
  using assms open_attempts_opens [of open_tries fname truncate_it "h\<lparr>fh_filename := fname\<rparr>"
      "notify (before_open_set (fh_handlers h)) (Before_open fname) d" h' d']
  by (auto simp: fh_open_def fh_close_def old_text_def Let_def split: prod.splits if_splits)

section \<open>What the file gets to hold\<close>

text \<open>
  The text a sequence of requests leaves, given which of them threw: every message's line whole, or
  cut short where its write threw.
\<close>

fun lines_written :: "(log_record \<Rightarrow> bytes) \<Rightarrow> request list \<Rightarrow> bool list \<Rightarrow> bytes \<Rightarrow> bool" where
  "lines_written line [] thrown t \<longleftrightarrow> thrown = [] \<and> t = []"
| "lines_written line (q # qs) [] t \<longleftrightarrow> False"
| "lines_written line (Flush # qs) (e # thrown) t \<longleftrightarrow> lines_written line qs thrown t"
| "lines_written line (Log m # qs) (e # thrown) t \<longleftrightarrow>
     (\<exists>n u. t = take n (line m) @ u \<and> (e \<or> length (line m) \<le> n) \<and> lines_written line qs thrown u)"

lemma lines_written_length: "lines_written line qs thrown t \<Longrightarrow> length thrown = length qs"
  by (induction line qs thrown t rule: lines_written.induct) auto

definition record_line :: "log_env \<Rightarrow> pattern_time_type \<Rightarrow> string \<Rightarrow> log_record \<Rightarrow> bytes" where
  "record_line env tt eol m = full_line (env_mdc env) (time_at env tt (secs_of (msg_time m))) m @ eol"

fun timed :: "request \<Rightarrow> bool" where
  "timed (Log m) \<longleftrightarrow> secs_of (msg_time m) \<noteq> 0"
| "timed Flush \<longleftrightarrow> True"

definition open_with :: "stream \<Rightarrow> bytes \<Rightarrow> basic_file_sink \<Rightarrow> disk \<Rightarrow> bool" where
  "open_with st t sink d \<longleftrightarrow> fh_fd (bfs_helper sink) = Some st \<and> holds st t d"

lemma serve_log:
  assumes "open_with st t sink d" "cache_inv env tt eol (bfs_formatter sink)" "secs_of (msg_time m) \<noteq> 0"
  shows "\<exists>r sink' d' st' n. serve env (Log m) sink d = Inr (r, sink', d') \<and> st_path st' = st_path st
    \<and> cache_inv env tt eol (bfs_formatter sink') \<and> n \<le> length (record_line env tt eol m)
    \<and> (isl r \<or> n = length (record_line env tt eol m))
    \<and> open_with st' (t @ take n (record_line env tt eol m)) sink' d'"
proof -
  let ?line = "record_line env tt eol m"
  obtain pf' msg' where pf: "pf_format env m (bfs_formatter sink) [] = Inr (pf', msg', ?line)" "cache_inv env tt eol pf'"
    using cached_format [OF assms(2,3), of "[]"] by (auto simp: record_line_def)
  obtain n st' d' where w: "libc_fwrite ?line st d = (n, st', d')" by (cases "libc_fwrite ?line st d")
  have fw: "st_path st' = st_path st" "n \<le> length ?line" "holds st' (t @ take n ?line) d'"
    using fwrite_holds [OF _ w] assms(1) by (auto simp: open_with_def)
  then show ?thesis
    using assms(1) pf w by (auto simp: serve_def bfs_sink_it_def fh_write_def open_with_def)
qed

lemma serve_flush:
  assumes "open_with st t sink d"
  shows "\<exists>r sink' d' st'. serve env Flush sink d = Inr (r, sink', d') \<and> st_path st' = st_path st
    \<and> bfs_formatter sink' = bfs_formatter sink \<and> open_with st' t sink' d' \<and> (isl r \<or> st_pending st' = [])"
proof -
  obtain flushed st' d' where f: "libc_fflush st d = (flushed, st', d')" by (cases "libc_fflush st d")
  show ?thesis
    using fflush_holds [OF _ f, of t] assms f
    by (cases flushed) (auto simp: serve_def bfs_flush_def fh_flush_def open_with_def)
qed

lemma serve_all_lines:
  assumes "open_with st t sink d" "cache_inv env tt eol (bfs_formatter sink)" "\<forall>q \<in> set qs. timed q"
  shows "\<exists>thrown sink' d' st' u. serve_all env qs sink d = Inr (thrown, sink', d') \<and> st_path st' = st_path st
    \<and> lines_written (record_line env tt eol) qs thrown u \<and> open_with st' (t @ u) sink' d'
    \<and> (qs \<noteq> [] \<and> last qs = Flush \<and> \<not> last thrown \<longrightarrow> st_pending st' = [])"
  using assms
proof (induction qs arbitrary: st t sink d)
  case Nil
  then show ?case by auto
next
  case (Cons q qs)
  obtain r sink1 d1 st1 n where 1: "serve env q sink d = Inr (r, sink1, d1)" "st_path st1 = st_path st"
    "cache_inv env tt eol (bfs_formatter sink1)"
    "case q of Log m \<Rightarrow> n \<le> length (record_line env tt eol m) \<and> (isl r \<or> n = length (record_line env tt eol m))
        \<and> open_with st1 (t @ take n (record_line env tt eol m)) sink1 d1
     | Flush \<Rightarrow> open_with st1 t sink1 d1 \<and> (isl r \<or> st_pending st1 = [])"
  proof (cases q)
    case (Log m)
    then show ?thesis using serve_log [OF Cons.prems(1,2), of m] Cons.prems(3) that by fastforce
  next
    case Flush
    then show ?thesis using serve_flush [OF Cons.prems(1), of env] Cons.prems(2) that by fastforce
  qed
  define v where "v = (case q of Log m \<Rightarrow> take n (record_line env tt eol m) | Flush \<Rightarrow> [])"
  have "open_with st1 (t @ v) sink1 d1" using 1(4) by (auto simp: v_def split: request.splits)
  moreover have "\<forall>q \<in> set qs. timed q" using Cons.prems(3) by simp
  ultimately obtain thrown sink' d' st' u where
    2: "serve_all env qs sink1 d1 = Inr (thrown, sink', d')" "st_path st' = st_path st1"
      "lines_written (record_line env tt eol) qs thrown u" "open_with st' ((t @ v) @ u) sink' d'"
      "qs \<noteq> [] \<and> last qs = Flush \<and> \<not> last thrown \<longrightarrow> st_pending st' = []"
    using Cons.IH [of st1 "t @ v" sink1 d1] 1(3) by blast
  have "lines_written (record_line env tt eol) (q # qs) (isl r # thrown) (v @ u)"
    using 1(4) 2(3) by (cases q) (auto simp: v_def intro!: exI [of _ n])
  moreover have "st_pending st' = []" if "last (q # qs) = Flush" "\<not> last (isl r # thrown)"
  proof (cases "qs = []")
    case True
    then have "st' = st1" "thrown = []" using 1(4) 2(1,4) by (auto simp: open_with_def split: request.splits)
    then show ?thesis using 1(4) that True by simp
  next
    case False
    then show ?thesis using that 2(5) lines_written_length [OF 2(3)] by (auto split: if_splits)
  qed
  moreover have "serve_all env (q # qs) sink d = Inr (isl r # thrown, sink', d')" using 1(1) 2(1) by simp
  moreover have "st_path st' = st_path st" "open_with st' (t @ (v @ u)) sink' d'" using 1(2) 2(2,4) by simp_all
  ultimately show ?case by blast
qed

lemma cache_inv_default: "cache_inv env tt eol (pattern_formatter_default tt eol)"
  by (simp add: cache_inv_def pattern_formatter_default_def)


definition empty_disk :: "outcome list \<Rightarrow> disk" where
  "empty_disk coming = \<lparr>dk_files = (\<lambda>_. None), dk_dirs = [], dk_coming = coming, dk_slept = 0, dk_events = []\<rparr>"


section \<open>A log file in a new folder\<close>

lemma find_last_of_here: "c \<notin> set x \<Longrightarrow> find_last_of c (t @ c # x) = Some (length t)"
  by (simp add: find_last_of_def takeWhile_neq_append)

lemma find_last_of_Some:
  assumes "c \<in> set s"
  shows "\<exists>t x. s = t @ c # x \<and> c \<notin> set x \<and> find_last_of c s = Some (length t)"
  using split_list_last [OF assms] find_last_of_here [of c] by blast

lemma dir_name_split:
  assumes "fname \<noteq> []" "\<not> names_directory fname"
  shows "\<exists>t x. fname = t @ x \<and> dir_part t \<and> CHR ''/'' \<notin> set x \<and> x \<noteq> []
    \<and> (t = [] \<and> dir_name fname = [] \<or> t = dir_name fname @ [CHR ''/''])"
proof (cases "CHR ''/'' \<in> set fname")
  case True
  obtain t x where s: "fname = t @ CHR ''/'' # x" "CHR ''/'' \<notin> set x" "find_last_of (CHR ''/'') fname = Some (length t)"
    using find_last_of_Some [OF True] by blast
  moreover have "x \<noteq> []" using assms s(1) by (auto simp: names_directory_def)
  ultimately show ?thesis
    by (intro exI [of _ "t @ [CHR ''/'']"] exI [of _ x]) (simp add: dir_part_def dir_name_def)
next
  case False
  then show ?thesis using assms(1)
    by (intro exI [of _ "[]"] exI [of _ fname]) (simp add: dir_part_def dir_name_def find_last_of_def)
qed

lemma file_in_folder:
  assumes "fname \<noteq> []" "\<not> names_directory fname"
  shows "is_dir (path_of (dir_name fname)) d \<Longrightarrow> is_dir (parent (path_of fname)) d"
    and "path_of fname \<noteq> path_of (take n (dir_name fname))"
proof -
  let ?dir = "dir_name fname"
  obtain t x where f: "fname = t @ x" "dir_part t" "CHR ''/'' \<notin> set x" "x \<noteq> []"
    "t = [] \<and> ?dir = [] \<or> t = ?dir @ [CHR ''/'']"
    using dir_name_split [OF assms] by blast
  have path: "path_of fname = (fst (path_of t), snd (path_of t) @ [x])" unfolding f(1) by (rule path_of_dir_part [OF f(2-4)])
  have "snd (path_of t) = snd (path_of ?dir)" using f(5) path_of_snoc_slash by auto
  then show "path_of fname \<noteq> path_of (take n ?dir)"
    using take_path_shorter [of n ?dir] path by (metis length_append_singleton not_less_eq_eq order_refl snd_conv)
  assume dir: "is_dir (path_of ?dir) d"
  have "parent (path_of fname) = path_of t" unfolding f(1) by (rule parent_dir_part [OF f(2-4)])
  moreover have "is_dir (path_of t) d"
    using f(5)
  proof
    assume "t = [] \<and> ?dir = []"
    then show ?thesis by (simp add: is_dir_def path_of_def)
  next
    assume "t = ?dir @ [CHR ''/'']"
    then show ?thesis using is_dir_snoc_slash [OF dir] by simp
  qed
  ultimately show "is_dir (parent (path_of fname)) d" by simp
qed

text \<open>
  C38: A log file opens in a folder that is not there yet. When no call fails for a reason of its
  own, no file stands where a folder is needed and the name is no folder's, opening makes the
  missing folders, opens the file at the first try and keeps what it held.
\<close>

theorem log_file_opens_in_new_folder:
  assumes "fname \<noteq> []" "\<not> names_directory fname" "\<not> is_dir (path_of fname) d" "dk_coming d = []"
    "\<forall>n. dk_files d (path_of (take n (dir_name fname))) = None"
  shows "\<exists>h' d'. fh_open fname truncate_it (file_helper_new handlers) d = (Inr (), h', d')
    \<and> is_dir (path_of (dir_name fname)) d' \<and> dk_slept d' = dk_slept d
    \<and> dk_files d' = (dk_files d)(path_of fname := Some (old_text truncate_it fname d))"
proof -
  let ?dir = "dir_name fname"
  let ?d = "notify (before_open_set handlers) (Before_open fname) d"
  have calm: "dk_coming ?d = []" "\<forall>n. dk_files ?d (path_of (take n ?dir)) = None" "dk_slept ?d = dk_slept d"
    "is_dir p ?d = is_dir p d" for p
    using assms(4,5) by (simp_all add: notify_def is_dir_def)
  have "\<exists>made d1. create_dir ?dir ?d = (made, d1) \<and> only_dirs ?dir ?d d1 \<and> is_dir (path_of ?dir) d1"
  proof (cases "?dir = []")
    case True
    then show ?thesis
      by (intro exI [of _ False]) (simp add: create_dir_def path_exists_def is_dir_def path_of_def)
  next
    case False
    show ?thesis using create_dir_works [OF False calm(1,2)] by blast
  qed
  then obtain made d1 where d1: "create_dir ?dir ?d = (made, d1)" "only_dirs ?dir ?d d1" "is_dir (path_of ?dir) d1" by blast
  note d1D = only_dirsD [OF d1(2)]
  have up: "is_dir (parent (path_of fname)) d1" by (rule file_in_folder(1) [OF assms(1,2) d1(3)])
  have "path_of fname \<noteq> path_of (take n ?dir)" for n by (rule file_in_folder(2) [OF assms(1,2)])
  then have not_dir: "\<not> is_dir (path_of fname) d1" using d1D(5) assms(3) calm(4) by fastforce
  have opens: "fopen_s fname wb d2
      = (False, Some \<lparr>st_path = path_of fname, st_pending = []\<rparr>, put_file (path_of fname) (old_text wb fname d2) d2)"
    if "dk_dirs d2 = dk_dirs d1" "dk_coming d2 = []" for d2 wb
    using that up not_dir assms(1,2) by (auto simp: fopen_s_def libc_fopen_def old_text_def is_dir_def Let_def split: option.split)
  have calm1: "dk_coming d1 = []" "dk_files d1 = dk_files d" "dk_slept d1 = dk_slept d"
    using d1D calm(1,3) by simp_all
  have "truncate_file fname d1 = (True, put_file (path_of fname) [] d1)"
    using opens [OF refl calm1(1)] calm1(1)
    by (simp add: truncate_file_def libc_fclose_def libc_fflush_def append_file_def put_file_def old_text_def)
  then have "\<exists>d2. (if truncate_it then truncate_file fname d1 else (True, d1)) = (True, d2) \<and> dk_dirs d2 = dk_dirs d1
      \<and> dk_coming d2 = [] \<and> dk_slept d2 = dk_slept d \<and> put_file (path_of fname) (old_text False fname d2) d2
         = put_file (path_of fname) (old_text truncate_it fname d) d1"
    using calm1 by (auto simp: put_file_def old_text_def)
  then obtain d2 where d2: "(if truncate_it then truncate_file fname d1 else (True, d1)) = (True, d2)"
      "dk_dirs d2 = dk_dirs d1" "dk_coming d2 = []"
      "put_file (path_of fname) (old_text False fname d2) d2 = put_file (path_of fname) (old_text truncate_it fname d) d1"
    by blast
  show ?thesis
    using d1(1,3) d2(1) opens [OF d2(2,3), of False] d2(4) calm1
    by (auto simp: fh_open_def fh_close_def file_helper_new_def open_tries_def numeral_eq_Suc notify_def put_file_def is_dir_def Let_def)
qed

theorem log_file_opens_in_new_folder_witness:
  "\<exists>h' d'. fh_open ''logs/app.log'' False (file_helper_new no_handlers) (empty_disk []) = (Inr (), h', d')
    \<and> is_dir (False, [''logs'']) d' \<and> dk_slept d' = 0
    \<and> dk_files d' = (\<lambda>_. None)((False, [''logs'', ''app.log'']) := Some [])"
proof -
  have "dir_name ''logs/app.log'' = ''logs''" by (simp add: dir_name_def find_last_of_def)
  then show ?thesis
    using log_file_opens_in_new_folder [of "''logs/app.log''" "empty_disk []" False no_handlers]
    by (simp add: names_directory_def is_dir_def path_of_def empty_disk_def old_text_def)
qed

end
