(* ===== verification/Rotating_Sink.thy ===== *)
theory Rotating_Sink
  imports File_Sink Fmt_Format
begin

text \<open>
  spdlog's \<open>rotating_file_sink\<close> (\<open>sinks/rotating_file_sink-inl.h\<close>): a log file that moves its older
  parts to \<open>log.1.txt\<close>, \<open>log.2.txt\<close>, \<dots> when it grows too big. Sizes are natural numbers: no file
  comes near \<open>2\<^sup>6\<^sup>4\<close> bytes.
\<close>

section \<open>The sink\<close>

definition calc_filename :: "string \<Rightarrow> nat \<Rightarrow> string" where
  "calc_filename filename index =
     (if index = 0 then filename
      else case split_by_extension filename of (stem, ext) \<Rightarrow> stem @ ''.'' @ show_nat index @ ext)"

record rotating_file_sink =
  rfs_base_filename :: string
  rfs_max_size :: nat
  rfs_max_files :: nat
  rfs_current_size :: nat
  rfs_helper :: file_helper
  rfs_formatter :: pattern_formatter

type_synonym rotating_result = "(spdlog_ex + unit) \<times> rotating_file_sink \<times> disk"

definition rename_file :: "string \<Rightarrow> string \<Rightarrow> disk \<Rightarrow> bool \<times> disk" where
  "rename_file src target d = (let (_, d) = libc_remove target d in libc_rename src target d)"

text \<open>The loop over \<open>i = n, \<dots>, 1\<close>; the result is the index of the file that could not be renamed.\<close>

fun rotate_loop :: "nat \<Rightarrow> string \<Rightarrow> disk \<Rightarrow> nat option \<times> disk" where
  "rotate_loop 0 base d = (None, d)"
| "rotate_loop (Suc i) base d =
     (let src = calc_filename base i in
      if \<not> path_exists src d then rotate_loop i base d
      else
        let target = calc_filename base (Suc i); (renamed, d) = rename_file src target d in
        if renamed then rotate_loop i base d
        else
          let d = os_sleep_for_millis 100 d; (renamed, d) = rename_file src target d in
          if renamed then rotate_loop i base d else (Some i, d))"

definition rotate_files :: "rotating_file_sink \<Rightarrow> disk \<Rightarrow> rotating_result" where
  "rotate_files sink d =
     (let (h, d) = fh_close (rfs_helper sink) d; base = rfs_base_filename sink in
      case rotate_loop (rfs_max_files sink) base d of
        (Some i, d) \<Rightarrow>
          (case fh_reopen True h d of
             (Inl e, h, d) \<Rightarrow> (Inl e, sink\<lparr>rfs_helper := h\<rparr>, d)
           | (Inr _, h, d) \<Rightarrow>
               (Inl (Spdlog_ex_errno (''rotating_file_sink: failed renaming '' @ calc_filename base i @ '' to ''
                       @ calc_filename base (Suc i))),
                sink\<lparr>rfs_helper := h, rfs_current_size := 0\<rparr>, d))
      | (None, d) \<Rightarrow> (case fh_reopen True h d of (r, h, d) \<Rightarrow> (r, sink\<lparr>rfs_helper := h\<rparr>, d)))"

definition rotating_file_sink_new ::
  "string \<Rightarrow> nat \<Rightarrow> nat \<Rightarrow> bool \<Rightarrow> file_event_handlers \<Rightarrow> pattern_formatter \<Rightarrow> disk \<Rightarrow> rotating_result" where
  "rotating_file_sink_new base max_size max_files rotate_on_open event_handlers pf d =
     (let sink = \<lparr>rfs_base_filename = base, rfs_max_size = max_size, rfs_max_files = max_files,
                  rfs_current_size = 0, rfs_helper = file_helper_new event_handlers, rfs_formatter = pf\<rparr> in
      if max_size = 0 then (Inl (Spdlog_ex ''rotating sink constructor: max_size arg cannot be zero''), sink, d)
      else if max_files > 200000 then
        (Inl (Spdlog_ex ''rotating sink constructor: max_files arg cannot exceed 200000''), sink, d)
      else
        case fh_open (calc_filename base 0) False (rfs_helper sink) d of
          (Inl e, h, d) \<Rightarrow> (Inl e, sink\<lparr>rfs_helper := h\<rparr>, d)
        | (Inr _, h, d) \<Rightarrow>
            (case fh_size h d of
               (Inl e, d) \<Rightarrow> (Inl e, sink\<lparr>rfs_helper := h\<rparr>, d)
             | (Inr n, d) \<Rightarrow>
                 let sink = sink\<lparr>rfs_helper := h, rfs_current_size := n\<rparr> in
                 if rotate_on_open \<and> n > 0 then
                   (case rotate_files sink d of
                      (Inl e, sink, d) \<Rightarrow> (Inl e, sink, d)
                    | (Inr _, sink, d) \<Rightarrow> (Inr (), sink\<lparr>rfs_current_size := 0\<rparr>, d))
                 else (Inr (), sink, d)))"

text \<open>\<open>sink_it_\<close> after formatting: rotate if needed, then write.\<close>

definition rfs_write :: "bytes \<Rightarrow> nat \<Rightarrow> rotating_file_sink \<Rightarrow> disk \<Rightarrow> rotating_result" where
  "rfs_write formatted new_size sink d =
     (case fh_write formatted (rfs_helper sink) d of
        (Inl e, h, d) \<Rightarrow> (Inl e, sink\<lparr>rfs_helper := h\<rparr>, d)
      | (Inr _, h, d) \<Rightarrow> (Inr (), sink\<lparr>rfs_helper := h, rfs_current_size := new_size\<rparr>, d))"

definition rfs_put :: "bytes \<Rightarrow> rotating_file_sink \<Rightarrow> disk \<Rightarrow> rotating_result" where
  "rfs_put formatted sink d =
     (let new_size = rfs_current_size sink + length formatted in
      if new_size > rfs_max_size sink then
        (case fh_flush (rfs_helper sink) d of
           (Inl e, h, d) \<Rightarrow> (Inl e, sink\<lparr>rfs_helper := h\<rparr>, d)
         | (Inr _, h, d) \<Rightarrow>
             let sink = sink\<lparr>rfs_helper := h\<rparr> in
             (case fh_size h d of
                (Inl e, d) \<Rightarrow> (Inl e, sink, d)
              | (Inr n, d) \<Rightarrow>
                  if n > 0 then
                    (case rotate_files sink d of
                       (Inl e, sink, d) \<Rightarrow> (Inl e, sink, d)
                     | (Inr _, sink, d) \<Rightarrow> rfs_write formatted (length formatted) sink d)
                  else rfs_write formatted new_size sink d))
      else rfs_write formatted new_size sink d)"

definition rfs_sink_it :: "log_env \<Rightarrow> log_record \<Rightarrow> rotating_file_sink \<Rightarrow> disk \<Rightarrow> fault + rotating_result" where
  "rfs_sink_it env msg sink d =
     bindE (pf_format env msg (rfs_formatter sink) []) (\<lambda>(pf, _, formatted).
       Inr (rfs_put formatted (sink\<lparr>rfs_formatter := pf\<rparr>) d))"

definition rfs_flush :: "rotating_file_sink \<Rightarrow> disk \<Rightarrow> rotating_result" where
  "rfs_flush sink d = (case fh_flush (rfs_helper sink) d of (r, h, d) \<Rightarrow> (r, sink\<lparr>rfs_helper := h\<rparr>, d))"

section \<open>The names of the files\<close>

text \<open>The name is what fmt makes of the format the code gives it.\<close>

lemma calc_filename_format:
  assumes "0 < index" "index < 2 ^ 64" "split_by_extension filename = (stem, ext)"
  shows "vformat_to lcl [] ''{}.{}{}''
      \<lparr>fa_args = [Arg_string stem, Arg_integer (Ulong_long_arg (of_nat index)), Arg_string ext], fa_named = []\<rparr>
    = Some (Inr (calc_filename filename index))"
proof -
  have "int_value (Ulong_long_arg (of_nat index)) = int index"
    using assms(2) by (simp add: unsigned_of_nat take_bit_nat_eq_self)
  then show ?thesis
    using template_text [of "\<lparr>fa_args = [Arg_string stem, Arg_integer (Ulong_long_arg (of_nat index)), Arg_string ext], fa_named = []\<rparr>"
        "[stem, show_int (int index), ext]" lcl "[]" "[Field, Lit ''.'', Field, Field]"] assms
    by (simp add: calc_filename_def show_int_def)
qed

lemma split_by_extension_parts:
  assumes "dir_part t" "CHR ''/'' \<notin> set x" "x \<noteq> []"
  shows "\<exists>b e. x = b @ e \<and> split_by_extension (t @ x) = (t @ b, e)"
proof (cases "snd (split_by_extension (t @ x)) = []")
  case True
  then have "split_by_extension (t @ x) = (t @ x, [])"
    by (auto simp: split_by_extension_def split: option.splits if_splits)
  then show ?thesis by (intro exI [of _ x] exI [of _ "[]"]) simp
next
  case False
  let ?f = "t @ x"
  obtain k where k: "find_last_of (CHR ''.'') ?f = Some k" "split_by_extension ?f = (take k ?f, drop k ?f)"
    and far: "\<forall>f. find_last_of (CHR ''/'') ?f = Some f \<longrightarrow> f < k - 1"
    using False by (auto simp: split_by_extension_def split: option.splits if_splits)
  have "length t \<le> k"
  proof (cases "t = []")
    case False
    then obtain t' where t': "t = t' @ [CHR ''/'']" using assms(1) unfolding dir_part_def by (metis append_butlast_last_id)
    have "find_last_of (CHR ''/'') ?f = Some (length t')" using find_last_of_here [OF assms(2), of t'] by (simp add: t')
    then show ?thesis using far by (simp add: t')
  qed simp
  then show ?thesis using k(2) by (intro exI [of _ "take (k - length t) x"] exI [of _ "drop (k - length t) x"]) simp
qed

lemma show_nat_inject:
  assumes "show_nat m = show_nat n"
  shows "m = n"
proof -
  have "digits_value (show_nat m) = digits_value (show_nat n)" by (simp only: assms)
  then show ?thesis unfolding digits_value_show_nat by simp
qed

lemma show_nat_no_slash: "CHR ''/'' \<notin> set (show_nat n)"
  using show_nat_digits [of n] by (auto simp: list_all_iff isdigit_def)

text \<open>All files are in one folder, under different names.\<close>

lemma calc_filename_parts:
  assumes "base \<noteq> []" "\<not> names_directory base"
  shows "\<exists>t name. dir_part t \<and> inj name
    \<and> (\<forall>i. calc_filename base i = t @ name i \<and> CHR ''/'' \<notin> set (name i) \<and> name i \<noteq> [])"
proof -
  obtain t x where f: "base = t @ x" "dir_part t" "CHR ''/'' \<notin> set x" "x \<noteq> []"
    using dir_name_split [OF assms] by blast
  obtain b e where be: "x = b @ e" "split_by_extension base = (t @ b, e)"
    using split_by_extension_parts [OF f(2-4)] f(1) by blast
  define name where "name i = (if i = 0 then b @ e else b @ CHR ''.'' # show_nat i @ e)" for i
  have "inj name"
  proof (rule injI)
    fix i j assume eq: "name i = name j"
    have "length (name 0) < length (name k)" if "k \<noteq> 0" for k using that by (simp add: name_def)
    then have "i = 0 \<longleftrightarrow> j = 0" using eq by (metis less_irrefl)
    then show "i = j" using eq show_nat_inject [of i j] by (cases "i = 0") (simp_all add: name_def)
  qed
  moreover have "calc_filename base i = t @ name i \<and> CHR ''/'' \<notin> set (name i) \<and> name i \<noteq> []" for i
    using f be show_nat_no_slash [of i] by (simp add: calc_filename_def name_def)
  ultimately show ?thesis using f(2) by blast
qed

definition log_path :: "string \<Rightarrow> nat \<Rightarrow> path" where
  "log_path base i = path_of (calc_filename base i)"

text \<open>What the sink needs of its folder: the name is a file's, and none of its names is a folder's.\<close>

definition log_folder :: "string \<Rightarrow> disk \<Rightarrow> bool" where
  "log_folder base d \<longleftrightarrow> base \<noteq> [] \<and> \<not> names_directory base \<and> is_dir (parent (path_of base)) d
     \<and> (\<forall>i. \<not> is_dir (log_path base i) d)"

lemma log_path_facts:
  assumes "log_folder base d"
  shows "log_path base i = log_path base j \<longleftrightarrow> i = j" "is_dir (parent (log_path base i)) d"
    "calc_filename base i \<noteq> []" "\<not> names_directory (calc_filename base i)" "\<not> is_dir (log_path base i) d"
proof -
  obtain t name where f: "dir_part t" "inj name"
    "\<And>i. calc_filename base i = t @ name i \<and> CHR ''/'' \<notin> set (name i) \<and> name i \<noteq> []"
    using calc_filename_parts [of base] assms unfolding log_folder_def by blast
  have path: "log_path base i = (fst (path_of t), snd (path_of t) @ [name i])" for i
    using f path_of_dir_part [of t "name i"] by (simp add: log_path_def)
  show "log_path base i = log_path base j \<longleftrightarrow> i = j" using f(2) by (auto simp: path dest: injD)
  have "log_path base 0 = path_of base" by (simp add: log_path_def calc_filename_def)
  then have "parent (log_path base i) = parent (path_of base)" by (metis path parent_def fst_conv snd_conv butlast_snoc)
  then show "is_dir (parent (log_path base i)) d" using assms by (simp add: log_folder_def)
  show "calc_filename base i \<noteq> []" using f(3) by simp
  have "last (name i) \<noteq> CHR ''/''" using f(3) [of i] last_in_set [of "name i"] by metis
  then show "\<not> names_directory (calc_filename base i)" using f(3) [of i] by (simp add: names_directory_def)
  show "\<not> is_dir (log_path base i) d" using assms by (simp add: log_folder_def)
qed

section \<open>Calls that work\<close>

text \<open>Every call to come works; the C library may still move its buffer when it likes.\<close>

definition works :: "disk \<Rightarrow> bool" where
  "works d \<longleftrightarrow> (\<forall>x \<in> set (dk_coming d). \<exists>n. x = Works n)"

lemma works_next:
  assumes "works d"
  shows "\<exists>n d'. disk_next d = (Works n, d') \<and> works d' \<and> dk_files d' = dk_files d \<and> dk_dirs d' = dk_dirs d"
  using assms by (cases "dk_coming d") (auto simp: disk_next_def works_def)

text \<open>Only files change.\<close>

definition files_to :: "(path \<Rightarrow> bytes option) \<Rightarrow> disk \<Rightarrow> disk \<Rightarrow> bool" where
  "files_to F d d' \<longleftrightarrow> works d' \<and> dk_files d' = F \<and> dk_dirs d' = dk_dirs d"

lemma files_to_is_dir: "files_to F d d' \<Longrightarrow> is_dir p d' = is_dir p d"
  by (simp add: files_to_def is_dir_def)

lemma files_to_folder: "files_to F d d' \<Longrightarrow> log_folder base d' = log_folder base d"
  by (simp add: log_folder_def files_to_is_dir)

lemma fopen_works:
  assumes "works d" "log_folder base d" "dk_files d (log_path base i) = old"
  shows "\<exists>d'. fopen_s (calc_filename base i) wb d = (False, Some \<lparr>st_path = log_path base i, st_pending = []\<rparr>, d')
    \<and> files_to ((dk_files d)(log_path base i := Some (if wb then [] else case old of None \<Rightarrow> [] | Some bs \<Rightarrow> bs))) d d'"
proof -
  obtain n d1 where d1: "disk_next d = (Works n, d1)" "works d1" "dk_files d1 = dk_files d" "dk_dirs d1 = dk_dirs d"
    using works_next [OF assms(1)] by blast
  have "files_to (dk_files d) d d1" using d1 by (simp add: files_to_def)
  then have "log_folder base d1" using assms(2) files_to_folder by simp
  note p = log_path_facts [OF this, of i]
  show ?thesis
    using p(2-5) assms(3) d1 by (cases old; simp add: fopen_s_def libc_fopen_def log_path_def [symmetric] put_file_def files_to_def works_def Let_def)
qed

lemma fclose_works:
  assumes "works d" "holds st t d"
  shows "files_to ((dk_files d)(st_path st := Some t)) d (libc_fclose st d)"
proof -
  obtain n d1 where d1: "disk_next d = (Works n, d1)" "works d1" "dk_files d1 = dk_files d" "dk_dirs d1 = dk_dirs d"
    using works_next [OF assms(1)] by blast
  show ?thesis
    using assms(2) d1 by (auto simp: libc_fclose_def libc_fflush_def append_file_def put_file_def files_to_def works_def holds_def)
qed

lemma rename_works:
  assumes "works d" "log_folder base d" "dk_files d (log_path base i) = Some bs"
  shows "\<exists>d'. rename_file (calc_filename base i) (calc_filename base (Suc i)) d = (True, d')
    \<and> files_to ((dk_files d)(log_path base i := None, log_path base (Suc i) := Some bs)) d d'"
proof -
  let ?p = "log_path base i" and ?q = "log_path base (Suc i)"
  obtain n d1 where d1: "disk_next d = (Works n, d1)" "works d1" "dk_files d1 = dk_files d" "dk_dirs d1 = dk_dirs d"
    using works_next [OF assms(1)] by blast
  note p = log_path_facts [OF assms(2)]
  have ne: "?p \<noteq> ?q" using p(1) [of i "Suc i"] by simp
  obtain b d2 where d2: "libc_remove (calc_filename base (Suc i)) d = (b, d2)" "works d2" "dk_dirs d2 = dk_dirs d"
    "dk_files d2 ?p = Some bs" "(dk_files d2)(?p := None, ?q := Some bs) = (dk_files d)(?p := None, ?q := Some bs)"
    using d1 assms(3) ne p(4) [of "Suc i"]
    by (cases "dk_files d ?q") (simp_all add: libc_remove_def log_path_def [symmetric] works_def fun_upd_twist Let_def)
  obtain m d3 where d3: "disk_next d2 = (Works m, d3)" "works d3" "dk_files d3 = dk_files d2" "dk_dirs d3 = dk_dirs d2"
    using works_next [OF d2(2)] by blast
  have "is_dir q d3 = is_dir q d" for q using d2(3) d3(4) by (simp add: is_dir_def)
  then have "libc_rename (calc_filename base i) (calc_filename base (Suc i)) d2
      = (True, d3\<lparr>dk_files := (dk_files d3)(?p := None, ?q := Some bs)\<rparr>)"
    using d3 d2(4) p(2-5) [of "Suc i"] by (simp add: libc_rename_def log_path_def [symmetric] Let_def)
  then show ?thesis using d2 d3 by (auto simp: rename_file_def files_to_def works_def)
qed

section \<open>Rotating\<close>

text \<open>What the loop does to the files, and what that is when the files are the parts \<open>cs\<close>.\<close>

fun rotated :: "(nat \<Rightarrow> path) \<Rightarrow> nat \<Rightarrow> (path \<Rightarrow> bytes option) \<Rightarrow> path \<Rightarrow> bytes option" where
  "rotated P 0 F = F"
| "rotated P (Suc i) F = rotated P i (case F (P i) of None \<Rightarrow> F | Some bs \<Rightarrow> F(P i := None, P (Suc i) := Some bs))"

lemma path_exists_log:
  "log_folder base d \<Longrightarrow> path_exists (calc_filename base i) d \<longleftrightarrow> dk_files d (log_path base i) \<noteq> None"
  using log_path_facts [of base d i] by (simp add: path_exists_def log_path_def)

lemma rotate_loop_works:
  assumes "works d" "log_folder base d"
  shows "\<exists>d'. rotate_loop k base d = (None, d') \<and> files_to (rotated (log_path base) k (dk_files d)) d d'"
  using assms
proof (induction k arbitrary: d)
  case 0
  then show ?case by (simp add: files_to_def)
next
  case (Suc i)
  show ?case
  proof (cases "dk_files d (log_path base i)")
    case None
    then show ?thesis using Suc.IH [OF Suc.prems] path_exists_log [OF Suc.prems(2)] by (simp add: Let_def)
  next
    case (Some bs)
    obtain d1 where d1: "rename_file (calc_filename base i) (calc_filename base (Suc i)) d = (True, d1)"
      "files_to ((dk_files d)(log_path base i := None, log_path base (Suc i) := Some bs)) d d1"
      using rename_works [OF Suc.prems Some] by blast
    have "works d1" "log_folder base d1" using d1(2) Suc.prems(2) files_to_folder [OF d1(2)] by (simp_all add: files_to_def)
    from Suc.IH [OF this] d1 Some show ?thesis
      using path_exists_log [OF Suc.prems(2), of i] by (auto simp: files_to_def Let_def)
  qed
qed

definition parts_at :: "(nat \<Rightarrow> path) \<Rightarrow> nat \<Rightarrow> bytes list \<Rightarrow> (path \<Rightarrow> bytes option) \<Rightarrow> bool" where
  "parts_at P n cs F \<longleftrightarrow> (\<forall>i < n. F (P i) = (if i < length cs then Some (cs ! i) else None))"

lemma rotated_parts:
  assumes "inj P" "cs \<noteq> []" "parts_at P k cs F"
  shows "(\<forall>j. 1 \<le> j \<and> j \<le> k \<longrightarrow> rotated P k F (P j) = (if j - 1 < length cs then Some (cs ! (j - 1)) else F (P j)))
    \<and> rotated P k F (P 0) = (if k = 0 then F (P 0) else None)
    \<and> (\<forall>j > k. rotated P k F (P j) = F (P j))"
  using assms(3)
proof (induction k arbitrary: F)
  case (Suc i)
  let ?G = "case F (P i) of None \<Rightarrow> F | Some bs \<Rightarrow> F(P i := None, P (Suc i) := Some bs)"
  have eq: "P a = P b \<longleftrightarrow> a = b" for a b using assms(1) by (auto dest: injD)
  have Pi: "F (P i) = (if i < length cs then Some (cs ! i) else None)" using Suc.prems by (simp add: parts_at_def)
  have G: "?G (P j) = (if i < length cs then (if j = i then None else if j = Suc i then Some (cs ! i) else F (P j)) else F (P j))" for j
    using Pi by (simp add: eq)
  have "parts_at P i cs ?G" using Suc.prems unfolding parts_at_def G by simp
  from Suc.IH [OF this] have IH: "\<And>j. 1 \<le> j \<Longrightarrow> j \<le> i \<Longrightarrow> rotated P i ?G (P j) = (if j - 1 < length cs then Some (cs ! (j - 1)) else ?G (P j))"
    "rotated P i ?G (P 0) = (if i = 0 then ?G (P 0) else None)" "\<And>j. j > i \<Longrightarrow> rotated P i ?G (P j) = ?G (P j)"
    by blast+
  have r: "rotated P (Suc i) F = rotated P i ?G" by simp
  have "rotated P (Suc i) F (P j) = (if j - 1 < length cs then Some (cs ! (j - 1)) else F (P j))" if "1 \<le> j" "j \<le> Suc i" for j
  proof (cases "j = Suc i")
    case True
    then show ?thesis unfolding r using IH(3) [of j] G [of j] Pi by auto
  next
    case False
    then show ?thesis unfolding r using IH(1) [of j] G [of j] that by auto
  qed
  moreover have "rotated P (Suc i) F (P 0) = None"
    unfolding r using IH(2) G [of 0] assms(2) Pi by auto
  moreover have "rotated P (Suc i) F (P j) = F (P j)" if "j > Suc i" for j
    unfolding r using IH(3) [of j] G [of j] that by auto
  ultimately show ?case by simp
qed simp

text \<open>The file in use first, then the older ones; there are \<open>max_files\<close> of those at most.\<close>

definition new_part :: "nat \<Rightarrow> bytes list \<Rightarrow> bytes list" where
  "new_part max_files cs = take (Suc max_files) ([] # cs)"

lemma rotated_new_part:
  assumes "inj P" "cs \<noteq> []" "length cs \<le> Suc n" "parts_at P (Suc n) cs F"
  shows "parts_at P (Suc n) (new_part n cs) ((rotated P n F)(P 0 := Some []))"
proof -
  have eq: "P a = P b \<longleftrightarrow> a = b" for a b using assms(1) by (auto dest: injD)
  have "parts_at P n cs F" using assms(4) by (simp add: parts_at_def)
  note rot = rotated_parts [OF assms(1,2) this]
  show ?thesis unfolding parts_at_def
  proof (intro allI impI)
    fix i assume i: "i < Suc n"
    show "((rotated P n F)(P 0 := Some [])) (P i)
        = (if i < length (new_part n cs) then Some (new_part n cs ! i) else None)"
    proof (cases i)
      case 0
      then show ?thesis by (simp add: new_part_def)
    next
      case (Suc j)
      then have "F (P i) = (if i < length cs then Some (cs ! i) else None)" using assms(4) i by (simp add: parts_at_def)
      moreover have "rotated P n F (P i) = (if j < length cs then Some (cs ! j) else F (P i))"
        using rot i Suc by auto
      ultimately show ?thesis using i Suc by (auto simp: eq new_part_def)
    qed
  qed
qed

section \<open>Single calls that work\<close>

lemma fwrite_works:
  assumes "works d" "dk_files d (st_path st) = Some c"
  shows "\<exists>c' st' d'. libc_fwrite bs st d = (length bs, st', d') \<and> st_path st' = st_path st
    \<and> c' @ st_pending st' = (c @ st_pending st) @ bs \<and> files_to ((dk_files d)(st_path st := Some c')) d d'"
proof -
  obtain k d1 where d1: "disk_next d = (Works k, d1)" "works d1" "dk_files d1 = dk_files d" "dk_dirs d1 = dk_dirs d"
    using works_next [OF assms(1)] by blast
  let ?all = "st_pending st @ bs" let ?d' = "append_file (st_path st) (take k ?all) d1"
  have "libc_fwrite bs st d = (length bs, st\<lparr>st_pending := drop k ?all\<rparr>, ?d')"
    unfolding libc_fwrite_def d1 by (simp only: prod.case outcome.case Let_def)
  moreover have "files_to ((dk_files d)(st_path st := Some (c @ take k ?all))) d ?d'"
    using d1(2-4) assms(2) unfolding append_file_def put_file_def files_to_def works_def by simp
  moreover have "(c @ take k ?all) @ drop k ?all = (c @ st_pending st) @ bs"
    by (simp only: append_assoc append_take_drop_id)
  moreover have "st_pending (st\<lparr>st_pending := drop k ?all\<rparr>) = drop k ?all" by (cases st) (simp del: drop_append)
  ultimately show ?thesis
    by (intro exI [of _ "c @ take k ?all"] exI [of _ "st\<lparr>st_pending := drop k ?all\<rparr>"] exI [of _ ?d']) (simp del: drop_append take_append)
qed

lemma fflush_works:
  assumes "works d" "dk_files d (st_path st) = Some c"
  shows "\<exists>d'. libc_fflush st d = (True, st\<lparr>st_pending := []\<rparr>, d')
    \<and> files_to ((dk_files d)(st_path st := Some (c @ st_pending st))) d d'"
proof -
  obtain k d1 where d1: "disk_next d = (Works k, d1)" "works d1" "dk_files d1 = dk_files d" "dk_dirs d1 = dk_dirs d"
    using works_next [OF assms(1)] by blast
  then show ?thesis using assms(2) by (simp add: libc_fflush_def append_file_def put_file_def files_to_def works_def)
qed

lemma fstat_works:
  assumes "works d" "dk_files d (st_path st) = Some c"
  shows "\<exists>d'. libc_fstat st d = (Some (length c), d') \<and> files_to (dk_files d) d d'"
proof -
  obtain k d1 where d1: "disk_next d = (Works k, d1)" "works d1" "dk_files d1 = dk_files d" "dk_dirs d1 = dk_dirs d"
    using works_next [OF assms(1)] by blast
  then show ?thesis using assms(2) by (simp add: libc_fstat_def files_to_def)
qed

lemma files_to_trans: "files_to F d d1 \<Longrightarrow> files_to G d1 d2 \<Longrightarrow> files_to G d d2"
  by (simp add: files_to_def)

lemma files_to_notify: "files_to F d (notify b e d') = files_to F d d'" "files_to F (notify b e d) d' = files_to F d d'"
  by (simp_all add: files_to_def notify_def works_def)

lemma works_notify [simp]: "works (notify b e d) = works d"
  by (simp add: works_def notify_def)

lemma folder_notify [simp]: "log_folder base (notify b e d) = log_folder base d"
  by (simp add: log_folder_def is_dir_def notify_def)

lemma fh_close_works:
  assumes "works d" "fh_fd h = Some st" "dk_files d (st_path st) = Some c"
  shows "\<exists>d'. fh_close h d = (h\<lparr>fh_fd := None\<rparr>, d') \<and> files_to ((dk_files d)(st_path st := Some (c @ st_pending st))) d d'"
proof -
  let ?d = "notify (before_close_set (fh_handlers h)) (Before_close (fh_filename h)) d"
  obtain d1 where "libc_fclose st ?d = d1" "files_to ((dk_files d)(st_path st := Some (c @ st_pending st))) ?d d1"
    using fflush_works [of ?d st c] assms by (fastforce simp: libc_fclose_def)
  then show ?thesis using assms(2) by (simp add: fh_close_def files_to_notify Let_def)
qed

text \<open>The folder is there, so opening makes none.\<close>

lemma create_dir_there:
  assumes "log_folder base d"
  shows "\<exists>b. create_dir (dir_name base) d = (b, d)"
proof (cases "dir_name base = []")
  case True
  have "create_dir [] d = (path_exists [] d, d)" by (simp add: create_dir_def)
  then show ?thesis using True by simp
next
  case False
  have v: "base \<noteq> []" "\<not> names_directory base" "is_dir (parent (path_of base)) d" using assms by (simp_all add: log_folder_def)
  obtain t x where f: "base = t @ x" "dir_part t" "CHR ''/'' \<notin> set x" "x \<noteq> []"
    "t = [] \<and> dir_name base = [] \<or> t = dir_name base @ [CHR ''/'']"
    using dir_name_split [OF v(1,2)] by blast
  have t: "t = dir_name base @ [CHR ''/'']" using f(5) False by simp
  have "path_of t = path_of (dir_name base)"
    using path_of_snoc_slash [of "dir_name base"] False unfolding t by (cases "dir_name base") (auto simp: path_of_def)
  moreover have "parent (path_of base) = path_of t" using parent_dir_part [OF f(2-4)] f(1) by simp
  ultimately have "path_exists (dir_name base) d" using v(3) False by (simp add: path_exists_def)
  then have "create_dir (dir_name base) d = (True, d)" by (simp add: create_dir_def)
  then show ?thesis by blast
qed

lemma log_path_0: "log_path base 0 = path_of base" "calc_filename base 0 = base"
  by (simp_all add: log_path_def calc_filename_def)

lemma fh_open_works:
  assumes "works d" "log_folder base d" "fh_fd h = None"
  shows "\<exists>h' d'. fh_open base truncate_it h d = (Inr (), h', d') \<and> fh_fd h' = Some \<lparr>st_path = log_path base 0, st_pending = []\<rparr>
    \<and> fh_filename h' = base \<and> files_to ((dk_files d)(log_path base 0 := Some (old_text truncate_it base d))) d d'"
proof -
  let ?p = "log_path base 0"
  let ?d = "notify (before_open_set (fh_handlers h)) (Before_open base) d"
  have calm: "works ?d" "log_folder base ?d" "dk_files ?d = dk_files d" using assms by simp_all
  obtain b where b: "create_dir (dir_name base) ?d = (b, ?d)" using create_dir_there [OF calm(2)] by blast
  have "\<exists>d2. (if truncate_it then truncate_file base ?d else (True, ?d)) = (True, d2)
      \<and> files_to (if truncate_it then (dk_files d)(?p := Some []) else dk_files d) ?d d2"
  proof (cases truncate_it)
    case True
    obtain d1 where d1: "fopen_s base True ?d = (False, Some \<lparr>st_path = ?p, st_pending = []\<rparr>, d1)"
      "files_to ((dk_files d)(?p := Some [])) ?d d1"
      using fopen_works [OF calm(1,2) refl, of 0 True] by (auto simp: log_path_0 calm(3))
    have "works d1" "dk_files d1 = (dk_files d)(?p := Some [])" using d1(2) by (simp_all add: files_to_def)
    then have "files_to ((dk_files d)(?p := Some [])) d1 (libc_fclose \<lparr>st_path = ?p, st_pending = []\<rparr> d1)"
      using fclose_works [of d1 "\<lparr>st_path = ?p, st_pending = []\<rparr>" "[]"] by (simp add: holds_def)
    then show ?thesis using True d1 files_to_trans [OF d1(2)] by (auto simp: truncate_file_def)
  next
    case False
    then show ?thesis using calm by (simp add: files_to_def)
  qed
  then obtain d2 where d2: "(if truncate_it then truncate_file base ?d else (True, ?d)) = (True, d2)"
    "files_to (if truncate_it then (dk_files d)(?p := Some []) else dk_files d) ?d d2" by blast
  have w2: "works d2" "log_folder base d2" "dk_files d2 = (if truncate_it then (dk_files d)(?p := Some []) else dk_files d)"
    using d2(2) files_to_folder [OF d2(2)] calm(2) by (simp_all add: files_to_def)
  have F: "(dk_files d2)(?p := Some (if False then [] else case dk_files d2 ?p of None \<Rightarrow> [] | Some bs \<Rightarrow> bs))
      = (dk_files d)(?p := Some (old_text truncate_it base d))"
    unfolding w2(3) by (auto simp: old_text_def log_path_0(1))
  obtain d3 where d3: "fopen_s base False d2 = (False, Some \<lparr>st_path = ?p, st_pending = []\<rparr>, d3)"
    "files_to ((dk_files d)(?p := Some (old_text truncate_it base d))) d2 d3"
    using fopen_works [OF w2(1,2) refl, of 0 False] unfolding F log_path_0(2) by blast
  have "files_to ((dk_files d)(?p := Some (old_text truncate_it base d))) d d3"
    using files_to_trans [OF d2(2) d3(2)] by (simp add: files_to_notify)
  then show ?thesis
    using assms(3) b d2(1) d3(1)
    by (simp add: fh_open_def fh_close_def open_tries_def numeral_eq_Suc files_to_notify Let_def)
qed

section \<open>The parts of the log\<close>

text \<open>
  The abstract log: its parts, the one in use first. A line goes to the part in use, or starts a
  new one when the part in use is not empty and would get too big; the oldest part beyond
  \<open>max_files\<close> goes.
\<close>

definition roll :: "nat \<Rightarrow> nat \<Rightarrow> bytes \<Rightarrow> bytes list \<Rightarrow> bytes list" where
  "roll max_size max_files line cs =
     (let cs = (if length (hd cs) + length line > max_size \<and> hd cs \<noteq> [] then new_part max_files cs else cs)
      in (hd cs @ line) # tl cs)"

text \<open>The files and the buffer of the sink are the parts \<open>cs\<close> of the log.\<close>

definition parts_of :: "bytes list \<Rightarrow> rotating_file_sink \<Rightarrow> disk \<Rightarrow> bool" where
  "parts_of cs sink d \<longleftrightarrow> works d \<and> log_folder (rfs_base_filename sink) d
     \<and> cs \<noteq> [] \<and> length cs \<le> Suc (rfs_max_files sink)
     \<and> (\<exists>st c. fh_fd (rfs_helper sink) = Some st \<and> fh_filename (rfs_helper sink) = rfs_base_filename sink
          \<and> st_path st = log_path (rfs_base_filename sink) 0 \<and> c @ st_pending st = hd cs
          \<and> parts_at (log_path (rfs_base_filename sink)) (Suc (rfs_max_files sink)) (c # tl cs) (dk_files d))"

lemma log_path_inj: "log_folder base d \<Longrightarrow> inj (log_path base)"
  using log_path_facts(1) by (blast intro: injI)

lemma parts_at_first:
  "inj P \<Longrightarrow> parts_at P (Suc n) (c # cs) F \<Longrightarrow> parts_at P (Suc n) (c' # cs) (F(P 0 := Some c'))"
  by (auto simp: parts_at_def dest: injD) (metis less_Suc_eq_0_disj nth_Cons_Suc nth_Cons')+

lemma parts_atD: "parts_at P (Suc n) (c # cs) F \<Longrightarrow> F (P 0) = Some c"
  by (auto simp: parts_at_def)

definition same_setup :: "rotating_file_sink \<Rightarrow> rotating_file_sink \<Rightarrow> bool" where
  "same_setup sink sink' \<longleftrightarrow> rfs_base_filename sink' = rfs_base_filename sink \<and> rfs_max_files sink' = rfs_max_files sink
     \<and> rfs_max_size sink' = rfs_max_size sink \<and> rfs_formatter sink' = rfs_formatter sink"

lemma rotate_files_works:
  assumes "parts_of cs sink d"
  shows "\<exists>sink' d'. rotate_files sink d = (Inr (), sink', d') \<and> parts_of (new_part (rfs_max_files sink) cs) sink' d'
    \<and> same_setup sink sink'"
proof -
  let ?b = "rfs_base_filename sink" and ?n = "rfs_max_files sink" and ?h = "rfs_helper sink"
  let ?P = "log_path ?b"
  obtain st c where s: "works d" "log_folder ?b d" "cs \<noteq> []" "length cs \<le> Suc ?n"
    "fh_fd ?h = Some st" "fh_filename ?h = ?b" "st_path st = ?P 0" "c @ st_pending st = hd cs"
    "parts_at ?P (Suc ?n) (c # tl cs) (dk_files d)"
    using assms by (auto simp: parts_of_def)
  note inj = log_path_inj [OF s(2)]
  have "dk_files d (st_path st) = Some c" unfolding s(7) by (rule parts_atD [OF s(9)])
  then obtain d1 where d1: "fh_close ?h d = (?h\<lparr>fh_fd := None\<rparr>, d1)" "files_to ((dk_files d)(?P 0 := Some (hd cs))) d d1"
    using fh_close_works [OF s(1,5)] s(7,8) by metis
  have w1: "works d1" "log_folder ?b d1" "parts_at ?P (Suc ?n) cs (dk_files d1)"
    using d1(2) s(2,3) files_to_folder [OF d1(2)] parts_at_first [OF inj s(9), of "hd cs"] by (simp_all add: files_to_def)
  obtain d2 where d2: "rotate_loop ?n ?b d1 = (None, d2)" "files_to (rotated ?P ?n (dk_files d1)) d1 d2"
    using rotate_loop_works [OF w1(1,2)] by blast
  have w2: "works d2" "log_folder ?b d2" using d2(2) w1(2) files_to_folder [OF d2(2)] by (simp_all add: files_to_def)
  obtain h' d3 where d3: "fh_open ?b True (?h\<lparr>fh_fd := None\<rparr>) d2 = (Inr (), h', d3)"
    "fh_fd h' = Some \<lparr>st_path = ?P 0, st_pending = []\<rparr>" "fh_filename h' = ?b"
    "files_to ((dk_files d2)(?P 0 := Some [])) d2 d3"
    using fh_open_works [OF w2, of "?h\<lparr>fh_fd := None\<rparr>" True] by (auto simp: old_text_def)
  have "?b \<noteq> []" using s(2) by (simp add: log_folder_def)
  then have "rotate_files sink d = (Inr (), sink\<lparr>rfs_helper := h'\<rparr>, d3)"
    using d1(1) d2(1) d3(1) s(6) by (simp add: rotate_files_def fh_reopen_def Let_def)
  moreover have "parts_at ?P (Suc ?n) (new_part ?n cs) (dk_files d3)"
    using rotated_new_part [OF inj s(3,4) w1(3)] d2(2) d3(4) by (simp add: files_to_def)
  then have "parts_of (new_part ?n cs) (sink\<lparr>rfs_helper := h'\<rparr>) d3"
    using d3 w2(2) files_to_folder [OF d3(4)] by (simp add: parts_of_def files_to_def new_part_def)
  ultimately show ?thesis by (simp add: same_setup_def)
qed

lemma rfs_write_works:
  assumes "parts_of cs sink d"
  shows "\<exists>sink' d'. rfs_write line m sink d = (Inr (), sink', d') \<and> parts_of ((hd cs @ line) # tl cs) sink' d'
    \<and> same_setup sink sink' \<and> rfs_current_size sink' = m"
proof -
  let ?b = "rfs_base_filename sink" and ?n = "rfs_max_files sink" and ?h = "rfs_helper sink"
  let ?P = "log_path ?b"
  obtain st c where s: "works d" "log_folder ?b d" "cs \<noteq> []" "length cs \<le> Suc ?n"
    "fh_fd ?h = Some st" "fh_filename ?h = ?b" "st_path st = ?P 0" "c @ st_pending st = hd cs"
    "parts_at ?P (Suc ?n) (c # tl cs) (dk_files d)"
    using assms by (auto simp: parts_of_def)
  have "dk_files d (st_path st) = Some c" unfolding s(7) by (rule parts_atD [OF s(9)])
  from fwrite_works [OF s(1) this, of line] obtain c' st' d' where
    w: "libc_fwrite line st d = (length line, st', d')" "st_path st' = ?P 0" "c' @ st_pending st' = hd cs @ line"
      "files_to ((dk_files d)(?P 0 := Some c')) d d'"
    unfolding s(7,8) by blast
  let ?sink = "sink\<lparr>rfs_helper := ?h\<lparr>fh_fd := Some st'\<rparr>, rfs_current_size := m\<rparr>"
  have "parts_at ?P (Suc ?n) (c' # tl cs) (dk_files d')"
    using parts_at_first [OF log_path_inj [OF s(2)] s(9)] w(4) by (simp add: files_to_def)
  then have "parts_of ((hd cs @ line) # tl cs) ?sink d'"
    using w s files_to_folder [OF w(4)] by (auto simp: parts_of_def files_to_def intro!: exI [of _ c'])
  moreover have "rfs_write line m sink d = (Inr (), ?sink, d')" using s(5) w(1) by (simp add: rfs_write_def fh_write_def)
  ultimately show ?thesis by (simp add: same_setup_def)
qed

lemma rfs_flush_works:
  assumes "parts_of cs sink d"
  shows "\<exists>d' h'. fh_flush (rfs_helper sink) d = (Inr (), h', d') \<and> parts_of cs (sink\<lparr>rfs_helper := h'\<rparr>) d'
    \<and> parts_at (log_path (rfs_base_filename sink)) (Suc (rfs_max_files sink)) cs (dk_files d')
    \<and> (\<exists>d''. fh_size h' d' = (Inr (length (hd cs)), d'') \<and> parts_of cs (sink\<lparr>rfs_helper := h'\<rparr>) d'')"
proof -
  let ?b = "rfs_base_filename sink" and ?n = "rfs_max_files sink" and ?h = "rfs_helper sink"
  let ?P = "log_path ?b"
  obtain st c where s: "works d" "log_folder ?b d" "cs \<noteq> []" "length cs \<le> Suc ?n"
    "fh_fd ?h = Some st" "fh_filename ?h = ?b" "st_path st = ?P 0" "c @ st_pending st = hd cs"
    "parts_at ?P (Suc ?n) (c # tl cs) (dk_files d)"
    using assms by (auto simp: parts_of_def)
  have "dk_files d (st_path st) = Some c" unfolding s(7) by (rule parts_atD [OF s(9)])
  from fflush_works [OF s(1) this] obtain d' where
    w: "libc_fflush st d = (True, st\<lparr>st_pending := []\<rparr>, d')" "files_to ((dk_files d)(?P 0 := Some (hd cs))) d d'"
    unfolding s(7,8) by blast
  let ?h' = "?h\<lparr>fh_fd := Some (st\<lparr>st_pending := []\<rparr>)\<rparr>"
  have at: "parts_at ?P (Suc ?n) cs (dk_files d')"
    using parts_at_first [OF log_path_inj [OF s(2)] s(9), of "hd cs"] w(2) s(3) by (simp add: files_to_def)
  have parts: "parts_of cs (sink\<lparr>rfs_helper := ?h'\<rparr>) d''" if "files_to (dk_files d') d' d''" for d''
    using at that w(2) s files_to_folder [OF that] files_to_folder [OF w(2)] by (simp add: parts_of_def files_to_def)
  have w': "works d'" "dk_files d' (?P 0) = Some (hd cs)" using w(2) by (simp_all add: files_to_def)
  then obtain d'' where "libc_fstat (st\<lparr>st_pending := []\<rparr>) d' = (Some (length (hd cs)), d'')" "files_to (dk_files d') d' d''"
    using fstat_works [of d' "st\<lparr>st_pending := []\<rparr>" "hd cs"] s(7) by auto
  then have "fh_size ?h' d' = (Inr (length (hd cs)), d'')" "parts_of cs (sink\<lparr>rfs_helper := ?h'\<rparr>) d''"
    using parts by (simp_all add: fh_size_def)
  moreover have "parts_of cs (sink\<lparr>rfs_helper := ?h'\<rparr>) d'" by (rule parts) (simp add: files_to_def w'(1))
  moreover have "fh_flush ?h d = (Inr (), ?h', d')" using s(5) w(1) by (simp add: fh_flush_def)
  ultimately show ?thesis using at by blast
qed

lemma rfs_put_works:
  assumes "parts_of cs sink d" "rfs_current_size sink = length (hd cs)"
  shows "\<exists>sink' d'. rfs_put line sink d = (Inr (), sink', d') \<and> same_setup sink sink'
    \<and> parts_of (roll (rfs_max_size sink) (rfs_max_files sink) line cs) sink' d'
    \<and> rfs_current_size sink' = length (hd (roll (rfs_max_size sink) (rfs_max_files sink) line cs))"
proof (cases "length (hd cs) + length line > rfs_max_size sink")
  case False
  then show ?thesis
    using rfs_write_works [OF assms(1), of line "length (hd cs) + length line"] assms(2) by (auto simp: rfs_put_def roll_def)
next
  case True
  obtain h' d' d'' where f: "fh_flush (rfs_helper sink) d = (Inr (), h', d')" "fh_size h' d' = (Inr (length (hd cs)), d'')"
    "parts_of cs (sink\<lparr>rfs_helper := h'\<rparr>) d''"
    using rfs_flush_works [OF assms(1)] by blast
  let ?sink = "sink\<lparr>rfs_helper := h'\<rparr>"
  show ?thesis
  proof (cases "hd cs = []")
    case empty: True
    then show ?thesis
      using rfs_write_works [OF f(3), of line "length (hd cs) + length line"] True assms(2) f(1,2)
      by (auto simp: rfs_put_def roll_def same_setup_def Let_def)
  next
    case False
    obtain sink1 d1 where r: "rotate_files ?sink d'' = (Inr (), sink1, d1)"
      "parts_of (new_part (rfs_max_files sink) cs) sink1 d1" "same_setup ?sink sink1"
      using rotate_files_works [OF f(3)] by auto
    have "hd (new_part (rfs_max_files sink) cs) = []" by (simp add: new_part_def)
    then show ?thesis
      using rfs_write_works [OF r(2), of line "length line"] True False assms(2) f(1,2) r(1,3)
      by (auto simp: rfs_put_def roll_def same_setup_def Let_def)
  qed
qed

section \<open>The log as a whole\<close>

fun rfs_log_all :: "log_env \<Rightarrow> log_record list \<Rightarrow> rotating_file_sink \<Rightarrow> disk \<Rightarrow> fault + bool list \<times> rotating_file_sink \<times> disk" where
  "rfs_log_all env [] sink d = Inr ([], sink, d)"
| "rfs_log_all env (m # ms) sink d =
     bindE (rfs_sink_it env m sink d) (\<lambda>(r, sink, d).
     bindE (rfs_log_all env ms sink d) (\<lambda>(thrown, sink, d). Inr (isl r # thrown, sink, d)))"

lemma rfs_log_all_works:
  assumes "parts_of cs sink d" "rfs_current_size sink = length (hd cs)" "cache_inv env tt eol (rfs_formatter sink)"
    "\<forall>m \<in> set ms. secs_of (msg_time m) \<noteq> 0"
  shows "\<exists>sink' d'. rfs_log_all env ms sink d = Inr (replicate (length ms) False, sink', d')
    \<and> parts_of (fold (\<lambda>m. roll (rfs_max_size sink) (rfs_max_files sink) (record_line env tt eol m)) ms cs) sink' d'
    \<and> rfs_base_filename sink' = rfs_base_filename sink \<and> rfs_max_files sink' = rfs_max_files sink"
  using assms
proof (induction ms arbitrary: cs sink d)
  case (Cons m ms)
  let ?line = "record_line env tt eol m"
  obtain pf' msg' where pf: "pf_format env m (rfs_formatter sink) [] = Inr (pf', msg', ?line)" "cache_inv env tt eol pf'"
    using cached_format [OF Cons.prems(3), of m "[]"] Cons.prems(4) by (auto simp: record_line_def)
  let ?sink = "sink\<lparr>rfs_formatter := pf'\<rparr>"
  have "parts_of cs ?sink d" "rfs_current_size ?sink = length (hd cs)" using Cons.prems(1,2) by (simp_all add: parts_of_def)
  from rfs_put_works [OF this, of ?line] obtain sink1 d1 where
    p: "rfs_put ?line ?sink d = (Inr (), sink1, d1)" "same_setup ?sink sink1"
      "parts_of (roll (rfs_max_size sink) (rfs_max_files sink) ?line cs) sink1 d1"
      "rfs_current_size sink1 = length (hd (roll (rfs_max_size sink) (rfs_max_files sink) ?line cs))"
    by auto
  have keep: "rfs_max_size sink1 = rfs_max_size sink" "rfs_max_files sink1 = rfs_max_files sink"
    "rfs_base_filename sink1 = rfs_base_filename sink" "rfs_formatter sink1 = pf'"
    using p(2) by (simp_all add: same_setup_def)
  show ?case
    using Cons.IH [OF p(3,4)] Cons.prems(4) pf p(1) keep by (auto simp: rfs_sink_it_def)
qed simp

text \<open>What holds of the parts after any sequence of lines.\<close>

lemma roll_parts:
  assumes "cs \<noteq> []" "length cs \<le> Suc n" "\<forall>c \<in> set cs. length c \<le> max_size \<or> c \<in> L"
  shows "roll max_size n line cs \<noteq> [] \<and> length (roll max_size n line cs) \<le> Suc n
    \<and> (\<forall>c \<in> set (roll max_size n line cs). length c \<le> max_size \<or> c \<in> insert line L)
    \<and> (\<exists>gone. gone @ concat (rev (roll max_size n line cs)) = concat (rev cs) @ line)"
proof -
  obtain c older where cs: "cs = c # older" using assms(1) by (cases cs) auto
  show ?thesis
  proof (cases "length c + length line > max_size \<and> c \<noteq> []")
    case True
    then have r: "roll max_size n line cs = line # take n cs" by (simp add: roll_def new_part_def cs)
    have "concat (rev cs) = concat (rev (drop n cs)) @ concat (rev (take n cs))"
      by (metis append_take_drop_id concat_append rev_append)
    then show ?thesis using assms(3) unfolding r
      by (auto dest: in_set_takeD intro!: exI [of _ "concat (rev (drop n cs))"])
  next
    case False
    then have r: "roll max_size n line cs = (c @ line) # older" by (auto simp: roll_def cs)
    have "length (c @ line) \<le> max_size \<or> c @ line = line" using False by auto
    then show ?thesis using assms unfolding r by (auto simp: cs)
  qed
qed

lemma rolled_parts:
  assumes "cs \<noteq> []" "length cs \<le> Suc n" "\<forall>c \<in> set cs. length c \<le> max_size \<or> c \<in> L"
  shows "length (fold (roll max_size n) lines cs) \<le> Suc n
    \<and> (\<forall>c \<in> set (fold (roll max_size n) lines cs). length c \<le> max_size \<or> c \<in> L \<union> set lines)
    \<and> (\<exists>gone. gone @ concat (rev (fold (roll max_size n) lines cs)) = concat (rev cs) @ concat lines)"
  using assms
proof (induction lines arbitrary: cs L)
  case (Cons line lines)
  note r = roll_parts [OF Cons.prems, of line]
  from Cons.IH [of "roll max_size n line cs" "insert line L"] r
  have IH: "length (fold (roll max_size n) (line # lines) cs) \<le> Suc n"
    "\<forall>c \<in> set (fold (roll max_size n) (line # lines) cs). length c \<le> max_size \<or> c \<in> L \<union> set (line # lines)"
    "\<exists>gone. gone @ concat (rev (fold (roll max_size n) (line # lines) cs)) = concat (rev (roll max_size n line cs)) @ concat lines"
    by auto
  obtain g1 g2 where "g1 @ concat (rev (roll max_size n line cs)) = concat (rev cs) @ line"
    "g2 @ concat (rev (fold (roll max_size n) (line # lines) cs)) = concat (rev (roll max_size n line cs)) @ concat lines"
    using r IH(3) by blast
  then have "(g1 @ g2) @ concat (rev (fold (roll max_size n) (line # lines) cs)) = concat (rev cs) @ concat (line # lines)"
    by (metis append_assoc concat.simps(2))
  then show ?case using IH(1,2) by blast
qed auto

text \<open>A new sink in a folder without log files.\<close>

lemma new_sink_parts:
  assumes "0 < max_size" "max_files \<le> 200000" "works d" "log_folder base d"
    "\<forall>i \<le> max_files. dk_files d (log_path base i) = None"
  shows "\<exists>sink d0. rotating_file_sink_new base max_size max_files rotate_on_open handlers pf d = (Inr (), sink, d0)
    \<and> parts_of [[]] sink d0 \<and> rfs_current_size sink = 0 \<and> rfs_formatter sink = pf \<and> rfs_base_filename sink = base
    \<and> rfs_max_size sink = max_size \<and> rfs_max_files sink = max_files"
proof -
  let ?h = "file_helper_new handlers" let ?P = "log_path base"
  have "fh_fd ?h = None" by (simp add: file_helper_new_def)
  then obtain h' d1 where o: "fh_open base False ?h d = (Inr (), h', d1)" "fh_fd h' = Some \<lparr>st_path = ?P 0, st_pending = []\<rparr>"
    "fh_filename h' = base" "files_to ((dk_files d)(?P 0 := Some (old_text False base d))) d d1"
    using fh_open_works [OF assms(3,4), of ?h False] by blast
  have files: "dk_files d1 = (dk_files d)(?P 0 := Some [])" "works d1" "log_folder base d1"
    using o(4) assms(4,5) files_to_folder [OF o(4)] by (simp_all add: files_to_def old_text_def log_path_0(1) [symmetric])
  obtain d2 where d2: "fh_size h' d1 = (Inr 0, d2)" "files_to (dk_files d1) d1 d2"
    using fstat_works [OF files(2), of "\<lparr>st_path = ?P 0, st_pending = []\<rparr>" "[]"] o(2) files(1) by (auto simp: fh_size_def)
  have "parts_at ?P (Suc max_files) [[]] (dk_files d2)"
    using d2(2) files(1) assms(5) log_path_facts(1) [OF assms(4)] by (auto simp: parts_at_def files_to_def)
  then show ?thesis
    using assms(1,2) o(1-3) d2 files_to_folder [OF d2(2)] files(3)
    by (auto simp: rotating_file_sink_new_def calc_filename_def parts_of_def files_to_def Let_def)
qed


lemma log_folder_empty:
  assumes "base \<noteq> []" "\<not> names_directory base" "snd (parent (path_of base)) = []"
  shows "log_folder base (empty_disk coming)"
proof -
  obtain t name where f: "dir_part t"
    "\<And>i. calc_filename base i = t @ name i \<and> CHR ''/'' \<notin> set (name i) \<and> name i \<noteq> []"
    using calc_filename_parts [OF assms(1,2)] by blast
  have "snd (log_path base i) \<noteq> []" for i
    using f path_of_dir_part [of t "name i"] by (simp add: log_path_def)
  then show ?thesis using assms by (simp add: log_folder_def is_dir_def empty_disk_def)
qed


end
