(* ===== verification/Spec2Isabelle.thy ===== *)
theory Spec2Isabelle
  imports VConsole_Session Tui_Threads Spdlog_Registry Client_Main Server_Races Pattern_Lines Remote_Threads Log_Format Rotating_Sink
begin

text \<open>
  CS2RemoteConsole: a terminal console for Counter-Strike 2 and the server that relays commands to
  it. This library models the program as HOL functions and step relations and proves what makes
  its parts correct, and where they are not. Paths are under \<open>src/\<close>.

  \<^bold>\<open>The program.\<close> \<open>libvconsole\<close> is a client of the game's VConsole protocol: chunks of a 12 byte header
  and a body, over TCP. \<open>CS2RemoteConsole-client\<close> shows what the game prints in a curses interface,
  sends it what the user types, and connects to \<open>CS2RemoteConsole-server\<close>, whose operator types
  commands that the server broadcasts to its clients. Each of the two connections of the client has
  a connector thread that dials and a listener thread that reads; the main thread runs the
  interface; the server has an acceptor thread, a console thread and a thread per client. The
  client logs through spdlog (bundled, with a bundled fmt) into a file and into its own interface.

  \<^bold>\<open>The theories, with the code they model.\<close>

  \<^item> \<open>Prelude\<close>: faults, the error monad \<open>bindE\<close>, reads of byte vectors, C strings, the collections
    of simplification rules. \<open>Byte_Order\<close> (\<open>common/platform.h\<close>): byte order. \<open>Codec\<close>: fixed-width
    binary formats (locale \<open>fixed_codec\<close>) and the sizes of C structs. \<open>Os_Api\<close>: the socket calls, a
    record of functions over an arbitrary world, and the socket that delivers a given stream.
  \<^item> \<open>Messages\<close>, \<open>VConsole\<close>, \<open>VConsole_Session\<close> (\<open>libvconsole/src\<close>): the structs and their
    parsers; the class \<open>VConsole\<close>, its reads and its dispatch; its sessions. A read behind the end
    of a vector is a \<open>fault\<close>, so a theorem that a call gives a value says that the call is defined.
  \<^item> \<open>Descriptors\<close>: which descriptors are open (locales \<open>kernel\<close>, the contract of the operating
    system, and \<open>connection_slot\<close>, that of a variable that owns a socket).
  \<^item> \<open>Bounded_Fifo\<close>: buffers that drop their oldest element (locale \<open>bounded_fifo\<close>), with
    \<open>details/circular_q.h\<close>; the interface's message history is a second instance.
  \<^item> \<open>Number_Text\<close>, \<open>Time_Text\<close>: numbers and times as text. \<open>Config\<close> (\<open>config.cpp\<close>).
  \<^item> \<open>Tui_State\<close>, \<open>Tui_Color\<close>, \<open>Tui\<close> (\<open>tui/tui.cpp\<close>, \<open>tui.h\<close>): the class \<open>TUI\<close> as a record and
    its member functions; what curses is asked to draw is a trace. \<open>Tui_History\<close>: history, scrolling
    and screen. \<open>Tui_Input\<close>: the line editor. \<open>Tui_Threads\<close>: every member function as a sequence of
    acts (lock, unlock, compute) of interleaving threads.
  \<^item> \<open>Spdlog\<close>, \<open>Spdlog_Registry\<close> (\<open>logger-inl.h\<close>, \<open>details/backtracer-inl.h\<close>, \<open>details/registry-inl.h\<close>):
    levels, loggers, sinks, backtrace, the registry. \<open>Pattern_Flags\<close>, \<open>Pattern_Formatter\<close>,
    \<open>Pattern_Lines\<close> (\<open>pattern_formatter-inl.h\<close>): the compiler of patterns, every flag, the lines.
  \<^item> \<open>Fmt_Digits\<close>, \<open>Fmt_Utf8\<close>, \<open>Fmt_Printable\<close>, \<open>Fmt_Write\<close>, \<open>Fmt_Parse\<close>, \<open>Fmt_Format\<close>
    (\<open>fmt/bundled/format.h\<close>, \<open>format-inl.h\<close>, \<open>core.h\<close>): decimal output, UTF-8, escaping, the
    writing of one argument, the parser of format strings, \<open>vformat_to\<close>.
  \<^item> \<open>Log_Format\<close> (\<open>logger.h\<close>, \<open>logger-inl.h\<close>): a log call from its format string to the sinks.
  \<^item> \<open>Os_Files\<close>, \<open>File_Sink\<close>, \<open>Rotating_Sink\<close> (\<open>details/os-inl.h\<close>, \<open>details/file_helper-inl.h\<close>,
    \<open>sinks/basic_file_sink-inl.h\<close>, \<open>sinks/rotating_file_sink-inl.h\<close>): an executable model of the C
    library's files, whose calls fail as a list of outcomes says, and the log files on top of it.
  \<^item> \<open>Client_State\<close>, \<open>Client_CS2\<close>, \<open>Client_Remote\<close>, \<open>Client_Main\<close> (\<open>CS2RemoteConsole-client/src\<close>):
    the client's globals as a record that extends the interface's, the two connections, start,
    callbacks, signal handler and shutdown. \<open>Client_Sessions\<close>: properties of the two connections.
    \<open>Remote_Threads\<close>: the statements of the relay connection's two threads, interleaved.
  \<^item> \<open>Server_State\<close>, \<open>Server\<close> (\<open>CS2RemoteConsole-server/src\<close>): the class \<open>Server\<close>, its vector of
    clients with its allocation, its functions. \<open>Server_Ports\<close>, \<open>Server_Clients\<close>: the port search,
    one client's messages. \<open>Server_Threads\<close>, \<open>Server_Races\<close>: its threads as a step relation, the
    invariant of the reachable states, the references that dangle.

  \<^bold>\<open>How the parts fit.\<close> A function of the code is a function on its state: a record for a class, the
  pair of the kernel's world and the client's or server's record where it makes system calls. The
  client's record extends the interface's, so a function of the interface is one of the client.
  Callbacks are functions in the records that hold them. \<open>say\<close> and \<open>spd\<close> log through the model of
  spdlog, whose sink calls the interface back; \<open>Log_Format\<close> shows that the texts they log are what
  fmt makes of the code's format strings. Threads interleave at the points each theory names:
  loop bodies (\<open>Client_Remote\<close>, \<open>Server_Threads\<close>), locks (\<open>Tui_Threads\<close>), statements (\<open>Remote_Threads\<close>).

  \<^bold>\<open>What the theorems show.\<close> Wire format: the reader cuts any stream at the frame boundaries, command
  frames are exact, and each parser has the exact condition under which it stays in bounds (the
  code checks none of them). Connections: a listener's read becomes one command to the game;
  descriptors are kept over whole sessions, but for two races whose outcomes are enumerated.
  Server: its registry is sound under every interleaving; a broadcast reaches everyone else once;
  the port search finds the first free port and does not end without one; references into the
  vector dangle when it grows. Interface: the history is the last 10000 messages, the key handler
  refines a line editor, and of the lock-level interleavings exactly one pattern deadlocks.
  Logging: lines are those of the documented pattern whatever the caches hold, no pattern reads out
  of bounds, and a log call cannot fail. A log file keeps its lines in order whatever write fails, and
  rotating files keep the newest lines within their limits. Fmt: the table-driven routines (digit counts, UTF-8 decoding,
  printable characters) equal their plain definitions, the two parsing loops agree, formatting ends
  in bounds on every format string, and a field's text is what its specification says.

  \<^bold>\<open>Bounds and fuel.\<close> Integers keep their width where it matters: 16 and 32 bit fields of the wire,
  \<open>uint16_t\<close> ports, \<open>size_t\<close> subtractions of the parsers, the digit counters, the accumulators of
  \<open>parse_nonnegative_int\<close>. Sizes of strings and vectors in memory are natural numbers. No function
  has fuel: a loop that may not end is a \<open>partial_function\<close> into \<open>option\<close>, and that it returns is a
  theorem (formatting, the port search with a free port) or is refuted (the port search without one);
  the others terminate by a measure.

  \<^bold>\<open>Not modelled.\<close> The branches for Windows of the files above, as POSIX builds do not contain them.
  Floating-point and 128-bit numbers, digit grouping, user-defined types, wide characters and
  compile-time checks of fmt, which no log call of the program uses. The headers the program never
  reaches: fmt's \<open>chrono.h\<close>, \<open>ranges.h\<close>, \<open>printf.h\<close>, \<open>color.h\<close>, \<open>compile.h\<close>, \<open>os.h\<close>, \<open>std.h\<close>,
  \<open>ostream.h\<close>, \<open>args.h\<close>, \<open>xchar.h\<close>, and spdlog's remaining sinks, asynchronous loggers, thread pool
  and periodic flusher, stopwatch and configuration from the environment. The curses headers, which
  declare a library that is not here. Build files and the README. libc, the kernel and
  curses are parameters, or executable models of what the code uses of them.
\<close>

end
